(* ===== verification/Dds_Prelude.thy ===== *)
theory Dds_Prelude
  imports Main "HOL-Library.Word" "HOL-Library.AList" "HOL-Library.Multiset"
begin

text \<open>
  Shared vocabulary of the development.

  \<^item> Bytes are 8-bit words and a Go \<^verbatim>\<open>[]byte\<close> is a list of them. A Go fixed-size array
    \<^verbatim>\<open>[n]byte\<close> is a byte list whose length the well-formedness predicate of the enclosing
    type pins to \<open>n\<close>.
  \<^item> \<^verbatim>\<open>uint16\<close>, \<^verbatim>\<open>uint32\<close> and \<^verbatim>\<open>uint64\<close> are 16, 32 and 64-bit words; \<^verbatim>\<open>int32\<close> and
    \<^verbatim>\<open>int64\<close> fields are words of the same width read with \<open>sint\<close>, so that Go's
    reinterpreting conversions between them are the identity.
  \<^item> \<^verbatim>\<open>encoding/binary\<close>'s \<^verbatim>\<open>LittleEndian\<close> and \<^verbatim>\<open>BigEndian\<close> accessors are the \<open>Put\<close> functions
    (the bytes the call stores) and the \<open>Uint\<close> functions (the value it loads). Loading from a
    slice that is too short panics in Go; every caller guards the length first.
  \<^item> \<^verbatim>\<open>time.Time\<close> is an integer number of nanoseconds since the Unix epoch and
    \<^verbatim>\<open>time.Duration\<close> a number of nanoseconds; \<^verbatim>\<open>Time.Sub\<close> saturates as in Go.
  \<^item> A Go map that the code ranges over is an association list with distinct keys. Its
    order stands for the order one particular \<^verbatim>\<open>range\<close> visits, so a fact proved for
    every list holds for every iteration order. Other maps are functions into \<open>option\<close>.
\<close>

unbundle bit_operations_syntax

named_theorems wire \<open>round trips of the byte accessors\<close>
named_theorems wire_defs \<open>definitions of the byte accessors\<close>

type_synonym byte = "8 word"
type_synonym bytes = "8 word list"
type_synonym uint16 = "16 word"
type_synonym uint32 = "32 word"
type_synonym uint64 = "64 word"
type_synonym int32 = "32 word"
type_synonym int64 = "64 word"
type_synonym gotime = int
type_synonym duration = int

subsection \<open>Byte order accessors of encoding/binary\<close>

definition PutUint16 :: "uint16 \<Rightarrow> bytes" where
  "PutUint16 v = [ucast v, ucast (drop_bit 8 v)]"

definition Uint16 :: "bytes \<Rightarrow> uint16" where
  "Uint16 b = ucast (b ! 0) OR push_bit 8 (ucast (b ! 1))"

definition PutUint16BE :: "uint16 \<Rightarrow> bytes" where
  "PutUint16BE v = [ucast (drop_bit 8 v), ucast v]"

definition Uint16BE :: "bytes \<Rightarrow> uint16" where
  "Uint16BE b = ucast (b ! 1) OR push_bit 8 (ucast (b ! 0))"

definition PutUint32 :: "uint32 \<Rightarrow> bytes" where
  "PutUint32 v = [ucast v, ucast (drop_bit 8 v), ucast (drop_bit 16 v), ucast (drop_bit 24 v)]"

definition Uint32 :: "bytes \<Rightarrow> uint32" where
  "Uint32 b = ucast (b ! 0) OR push_bit 8 (ucast (b ! 1)) OR push_bit 16 (ucast (b ! 2))
     OR push_bit 24 (ucast (b ! 3))"

definition PutUint64 :: "uint64 \<Rightarrow> bytes" where
  "PutUint64 v =
     [ucast v, ucast (drop_bit 8 v), ucast (drop_bit 16 v), ucast (drop_bit 24 v),
      ucast (drop_bit 32 v), ucast (drop_bit 40 v), ucast (drop_bit 48 v), ucast (drop_bit 56 v)]"

definition Uint64 :: "bytes \<Rightarrow> uint64" where
  "Uint64 b = ucast (b ! 0) OR push_bit 8 (ucast (b ! 1)) OR push_bit 16 (ucast (b ! 2))
     OR push_bit 24 (ucast (b ! 3)) OR push_bit 32 (ucast (b ! 4)) OR push_bit 40 (ucast (b ! 5))
     OR push_bit 48 (ucast (b ! 6)) OR push_bit 56 (ucast (b ! 7))"

lemmas put_defs [wire_defs] =
  PutUint16_def PutUint16BE_def PutUint32_def PutUint64_def
lemmas get_defs [wire_defs] =
  Uint16_def Uint16BE_def Uint32_def Uint64_def

text \<open>\<open>b[i:j]\<close> of a slice, for \<open>i \<le> j \<le> len(b)\<close>.\<close>

definition slice :: "nat \<Rightarrow> nat \<Rightarrow> 'a list \<Rightarrow> 'a list" where
  "slice i j b = take (j - i) (drop i b)"

definition timeSub :: "gotime \<Rightarrow> gotime \<Rightarrow> duration" where
  "timeSub a b = max (- (2 ^ 63)) (min (2 ^ 63 - 1) (a - b))"

text \<open>The zero \<^verbatim>\<open>time.Time{}\<close>: midnight, 1 January of year 1.\<close>

definition zeroTime :: gotime where
  "zeroTime = - 62135596800 * 10 ^ 9"

definition second :: duration where
  "second = 10 ^ 9"

definition millisecond :: duration where
  "millisecond = 10 ^ 6"

subsection \<open>Round trips of the accessors\<close>

lemma length_Put [simp]:
  "length (PutUint16 a) = 2" "length (PutUint16BE a) = 2"
  "length (PutUint32 b) = 4" "length (PutUint64 c) = 8"
  by (simp_all add: put_defs)

lemma Put_neq_Nil [simp]:
  "PutUint16 a \<noteq> []" "PutUint16BE a \<noteq> []" "PutUint32 b \<noteq> []" "PutUint64 c \<noteq> []"
  by (simp_all add: put_defs)

lemma byte_lane_bit:
  fixes v :: "'a::len word"
  assumes "n < LENGTH('a)"
  shows "bit (push_bit k (ucast (ucast (drop_bit k v) :: byte) :: 'a word)) n
     \<longleftrightarrow> k \<le> n \<and> n < k + 8 \<and> bit v n"
  using assms by (auto simp: bit_simps)

lemma byte_lane0_bit:
  fixes v :: "'a::len word"
  assumes "n < LENGTH('a)"
  shows "bit (ucast (ucast v :: byte) :: 'a word) n \<longleftrightarrow> n < 8 \<and> bit v n"
  using assms by (auto simp: bit_simps)

lemmas byte_lane = bit_or_iff byte_lane_bit byte_lane0_bit

lemma Uint16_Put [simp, wire]: "Uint16 (PutUint16 v @ r) = v"
proof (rule bit_word_eqI)
  fix n assume "n < LENGTH(16)"
  then show "bit (Uint16 (PutUint16 v @ r)) n = bit v n"
    by (auto simp: Uint16_def PutUint16_def byte_lane)
qed

lemma Uint16BE_Put [simp, wire]: "Uint16BE (PutUint16BE v @ r) = v"
proof (rule bit_word_eqI)
  fix n assume "n < LENGTH(16)"
  then show "bit (Uint16BE (PutUint16BE v @ r)) n = bit v n"
    by (auto simp: Uint16BE_def PutUint16BE_def byte_lane)
qed

lemma Uint32_Put [simp, wire]: "Uint32 (PutUint32 v @ r) = v"
proof (rule bit_word_eqI)
  fix n assume "n < LENGTH(32)"
  then show "bit (Uint32 (PutUint32 v @ r)) n = bit v n"
    by (auto simp: Uint32_def PutUint32_def byte_lane)
qed

lemma Uint64_Put [simp, wire]: "Uint64 (PutUint64 v @ r) = v"
proof (rule bit_word_eqI)
  fix n assume "n < LENGTH(64)"
  then show "bit (Uint64 (PutUint64 v @ r)) n = bit v n"
    by (auto simp: Uint64_def PutUint64_def byte_lane)
qed

lemma Uint16_Put_exact [simp, wire]: "Uint16 (PutUint16 v) = v"
  using Uint16_Put [of v "[]"] by simp

lemma Uint16BE_Put_exact [simp, wire]: "Uint16BE (PutUint16BE v) = v"
  using Uint16BE_Put [of v "[]"] by simp

lemma Uint32_Put_exact [simp, wire]: "Uint32 (PutUint32 v) = v"
  using Uint32_Put [of v "[]"] by simp

lemma Uint64_Put_exact [simp, wire]: "Uint64 (PutUint64 v) = v"
  using Uint64_Put [of v "[]"] by simp

text \<open>A load depends only on the bytes it reads.\<close>

lemma Uint16_take: "2 \<le> n \<Longrightarrow> Uint16 (take n b) = Uint16 b"
  by (simp add: Uint16_def)

lemma Uint32_take: "4 \<le> n \<Longrightarrow> Uint32 (take n b) = Uint32 b"
  by (simp add: Uint32_def)

lemma Uint64_take: "8 \<le> n \<Longrightarrow> Uint64 (take n b) = Uint64 b"
  by (simp add: Uint64_def)

subsection \<open>Slices\<close>

lemma length_slice [simp]: "j \<le> length b \<Longrightarrow> length (slice i j b) = j - i"
  by (simp add: slice_def)

lemma slice_append_skip [simp]:
  "length a \<le> i \<Longrightarrow> slice i j (a @ b) = slice (i - length a) (j - length a) b"
  by (simp add: slice_def)

lemma slice_append_take [simp]:
  "length a = j \<Longrightarrow> slice 0 j (a @ b) = a"
  by (simp add: slice_def)

lemma slice_all [simp]: "length a = j \<Longrightarrow> slice 0 j a = a"
  by (simp add: slice_def)

lemma slice_take: "j \<le> n \<Longrightarrow> slice i j (take n b) = slice i j b"
  by (simp add: slice_def drop_take min_def)

subsection \<open>Durations\<close>

lemma timeSub_in_range:
  "- (2 ^ 63) \<le> a - b \<Longrightarrow> a - b < 2 ^ 63 \<Longrightarrow> timeSub a b = a - b"
  by (simp add: timeSub_def)

lemma timeSub_le_dur: "d < 2 ^ 63 - 1 \<Longrightarrow> - (2 ^ 63) \<le> d \<Longrightarrow> timeSub a b \<le> d \<longleftrightarrow> a - b \<le> d"
  by (auto simp: timeSub_def)

lemma timeSub_less_dur: "d < 2 ^ 63 \<Longrightarrow> - (2 ^ 63) < d \<Longrightarrow> timeSub a b < d \<longleftrightarrow> a - b < d"
  by (auto simp: timeSub_def)

subsection \<open>Association lists\<close>

lemma map_of_update_eq [simp]: "map_of (AList.update k v al) k' = (if k' = k then Some v else map_of al k')"
  by (simp add: update_conv)

lemma map_of_delete_eq [simp]:
  "map_of (AList.delete k al) k' = (if k' = k then None else map_of al k')"
  by (simp add: delete_conv)

lemma map_of_mset_eq:
  assumes "mset xs = mset ys" "distinct (map fst xs)"
  shows "map_of xs = map_of ys"
proof -
  have "set xs = set ys"
    using assms(1) by (rule mset_eq_setD)
  moreover have "mset (map fst xs) = mset (map fst ys)"
    using assms(1) by simp
  with assms(2) have "distinct (map fst ys)"
    by (metis mset_eq_imp_distinct_iff)
  ultimately show ?thesis
    using assms(2) by (simp add: map_of_inject_set)
qed

subsection \<open>Natural numbers that fit a width\<close>

lemma unat_of_nat16: "n < 2 ^ 16 \<Longrightarrow> unat (of_nat n :: uint16) = n"
  and unat_of_nat32: "n < 2 ^ 32 \<Longrightarrow> unat (of_nat n :: uint32) = n"
  and unat_of_nat64: "n < 2 ^ 64 \<Longrightarrow> unat (of_nat n :: uint64) = n"
  by (simp_all add: unat_of_nat take_bit_nat_eq_self)

subsection \<open>Sums over association lists\<close>

lemma sum_list_alist_update:
  fixes f :: "'b \<Rightarrow> 'c :: ab_group_add"
  assumes "distinct (map fst al)"
  shows "sum_list (map (f \<circ> snd) (AList.update k v al))
    = sum_list (map (f \<circ> snd) al) + f v - (case map_of al k of Some x \<Rightarrow> f x | None \<Rightarrow> 0)"
  using assms by (induction al) (auto split: option.split simp: algebra_simps dest: map_of_SomeD)

end
