(* ===== verification/Rtps_Guid.thy ===== *)
theory Rtps_Guid
  imports Dds_Prelude "HOL-Library.List_Lexorder" "HOL-Library.Char_ord"
begin

text \<open>
  RTPS identifiers (\<^verbatim>\<open>rtps/guid.go\<close>): participant prefixes, entity ids, GUIDs, their
  generation and their hexadecimal spelling, and the total order on GUIDs that
  \<^verbatim>\<open>rtps/qos_enforce.go\<close> breaks ownership ties with. GUIDs are made an instance of
  \<open>linorder\<close> through that order, so the library's facts on minima apply to them.
\<close>

type_synonym GuidPrefix = bytes
type_synonym EntityId = bytes

datatype GUID = GUID (Prefix: GuidPrefix) (Entity: EntityId)

definition wf_prefix :: "GuidPrefix \<Rightarrow> bool" where
  "wf_prefix p \<longleftrightarrow> length p = 12"

definition wf_eid :: "EntityId \<Rightarrow> bool" where
  "wf_eid e \<longleftrightarrow> length e = 4"

definition wf_guid :: "GUID \<Rightarrow> bool" where
  "wf_guid g \<longleftrightarrow> wf_prefix (Prefix g) \<and> wf_eid (Entity g)"

definition zeroPrefix :: GuidPrefix where
  "zeroPrefix = replicate 12 0"

definition zeroGUID :: GUID where
  "zeroGUID = GUID zeroPrefix (replicate 4 0)"

subsection \<open>Well-known entity ids\<close>

definition EntityIdParticipant :: EntityId where
  "EntityIdParticipant = [0x00, 0x00, 0x01, 0xC1]"

definition EntityIdSPDPWriter :: EntityId where
  "EntityIdSPDPWriter = [0x00, 0x01, 0x00, 0xC2]"

definition EntityIdSPDPReader :: EntityId where
  "EntityIdSPDPReader = [0x00, 0x01, 0x00, 0xC7]"

definition EntityIdSEDPPubWriter :: EntityId where
  "EntityIdSEDPPubWriter = [0x00, 0x00, 0x03, 0xC2]"

definition EntityIdSEDPPubReader :: EntityId where
  "EntityIdSEDPPubReader = [0x00, 0x00, 0x03, 0xC7]"

definition EntityIdSEDPSubWriter :: EntityId where
  "EntityIdSEDPSubWriter = [0x00, 0x00, 0x04, 0xC2]"

definition EntityIdSEDPSubReader :: EntityId where
  "EntityIdSEDPSubReader = [0x00, 0x00, 0x04, 0xC7]"

definition EntityIdUnknown :: EntityId where
  "EntityIdUnknown = [0x00, 0x00, 0x00, 0x00]"

lemmas entity_id_defs =
  EntityIdParticipant_def EntityIdSPDPWriter_def EntityIdSPDPReader_def
  EntityIdSEDPPubWriter_def EntityIdSEDPPubReader_def
  EntityIdSEDPSubWriter_def EntityIdSEDPSubReader_def EntityIdUnknown_def

text \<open>The builtin endpoint bits, \<^verbatim>\<open>1 << 0\<close> to \<^verbatim>\<open>1 << 5\<close>, that an announcement sets.\<close>

definition builtinEndpointSet :: uint32 where
  "builtinEndpointSet = push_bit 0 1 OR push_bit 1 1 OR push_bit 2 1 OR push_bit 3 1
     OR push_bit 4 1 OR push_bit 5 1"

subsection \<open>Generating identifiers\<close>

text \<open>
  \<open>rnd\<close> is what \<^verbatim>\<open>rand.Read(p[:8])\<close> yields: the eight bytes, or nothing when the
  CSPRNG fails, on which \<^verbatim>\<open>newGuidPrefix\<close> panics (here \<open>None\<close>). \<^verbatim>\<open>newGuidPrefixSafe\<close>
  recovers the panic into an error.
\<close>

definition newGuidPrefix :: "bytes option \<Rightarrow> uint32 \<Rightarrow> GuidPrefix option" where
  "newGuidPrefix rnd pid =
     (case rnd of None \<Rightarrow> None
      | Some r \<Rightarrow> Some (take 8 r @
          [ucast pid, ucast (drop_bit 8 pid), ucast (drop_bit 16 pid), ucast (drop_bit 24 pid)]))"

datatype guid_error = CSPRNGUnavailable

definition newGuidPrefixSafe :: "bytes option \<Rightarrow> uint32 \<Rightarrow> guid_error + GuidPrefix" where
  "newGuidPrefixSafe rnd pid =
     (case newGuidPrefix rnd pid of None \<Rightarrow> Inl CSPRNGUnavailable | Some p \<Rightarrow> Inr p)"

definition entityIdForWriter :: "uint32 \<Rightarrow> EntityId" where
  "entityIdForWriter n = [ucast (drop_bit 16 n), ucast (drop_bit 8 n), ucast n, 0x03]"

definition entityIdForReader :: "uint32 \<Rightarrow> EntityId" where
  "entityIdForReader n = [ucast (drop_bit 16 n), ucast (drop_bit 8 n), ucast n, 0x04]"

subsection \<open>The order on GUIDs\<close>

text \<open>\<^verbatim>\<open>bytes.Compare\<close>: lexicographic, a proper prefix being smaller.\<close>

fun bytesCompare :: "bytes \<Rightarrow> bytes \<Rightarrow> int" where
  "bytesCompare [] [] = 0"
| "bytesCompare [] (_ # _) = - 1"
| "bytesCompare (_ # _) [] = 1"
| "bytesCompare (x # xs) (y # ys) =
     (if x < y then - 1 else if y < x then 1 else bytesCompare xs ys)"

definition guidLess :: "GUID \<Rightarrow> GUID \<Rightarrow> bool" where
  "guidLess a b =
     (if Prefix a \<noteq> Prefix b then bytesCompare (Prefix a) (Prefix b) < 0
      else bytesCompare (Entity a) (Entity b) < 0)"

lemma bytesCompare_less: "bytesCompare xs ys < 0 \<longleftrightarrow> xs < ys"
  by (induction xs ys rule: bytesCompare.induct) auto

lemma bytesCompare_eq_0: "bytesCompare xs ys = 0 \<longleftrightarrow> xs = ys"
  by (induction xs ys rule: bytesCompare.induct) auto

lemma guidLess_lex:
  "guidLess a b \<longleftrightarrow> Prefix a < Prefix b \<or> Prefix a = Prefix b \<and> Entity a < Entity b"
  by (auto simp: guidLess_def bytesCompare_less)

instantiation GUID :: linorder
begin

definition less_GUID :: "GUID \<Rightarrow> GUID \<Rightarrow> bool" where
  "less_GUID a b = guidLess a b"

definition less_eq_GUID :: "GUID \<Rightarrow> GUID \<Rightarrow> bool" where
  "less_eq_GUID a b = (guidLess a b \<or> a = b)"

instance
proof
  fix x y z :: GUID
  show "x < y \<longleftrightarrow> x \<le> y \<and> \<not> y \<le> x"
    by (auto simp: less_GUID_def less_eq_GUID_def guidLess_lex)
  show "x \<le> x"
    by (simp add: less_eq_GUID_def)
  show "x \<le> z" if "x \<le> y" "y \<le> z"
    using that by (auto simp: less_eq_GUID_def guidLess_lex)
  show "x = y" if "x \<le> y" "y \<le> x"
    using that by (auto simp: less_eq_GUID_def guidLess_lex)
  show "x \<le> y \<or> y \<le> x"
    using linorder_less_linear [of "Prefix x" "Prefix y"] linorder_less_linear [of "Entity x" "Entity y"]
    by (auto simp: less_eq_GUID_def guidLess_lex GUID.expand)
qed

end

subsection \<open>Hexadecimal spelling\<close>

definition hexDigit :: "byte \<Rightarrow> char" where
  "hexDigit d = ''0123456789abcdef'' ! unat d"

text \<open>\<^verbatim>\<open>hex.EncodeToString\<close>, high nibble first; the \<^verbatim>\<open>String\<close> methods of prefix, entity id, GUID.\<close>

fun EncodeToString :: "bytes \<Rightarrow> string" where
  "EncodeToString [] = []"
| "EncodeToString (b # bs) = hexDigit (drop_bit 4 b) # hexDigit (b AND 15) # EncodeToString bs"

definition GuidPrefix_String :: "GuidPrefix \<Rightarrow> string" where
  "GuidPrefix_String p = EncodeToString p"

definition EntityId_String :: "EntityId \<Rightarrow> string" where
  "EntityId_String e = EncodeToString e"

definition GUID_String :: "GUID \<Rightarrow> string" where
  "GUID_String g = GuidPrefix_String (Prefix g) @ ''/'' @ EntityId_String (Entity g)"

text \<open>\<^verbatim>\<open>hex.DecodeString\<close>: either case of letter, \<open>None\<close> on a bad digit or an odd length.\<close>

definition fromHexChar :: "char \<Rightarrow> byte option" where
  "fromHexChar c =
     (if CHR ''0'' \<le> c \<and> c \<le> CHR ''9'' then Some (of_char c - 48)
      else if CHR ''a'' \<le> c \<and> c \<le> CHR ''f'' then Some (of_char c - 97 + 10)
      else if CHR ''A'' \<le> c \<and> c \<le> CHR ''F'' then Some (of_char c - 65 + 10)
      else None)"

fun DecodeString :: "string \<Rightarrow> bytes option" where
  "DecodeString [] = Some []"
| "DecodeString [_] = None"
| "DecodeString (a # b # cs) =
     (case (fromHexChar a, fromHexChar b, DecodeString cs) of
        (Some x, Some y, Some bs) \<Rightarrow> Some ((push_bit 4 x OR y) # bs)
      | _ \<Rightarrow> None)"

subsection \<open>Properties of the identifiers\<close>

lemma newGuidPrefix_wf:
  "length r = 8 \<Longrightarrow> newGuidPrefix (Some r) pid = Some p \<Longrightarrow> wf_prefix p"
  by (auto simp: newGuidPrefix_def wf_prefix_def)

lemma entityIdFor_wf [simp]: "wf_eid (entityIdForWriter n)" "wf_eid (entityIdForReader n)"
  by (simp_all add: entityIdForWriter_def entityIdForReader_def wf_eid_def)

lemma wf_known_eids [simp]:
  "wf_eid EntityIdParticipant" "wf_eid EntityIdSPDPWriter" "wf_eid EntityIdSPDPReader"
  "wf_eid EntityIdSEDPPubWriter" "wf_eid EntityIdSEDPPubReader"
  "wf_eid EntityIdSEDPSubWriter" "wf_eid EntityIdSEDPSubReader" "wf_eid EntityIdUnknown"
  by (simp_all add: entity_id_defs wf_eid_def)

lemma fromHexChar_hexDigit_all:
  "list_all (\<lambda>k. fromHexChar (hexDigit (word_of_nat k)) = Some (word_of_nat k)) [0..<16]"
  by code_simp

lemma fromHexChar_hexDigit:
  assumes "unat (d :: byte) < 16"
  shows "fromHexChar (hexDigit d) = Some d"
proof -
  have "d = word_of_nat (unat d)" by simp
  moreover have "unat d \<in> set [0..<16]" using assms by simp
  ultimately show ?thesis
    using fromHexChar_hexDigit_all unfolding list_all_iff by metis
qed

lemma high_nibble_lt: "unat (drop_bit 4 (b :: byte)) < 16"
proof -
  have "unat (drop_bit 4 b) = unat b div 16"
    by (simp add: drop_bit_eq_div unat_div)
  moreover have "unat b < 256"
    using unsigned_less [of b] by simp
  ultimately show ?thesis by simp
qed

lemma low_nibble_lt: "unat (b AND 15 :: byte) < 16"
proof -
  have "b AND 15 \<le> 15" by (rule word_and_le1)
  then show ?thesis by (simp add: word_le_nat_alt)
qed

lemma nibbles_join: "push_bit 4 (drop_bit 4 b) OR (b AND 15) = (b :: byte)"
proof (rule bit_word_eqI)
  fix n assume "n < LENGTH(8)"
  moreover have "bit (15 :: byte) n \<longleftrightarrow> n < 4"
    using bit_mask_iff [of 4 n, where 'a = byte] \<open>n < LENGTH(8)\<close>
    by (simp add: mask_eq_exp_minus_1)
  ultimately show "bit (push_bit 4 (drop_bit 4 b) OR (b AND 15)) n = bit b n"
    by (auto simp: bit_simps)
qed

lemma DecodeString_Encode: "DecodeString (EncodeToString bs) = Some bs"
  by (induction bs) (simp_all add: fromHexChar_hexDigit high_nibble_lt low_nibble_lt nibbles_join)

lemma length_EncodeToString [simp]: "length (EncodeToString bs) = 2 * length bs"
  by (induction bs) auto

text \<open>Only the low 24 bits of the counter reach an entity id.\<close>

lemma entityIdForWriter_inj:
  "entityIdForWriter n = entityIdForWriter m \<longleftrightarrow> take_bit 24 n = take_bit 24 m"
proof
  assume eq: "entityIdForWriter n = entityIdForWriter m"
  show "take_bit 24 n = take_bit 24 m"
  proof (rule bit_word_eqI)
    fix i assume "i < LENGTH(32)"
    have b: "bit (ucast (drop_bit 16 n) :: byte) (i - 16) = bit (ucast (drop_bit 16 m) :: byte) (i - 16)"
      "bit (ucast (drop_bit 8 n) :: byte) (i - 8) = bit (ucast (drop_bit 8 m) :: byte) (i - 8)"
      "bit (ucast n :: byte) i = bit (ucast m :: byte) i"
      using eq by (simp_all add: entityIdForWriter_def)
    show "bit (take_bit 24 n) i = bit (take_bit 24 m) i"
    proof (cases "i < 8")
      case True
      with b(3) show ?thesis by (simp add: bit_simps)
    next
      case False
      show ?thesis
      proof (cases "i < 16")
        case True
        with False b(2) show ?thesis by (auto simp: bit_simps)
      next
        case False
        with b(1) show ?thesis by (cases "i < 24") (auto simp: bit_simps)
      qed
    qed
  qed
next
  assume eq: "take_bit 24 n = take_bit 24 m"
  have "bit n i = bit m i" if "i < 24" for i
  proof -
    have "bit (take_bit 24 n) i = bit (take_bit 24 m) i" by (simp add: eq)
    with that show ?thesis by (simp add: bit_take_bit_iff)
  qed
  then show "entityIdForWriter n = entityIdForWriter m"
    by (auto simp: entityIdForWriter_def bit_eq_iff bit_simps)
qed

lemma writer_reader_ids_differ: "entityIdForWriter n \<noteq> entityIdForReader m"
  by (simp add: entityIdForWriter_def entityIdForReader_def)

end
