(* ===== verification/Rtps_Message.thy ===== *)
theory Rtps_Message
  imports Rtps_Guid
begin

text \<open>
  RTPS message framing (\<^verbatim>\<open>rtps/message.go\<close>, and \<^verbatim>\<open>snToU64\<close>/\<^verbatim>\<open>u64ToSN\<close> of
  \<^verbatim>\<open>rtps/reliable.go\<close>): the message header, the submessage iterator and the DATA,
  HEARTBEAT, ACKNACK, GAP and INFO\_TS submessages with their encoders and decoders.

  An encoder that fills a freshly made buffer at consecutive offsets is the concatenation of
  the fields in offset order. The locales \<open>submsg_frame\<close> and \<open>submsg_codec\<close> are the
  contract between one submessage kind and the iterator; each kind is an interpretation, and
  what the iterator does with an encoded submessage is proved once.
\<close>

subsection \<open>Data\<close>

record Header =
  ProtocolVersion :: bytes
  VendorId :: bytes
  hdrPrefix :: GuidPrefix

record SequenceNumber =
  High :: int32
  Low :: uint32

definition rtpsMagic :: bytes where
  "rtpsMagic = [0x52, 0x54, 0x50, 0x53]"

definition goVendorId :: bytes where
  "goVendorId = [0x01, 0x27]"

definition submsgDATA :: byte where "submsgDATA = 0x15"
definition submsgGAP :: byte where "submsgGAP = 0x08"
definition submsgHEARTBEAT :: byte where "submsgHEARTBEAT = 0x07"
definition submsgACKNACK :: byte where "submsgACKNACK = 0x06"
definition submsgINFO_TS :: byte where "submsgINFO_TS = 0x09"
definition flagEndianness :: byte where "flagEndianness = 0x01"
definition flagInlineQos :: byte where "flagInlineQos = 0x02"
definition flagData :: byte where "flagData = 0x04"
definition hbFlagLiveliness :: byte where "hbFlagLiveliness = 0x04"

lemmas msg_const_defs =
  submsgDATA_def submsgGAP_def submsgHEARTBEAT_def submsgACKNACK_def submsgINFO_TS_def
  flagEndianness_def flagInlineQos_def flagData_def hbFlagLiveliness_def

definition snToU64 :: "SequenceNumber \<Rightarrow> uint64" where
  "snToU64 sn = push_bit 32 (ucast (High sn)) OR ucast (Low sn)"

definition u64ToSN :: "uint64 \<Rightarrow> SequenceNumber" where
  "u64ToSN v = \<lparr>High = ucast (drop_bit 32 v), Low = ucast v\<rparr>"

subsection \<open>Header\<close>

definition marshalHeader :: "Header \<Rightarrow> bytes" where
  "marshalHeader h = rtpsMagic @ ProtocolVersion h @ VendorId h @ hdrPrefix h"

definition parseHeader :: "bytes \<Rightarrow> Header option" where
  "parseHeader b =
     (if length b < 20 then None
      else if b ! 0 \<noteq> 0x52 \<or> b ! 1 \<noteq> 0x54 \<or> b ! 2 \<noteq> 0x50 \<or> b ! 3 \<noteq> 0x53 then None
      else Some \<lparr>ProtocolVersion = slice 4 6 b, VendorId = slice 6 8 b, hdrPrefix = slice 8 20 b\<rparr>)"

definition wrapInRTPSMessage :: "GuidPrefix \<Rightarrow> bytes \<Rightarrow> bytes" where
  "wrapInRTPSMessage prefix submessages =
     marshalHeader \<lparr>ProtocolVersion = [2, 3], VendorId = goVendorId, hdrPrefix = prefix\<rparr> @ submessages"

definition wf_header :: "Header \<Rightarrow> bool" where
  "wf_header h \<longleftrightarrow> length (ProtocolVersion h) = 2 \<and> length (VendorId h) = 2 \<and> wf_prefix (hdrPrefix h)"

subsection \<open>Submessage iterator\<close>

datatype 'e submsg_error = LengthExceeds nat nat | CallbackError 'e

text \<open>
  The callback closes over mutable variables of its caller: it takes the state \<open>'s\<close> they
  make up and returns it with the error of the Go function, \<open>None\<close> for \<^verbatim>\<open>nil\<close>.
\<close>

function parseSubmessages ::
    "(byte \<Rightarrow> byte \<Rightarrow> bytes \<Rightarrow> 's \<Rightarrow> 's \<times> 'e option) \<Rightarrow> bytes \<Rightarrow> 's \<Rightarrow> 's \<times> 'e submsg_error option" where
  "parseSubmessages fn body s =
     (if length body < 4 then (s, None)
      else
        let id = body ! 0; flags = body ! 1;
            little = (flags AND flagEndianness \<noteq> 0);
            len = unat (if little then Uint16 (drop 2 body) else Uint16BE (drop 2 body));
            rest = drop 4 body
        in if length rest < len then (s, Some (LengthExceeds len (length rest)))
           else if \<not> little then parseSubmessages fn (drop len rest) s
           else (case fn id flags (take len rest) s of
                   (s', Some e) \<Rightarrow> (s', Some (CallbackError e))
                 | (s', None) \<Rightarrow> parseSubmessages fn (drop len rest) s'))"
  by pat_completeness auto
termination
  by (relation "measure (\<lambda>(fn, body, s). length body)") auto

declare parseSubmessages.simps [simp del]

subsection \<open>DATA\<close>

record DataSubmessage =
  dsReader :: EntityId
  dsWriter :: EntityId
  dsSeqNum :: SequenceNumber
  dsPayload :: "bytes option"

definition dataBody :: "EntityId \<Rightarrow> EntityId \<Rightarrow> SequenceNumber \<Rightarrow> bytes \<Rightarrow> bytes" where
  "dataBody writerEID readerEID seqNum payload =
     PutUint16 0 @ PutUint16 16 @ readerEID @ writerEID
     @ PutUint32 (High seqNum) @ PutUint32 (Low seqNum) @ payload"

definition marshalDataSubmessage :: "EntityId \<Rightarrow> EntityId \<Rightarrow> SequenceNumber \<Rightarrow> bytes \<Rightarrow> bytes" where
  "marshalDataSubmessage writerEID readerEID seqNum payload =
     (let body = dataBody writerEID readerEID seqNum payload;
          flags = flagEndianness OR flagData
      in [submsgDATA, flags] @ PutUint16 (word_of_nat (length body)) @ body)"

definition parseDataSubmessage :: "byte \<Rightarrow> bytes \<Rightarrow> DataSubmessage option" where
  "parseDataSubmessage flags body =
     (if length body < 20 then None
      else Some \<lparr>dsReader = slice 4 8 body, dsWriter = slice 8 12 body,
                 dsSeqNum = \<lparr>High = Uint32 (drop 12 body), Low = Uint32 (drop 16 body)\<rparr>,
                 dsPayload = (if flags AND flagData \<noteq> 0 \<and> length body > 20
                              then Some (drop 20 body) else None)\<rparr>)"

definition wf_data :: "DataSubmessage \<Rightarrow> bool" where
  "wf_data ds \<longleftrightarrow> wf_eid (dsReader ds) \<and> wf_eid (dsWriter ds)
     \<and> dsPayload ds \<noteq> Some [] \<and> (case dsPayload ds of None \<Rightarrow> True | Some p \<Rightarrow> 20 + length p < 65536)"

subsection \<open>HEARTBEAT\<close>

record Heartbeat =
  hbReader :: EntityId
  hbWriter :: EntityId
  FirstSN :: SequenceNumber
  LastSN :: SequenceNumber
  hbCountField :: int32
  Liveliness :: bool

definition heartbeatBody :: "Heartbeat \<Rightarrow> bytes" where
  "heartbeatBody hb =
     hbReader hb @ hbWriter hb
     @ PutUint32 (High (FirstSN hb)) @ PutUint32 (Low (FirstSN hb))
     @ PutUint32 (High (LastSN hb)) @ PutUint32 (Low (LastSN hb))
     @ PutUint32 (hbCountField hb)"

definition marshalHeartbeat :: "Heartbeat \<Rightarrow> bytes" where
  "marshalHeartbeat hb =
     [submsgHEARTBEAT, (if Liveliness hb then flagEndianness OR hbFlagLiveliness else flagEndianness)]
     @ PutUint16 (word_of_nat (length (heartbeatBody hb))) @ heartbeatBody hb"

definition parseHeartbeat :: "bytes \<Rightarrow> Heartbeat option" where
  "parseHeartbeat body =
     (if length body < 28 then None
      else Some \<lparr>hbReader = slice 0 4 body, hbWriter = slice 4 8 body,
                 FirstSN = \<lparr>High = Uint32 (drop 8 body), Low = Uint32 (drop 12 body)\<rparr>,
                 LastSN = \<lparr>High = Uint32 (drop 16 body), Low = Uint32 (drop 20 body)\<rparr>,
                 hbCountField = Uint32 (drop 24 body), Liveliness = False\<rparr>)"

definition wf_heartbeat :: "Heartbeat \<Rightarrow> bool" where
  "wf_heartbeat hb \<longleftrightarrow> wf_eid (hbReader hb) \<and> wf_eid (hbWriter hb)"

subsection \<open>ACKNACK\<close>

record AckNack =
  anReader :: EntityId
  anWriter :: EntityId
  Base :: SequenceNumber
  Bitmap :: uint32
  anCount :: int32

text \<open>\<^verbatim>\<open>bits.Len32\<close>: the number of bits needed to represent \<open>x\<close>; \<^verbatim>\<open>bits.Reverse32\<close>.\<close>

definition Len32 :: "uint32 \<Rightarrow> nat" where
  "Len32 x = length (dropWhile Not (map (bit x) (rev [0..<32])))"

definition Reverse32 :: "uint32 \<Rightarrow> uint32" where
  "Reverse32 x = word_reverse x"

definition ackNackBody :: "AckNack \<Rightarrow> bytes" where
  "ackNackBody an =
     (let numBits = Len32 (Bitmap an); numWords = (numBits + 31) div 32 in
      anReader an @ anWriter an
      @ PutUint32 (High (Base an)) @ PutUint32 (Low (Base an))
      @ PutUint32 (word_of_nat numBits)
      @ (if numWords > 0 then PutUint32 (Reverse32 (Bitmap an)) else [])
      @ PutUint32 (anCount an))"

definition marshalAckNack :: "AckNack \<Rightarrow> bytes" where
  "marshalAckNack an =
     [submsgACKNACK, flagEndianness] @ PutUint16 (word_of_nat (length (ackNackBody an))) @ ackNackBody an"

definition parseAckNack :: "bytes \<Rightarrow> AckNack option" where
  "parseAckNack body =
     (if length body < 20 then None
      else
        let numBits = unat (Uint32 (drop 16 body)) in
        if numBits > 256 then None
        else
          let numWords = (numBits + 31) div 32 in
          if length body < 20 + numWords * 4 + 4 then None
          else Some \<lparr>anReader = slice 0 4 body, anWriter = slice 4 8 body,
                     Base = \<lparr>High = Uint32 (drop 8 body), Low = Uint32 (drop 12 body)\<rparr>,
                     Bitmap = (if numWords > 0 then Reverse32 (Uint32 (drop 20 body)) else 0),
                     anCount = Uint32 (drop (20 + numWords * 4) body)\<rparr>)"

definition wf_acknack :: "AckNack \<Rightarrow> bool" where
  "wf_acknack an \<longleftrightarrow> wf_eid (anReader an) \<and> wf_eid (anWriter an)"

subsection \<open>GAP\<close>

record Gap =
  gapReader :: EntityId
  gapWriter :: EntityId
  GapStart :: SequenceNumber
  GapEnd :: SequenceNumber

definition gapBody :: "Gap \<Rightarrow> bytes" where
  "gapBody g =
     (let base = u64ToSN (snToU64 (GapEnd g) + 1) in
      gapReader g @ gapWriter g
      @ PutUint32 (High (GapStart g)) @ PutUint32 (Low (GapStart g))
      @ PutUint32 (High base) @ PutUint32 (Low base)
      @ PutUint32 0)"

definition marshalGAP :: "Gap \<Rightarrow> bytes" where
  "marshalGAP g =
     [submsgGAP, flagEndianness] @ PutUint16 (word_of_nat (length (gapBody g))) @ gapBody g"

definition wf_gap :: "Gap \<Rightarrow> bool" where
  "wf_gap g \<longleftrightarrow> wf_eid (gapReader g) \<and> wf_eid (gapWriter g)"

subsection \<open>INFO\_TS\<close>

definition ntpDelta :: int where
  "ntpDelta = 2208988800"

definition ntpEra :: int where
  "ntpEra = 2 ^ 32"

definition infoTSBody :: "gotime \<Rightarrow> bytes" where
  "infoTSBody t =
     (let secs = word_of_int (t div 10 ^ 9 + ntpDelta) :: uint32;
          frac = word_of_nat (nat (t mod 10 ^ 9) * 2 ^ 32 div 10 ^ 9) :: uint32
      in PutUint32 secs @ PutUint32 frac)"

definition marshalInfoTS :: "gotime \<Rightarrow> bytes" where
  "marshalInfoTS t = [submsgINFO_TS, flagEndianness] @ PutUint16 8 @ infoTSBody t"

text \<open>\<^verbatim>\<open>eraCount\<close>: \<open>diff / era\<close> rounded to the nearest integer, with Go's truncating division.\<close>

definition eraCountOf :: "int \<Rightarrow> int" where
  "eraCountOf diff =
     (if 0 \<le> diff then (diff + ntpEra div 2) div ntpEra
      else - ((- diff + ntpEra div 2) div ntpEra))"

definition ntpEraDisambiguate :: "uint32 \<Rightarrow> int \<Rightarrow> gotime \<Rightarrow> gotime" where
  "ntpEraDisambiguate secs ns ref =
     (let refNTPSec = ref div 10 ^ 9 + ntpDelta;
          diff = refNTPSec - uint secs;
          eraCount = eraCountOf diff;
          ntpSec = uint secs + eraCount * ntpEra;
          unixSec = ntpSec - ntpDelta
      in unixSec * 10 ^ 9 + ns)"

text \<open>\<open>now\<close> is the value of the \<^verbatim>\<open>time.Now()\<close> call in the decoder.\<close>

definition parseInfoTS :: "gotime \<Rightarrow> bytes \<Rightarrow> gotime option" where
  "parseInfoTS now body =
     (if length body < 8 then None
      else
        let secs = Uint32 body; frac = Uint32 (drop 4 body);
            ns = int (unat frac * 10 ^ 9 div 2 ^ 32)
        in Some (ntpEraDisambiguate secs ns now))"

subsection \<open>CDR encapsulation of user payloads\<close>

definition cdrLE :: uint16 where "cdrLE = 0x0001"
definition plCDRLE :: uint16 where "plCDRLE = 0x0003"

definition cdrWrapPayload :: "bytes \<Rightarrow> bytes" where
  "cdrWrapPayload payload = PutUint16BE cdrLE @ [0, 0] @ payload"

definition cdrUnwrapPayload :: "bytes \<Rightarrow> bytes option" where
  "cdrUnwrapPayload b =
     (if length b < 4 then None
      else
        let scheme = Uint16BE b in
        if scheme \<noteq> cdrLE \<and> scheme \<noteq> plCDRLE then None else Some (drop 4 b))"

subsection \<open>Sequence numbers\<close>

lemma u64ToSN_snToU64 [simp]: "u64ToSN (snToU64 sn) = sn"
proof -
  have "ucast (drop_bit 32 (push_bit 32 (ucast (High sn)) OR ucast (Low sn) :: uint64)) = High sn"
    by (rule bit_word_eqI) (auto simp: bit_simps dest: bit_imp_le_length)
  moreover have "ucast (push_bit 32 (ucast (High sn)) OR ucast (Low sn) :: uint64) = Low sn"
    by (rule bit_word_eqI) (auto simp: bit_simps)
  ultimately show ?thesis
    by (simp add: u64ToSN_def snToU64_def)
qed

lemma snToU64_u64ToSN [simp]: "snToU64 (u64ToSN v) = v"
  by (rule bit_word_eqI) (auto simp: u64ToSN_def snToU64_def bit_simps)

lemma u64ToSN_inj: "u64ToSN v = u64ToSN w \<longleftrightarrow> v = w"
  by (metis snToU64_u64ToSN)

subsection \<open>Header and encapsulation\<close>

lemma length_wrapInRTPSMessage [simp]:
  "wf_prefix p \<Longrightarrow> length (wrapInRTPSMessage p ms) = 20 + length ms"
  by (simp add: wrapInRTPSMessage_def marshalHeader_def rtpsMagic_def goVendorId_def wf_prefix_def)

lemma parseHeader_marshal:
  "wf_header h \<Longrightarrow> parseHeader (marshalHeader h @ r) = Some h"
  by (simp add: parseHeader_def marshalHeader_def rtpsMagic_def wf_header_def wf_prefix_def slice_def)

lemma parseHeader_wrap:
  "wf_prefix p \<Longrightarrow> parseHeader (wrapInRTPSMessage p ms)
     = Some \<lparr>ProtocolVersion = [2, 3], VendorId = goVendorId, hdrPrefix = p\<rparr>"
  unfolding wrapInRTPSMessage_def
  by (rule parseHeader_marshal) (simp add: wf_header_def goVendorId_def)

lemma drop20_wrap [simp]: "wf_prefix p \<Longrightarrow> drop 20 (wrapInRTPSMessage p ms) = ms"
  by (simp add: wrapInRTPSMessage_def marshalHeader_def rtpsMagic_def goVendorId_def wf_prefix_def)

lemma parseHeader_wf: "parseHeader b = Some h \<Longrightarrow> wf_header h"
  by (auto simp: parseHeader_def wf_header_def wf_prefix_def split: if_splits)

lemma cdrUnwrap_wrap [simp]: "cdrUnwrapPayload (cdrWrapPayload p) = Some p"
  by (simp add: cdrUnwrapPayload_def cdrWrapPayload_def)

lemma cdrWrapPayload_neq_Nil [simp]: "cdrWrapPayload p \<noteq> []"
  by (simp add: cdrWrapPayload_def)

lemma length_cdrWrapPayload [simp]: "length (cdrWrapPayload p) = length p + 4"
  by (simp add: cdrWrapPayload_def)

subsection \<open>The contract between a submessage kind and the iterator\<close>

locale submsg_frame =
  fixes marshal :: "'a \<Rightarrow> bytes" and body :: "'a \<Rightarrow> bytes" and sid :: byte
    and flagsOf :: "'a \<Rightarrow> byte" and wf :: "'a \<Rightarrow> bool"
  assumes framed: "marshal x = [sid, flagsOf x] @ PutUint16 (word_of_nat (length (body x))) @ body x"
    and little: "flagsOf x AND flagEndianness \<noteq> 0"
    and body_len: "wf x \<Longrightarrow> length (body x) < 65536"
begin

lemma iterate:
  assumes "wf x"
  shows "parseSubmessages fn (marshal x @ rest) s =
     (case fn sid (flagsOf x) (body x) s of
        (s', Some e) \<Rightarrow> (s', Some (CallbackError e))
      | (s', None) \<Rightarrow> parseSubmessages fn rest s')"
proof -
  have len: "unat (word_of_nat (length (body x)) :: uint16) = length (body x)"
    using body_len [OF assms] by (simp add: unat_of_nat)
  show ?thesis
    using little [of x]
    by (subst parseSubmessages.simps) (simp add: framed len Let_def)
qed

lemma iterate_last:
  assumes "wf x" and "fn sid (flagsOf x) (body x) s = (s', None)"
  shows "parseSubmessages fn (marshal x) s = (s', None)"
proof -
  have "parseSubmessages fn [] s' = (s', None)"
    by (subst parseSubmessages.simps) simp
  then show ?thesis
    using iterate [OF assms(1), of fn "[]" s] assms(2) by simp
qed

end

locale submsg_codec = submsg_frame +
  fixes parse :: "byte \<Rightarrow> bytes \<Rightarrow> 'a option"
  assumes parse_body: "wf x \<Longrightarrow> parse (flagsOf x) (body x) = Some x"
begin

text \<open>
  A sequence of encoded submessages of one kind, seen by a callback that decodes each and
  appends it to a log, is logged exactly and in order.
\<close>

lemma decode_sequence:
  assumes "\<forall>x \<in> set xs. wf x"
  shows "parseSubmessages
      (\<lambda>i fl b acc. (case parse fl b of None \<Rightarrow> (acc, None :: unit option) | Some y \<Rightarrow> (acc @ [y], None)))
      (concat (map marshal xs)) acc = (acc @ xs, None)"
  using assms
proof (induction xs arbitrary: acc)
  case Nil
  show ?case by (subst parseSubmessages.simps) simp
next
  case (Cons x xs)
  from Cons.prems have wf: "wf x" by simp
  show ?case
    using Cons by (simp add: iterate [OF wf] parse_body [OF wf])
qed

end

subsection \<open>The submessage kinds meet the contract\<close>

definition marshalData :: "DataSubmessage \<Rightarrow> bytes" where
  "marshalData ds = marshalDataSubmessage (dsWriter ds) (dsReader ds) (dsSeqNum ds)
     (case dsPayload ds of None \<Rightarrow> [] | Some p \<Rightarrow> p)"

definition dataBodyOf :: "DataSubmessage \<Rightarrow> bytes" where
  "dataBodyOf ds = dataBody (dsWriter ds) (dsReader ds) (dsSeqNum ds)
     (case dsPayload ds of None \<Rightarrow> [] | Some p \<Rightarrow> p)"

text \<open>The receive path sets \<^verbatim>\<open>Liveliness\<close> from the flags octet (\<^verbatim>\<open>participant.handleDataPacket\<close>).\<close>

definition recvHeartbeat :: "byte \<Rightarrow> bytes \<Rightarrow> Heartbeat option" where
  "recvHeartbeat flags b =
     map_option (\<lambda>hb. hb\<lparr>Liveliness := (flags AND hbFlagLiveliness \<noteq> 0)\<rparr>) (parseHeartbeat b)"

lemma parseData_body:
  assumes "wf_eid r" "wf_eid w"
  shows "parseDataSubmessage fl (dataBody w r sn p) =
     Some \<lparr>dsReader = r, dsWriter = w, dsSeqNum = sn,
           dsPayload = (if fl AND flagData \<noteq> 0 \<and> p \<noteq> [] then Some p else None)\<rparr>"
  using assms by (simp add: parseDataSubmessage_def dataBody_def wf_eid_def)

lemma length_dataBody: "wf_eid r \<Longrightarrow> wf_eid w \<Longrightarrow> length (dataBody w r sn p) = 20 + length p"
  by (simp add: dataBody_def wf_eid_def)

interpretation dataf: submsg_codec marshalData dataBodyOf submsgDATA
  "\<lambda>_. flagEndianness OR flagData" wf_data parseDataSubmessage
proof (unfold_locales, goal_cases)
  case (1 x)
  show ?case by (simp add: marshalData_def marshalDataSubmessage_def dataBodyOf_def Let_def)
next
  case (2 x)
  show ?case by (simp add: msg_const_defs)
next
  case (3 x)
  then show ?case
    by (auto simp: wf_data_def dataBodyOf_def length_dataBody split: option.splits)
next
  case (4 x)
  then have wf: "wf_eid (dsReader x)" "wf_eid (dsWriter x)" by (simp_all add: wf_data_def)
  from 4 show ?case
    by (cases "dsPayload x") (auto simp: dataBodyOf_def parseData_body [OF wf] wf_data_def msg_const_defs)
qed

interpretation heartbeatf: submsg_codec marshalHeartbeat heartbeatBody submsgHEARTBEAT
  "\<lambda>hb. if Liveliness hb then flagEndianness OR hbFlagLiveliness else flagEndianness"
  wf_heartbeat recvHeartbeat
proof (unfold_locales, goal_cases)
  case (1 x)
  show ?case by (simp add: marshalHeartbeat_def)
next
  case (2 x)
  show ?case by (simp add: msg_const_defs)
next
  case (3 x)
  then show ?case by (simp add: wf_heartbeat_def heartbeatBody_def wf_eid_def)
next
  case (4 x)
  then show ?case
    by (cases "Liveliness x")
      (simp_all add: recvHeartbeat_def parseHeartbeat_def heartbeatBody_def wf_heartbeat_def wf_eid_def
        msg_const_defs)
qed

lemma Len32_le: "Len32 x \<le> 32"
  unfolding Len32_def by (rule order_trans [OF length_dropWhile_le]) simp

lemma Len32_0: "Len32 x = 0 \<longleftrightarrow> x = 0"
proof
  assume "Len32 x = 0"
  then have "\<forall>n < 32. \<not> bit x n"
    by (auto simp: Len32_def)
  then show "x = 0"
    by (intro bit_word_eqI) simp
next
  assume "x = 0"
  then show "Len32 x = 0"
    by (auto simp: Len32_def)
qed

lemma Len32_words: "(Len32 x + 31) div 32 = (if x = 0 then 0 else 1)"
proof (cases "x = 0")
  case True
  then have "Len32 x = 0" by (simp add: Len32_0)
  with True show ?thesis by simp
next
  case False
  then have "0 < Len32 x" using Len32_0 [of x] by auto
  with Len32_le [of x] have "32 \<le> Len32 x + 31" "Len32 x + 31 < 64" by auto
  then show ?thesis using False by auto
qed

lemma Reverse32_idem [simp]: "Reverse32 (Reverse32 x) = x"
  by (rule bit_word_eqI) (auto simp: Reverse32_def bit_word_reverse_iff)

lemma unat_Len32 [simp]: "unat (word_of_nat (Len32 x) :: uint32) = Len32 x"
  using Len32_le [of x] by (simp add: unat_of_nat)

interpretation acknackf: submsg_codec marshalAckNack ackNackBody submsgACKNACK
  "\<lambda>_. flagEndianness" wf_acknack "\<lambda>_. parseAckNack"
proof (unfold_locales, goal_cases)
  case (1 x)
  show ?case by (simp add: marshalAckNack_def)
next
  case (2 x)
  show ?case by (simp add: msg_const_defs)
next
  case (3 x)
  then show ?case by (simp add: wf_acknack_def ackNackBody_def wf_eid_def Let_def)
next
  case (4 x)
  then show ?case
    using Len32_le [of "Bitmap x"] Len32_words [of "Bitmap x"]
    by (simp add: parseAckNack_def ackNackBody_def wf_acknack_def wf_eid_def Let_def)
qed

interpretation gapf: submsg_frame marshalGAP gapBody submsgGAP "\<lambda>_. flagEndianness" wf_gap
proof (unfold_locales, goal_cases)
  case (1 x)
  show ?case by (simp add: marshalGAP_def)
next
  case (2 x)
  show ?case by (simp add: msg_const_defs)
next
  case (3 x)
  then show ?case by (simp add: wf_gap_def gapBody_def wf_eid_def Let_def)
qed

interpretation infotsf: submsg_frame marshalInfoTS infoTSBody submsgINFO_TS "\<lambda>_. flagEndianness" "\<lambda>_. True"
proof (unfold_locales, goal_cases)
  case (1 x)
  have "PutUint16 (word_of_nat (length (infoTSBody x))) = PutUint16 8"
    by (simp add: infoTSBody_def Let_def)
  then show ?case by (simp add: marshalInfoTS_def)
next
  case (2 x)
  show ?case by (simp add: msg_const_defs)
next
  case (3 x)
  show ?case by (simp add: infoTSBody_def Let_def)
qed

subsection \<open>Timestamps\<close>

lemma ntp_fraction_bounds:
  assumes "n < 10 ^ 9"
  shows "unat (word_of_nat (n * 2 ^ 32 div 10 ^ 9) :: uint32) * 10 ^ 9 div 2 ^ 32 \<le> n"
    and "n \<le> Suc (unat (word_of_nat (n * 2 ^ 32 div 10 ^ 9) :: uint32) * 10 ^ 9 div 2 ^ 32)"
proof -
  define f where "f = n * 2 ^ 32 div 10 ^ 9"
  have "f < 2 ^ 32" using assms by (simp add: f_def less_mult_imp_div_less)
  then have u: "unat (word_of_nat f :: uint32) = f" by (simp add: unat_of_nat)
  have le: "f * 10 ^ 9 \<le> n * 2 ^ 32" by (simp add: f_def)
  have gt: "n * 2 ^ 32 < f * 10 ^ 9 + 10 ^ 9"
    unfolding f_def by (simp add: dividend_less_div_times add.commute)
  show "unat (word_of_nat (n * 2 ^ 32 div 10 ^ 9) :: uint32) * 10 ^ 9 div 2 ^ 32 \<le> n"
    using div_le_mono [OF le, of "2 ^ 32"] u by (simp add: f_def)
  have "n * 2 ^ 32 \<le> f * 10 ^ 9 + 2 ^ 32" using gt by simp
  from div_le_mono [OF this, of "2 ^ 32"]
  show "n \<le> Suc (unat (word_of_nat (n * 2 ^ 32 div 10 ^ 9) :: uint32) * 10 ^ 9 div 2 ^ 32)"
    using u by (simp add: f_def)
qed

lemma ntp_era_count:
  fixes R S :: int
  assumes "\<bar>R - S\<bar> < 2 ^ 31"
  shows "eraCountOf (R - S mod ntpEra) = S div ntpEra"
proof -
  define q where "q = S div ntpEra"
  define d where "d = R - S"
  have "S mod ntpEra = S - ntpEra * q"
    by (simp add: q_def minus_mult_div_eq_mod)
  then have diff: "R - S mod ntpEra = d + q * 4294967296"
    by (simp add: d_def ntpEra_def algebra_simps)
  have d: "\<bar>d\<bar> < 2147483648" using assms by (simp add: d_def)
  have pos: "(d + q * 4294967296 + 2147483648) div 4294967296 = q"
  proof -
    have "(d + q * 4294967296 + 2147483648) div 4294967296 = (d + 2147483648 + q * 4294967296) div 4294967296"
      by (simp add: algebra_simps)
    also have "\<dots> = q" using d by simp
    finally show ?thesis .
  qed
  have neg: "(- (d + q * 4294967296) + 2147483648) div 4294967296 = - q"
  proof -
    have "(- (d + q * 4294967296) + 2147483648) div 4294967296 = (2147483648 - d + (- q) * 4294967296) div 4294967296"
      by (simp add: algebra_simps)
    also have "\<dots> = - q" using d by (subst div_mult_self1) simp_all
    finally show ?thesis .
  qed
  have "eraCountOf (d + q * 4294967296) = q"
    unfolding eraCountOf_def ntpEra_def using pos neg by simp
  then show ?thesis unfolding diff q_def .
qed

lemma infoTS_exact_second:
  assumes "\<bar>now div 10 ^ 9 - t div 10 ^ 9\<bar> < 2 ^ 31"
  shows "ntpEraDisambiguate (word_of_int (t div 10 ^ 9 + ntpDelta)) ns now = (t div 10 ^ 9) * 10 ^ 9 + ns"
proof -
  define S where "S = t div 10 ^ 9 + ntpDelta"
  define R where "R = now div 10 ^ 9 + ntpDelta"
  have "\<bar>R - S\<bar> < 2 ^ 31" using assms by (simp add: R_def S_def)
  note era = ntp_era_count [OF this]
  have u: "uint (word_of_int S :: uint32) = S mod ntpEra"
    by (simp add: ntpEra_def uint_word_of_int)
  have "ntpEraDisambiguate (word_of_int S) ns now = (S mod ntpEra + S div ntpEra * ntpEra - ntpDelta) * 10 ^ 9 + ns"
    unfolding ntpEraDisambiguate_def Let_def u R_def [symmetric] era by simp
  then show ?thesis by (simp add: S_def)
qed

lemma infoTS_roundtrip_aux:
  assumes "\<bar>now div 10 ^ 9 - t div 10 ^ 9\<bar> < 2 ^ 31"
  shows "\<exists>t'. parseInfoTS now (infoTSBody t) = Some t' \<and> t - 1 \<le> t' \<and> t' \<le> t"
proof -
  define n where "n = nat (t mod 10 ^ 9)"
  have n: "n < 10 ^ 9" and t: "t = (t div 10 ^ 9) * 10 ^ 9 + int n"
    by (simp_all add: n_def nat_less_iff)
  define f where "f = (word_of_nat (n * 2 ^ 32 div 10 ^ 9) :: uint32)"
  have "parseInfoTS now (infoTSBody t) = Some ((t div 10 ^ 9) * 10 ^ 9 + int (unat f * 10 ^ 9 div 2 ^ 32))"
    using infoTS_exact_second [OF assms]
    by (simp add: parseInfoTS_def infoTSBody_def Let_def f_def n_def)
  moreover have "int (unat f * 10 ^ 9 div 2 ^ 32) \<le> int n" "int n - 1 \<le> int (unat f * 10 ^ 9 div 2 ^ 32)"
    using ntp_fraction_bounds [OF n] unfolding f_def by linarith+
  ultimately show ?thesis using t by auto
qed

subsection \<open>Whole messages\<close>

text \<open>The submessages a receiver decodes, and the \<^verbatim>\<open>switch\<close> on the submessage id that decodes them.\<close>

datatype submsg = DataMsg DataSubmessage | HeartbeatMsg Heartbeat | AckNackMsg AckNack

fun marshalSub :: "submsg \<Rightarrow> bytes" where
  "marshalSub (DataMsg d) = marshalData d"
| "marshalSub (HeartbeatMsg h) = marshalHeartbeat h"
| "marshalSub (AckNackMsg a) = marshalAckNack a"

fun wf_sub :: "submsg \<Rightarrow> bool" where
  "wf_sub (DataMsg d) = wf_data d"
| "wf_sub (HeartbeatMsg h) = wf_heartbeat h"
| "wf_sub (AckNackMsg a) = wf_acknack a"

definition decodeSub :: "byte \<Rightarrow> byte \<Rightarrow> bytes \<Rightarrow> submsg option" where
  "decodeSub sid flags b =
     (if sid = submsgDATA then map_option DataMsg (parseDataSubmessage (flagEndianness OR flagData) b)
      else if sid = submsgHEARTBEAT then map_option HeartbeatMsg (recvHeartbeat flags b)
      else if sid = submsgACKNACK then map_option AckNackMsg (parseAckNack b)
      else None)"

definition logSub :: "byte \<Rightarrow> byte \<Rightarrow> bytes \<Rightarrow> submsg list \<Rightarrow> submsg list \<times> unit option" where
  "logSub sid flags b acc = (case decodeSub sid flags b of None \<Rightarrow> (acc, None) | Some m \<Rightarrow> (acc @ [m], None))"

lemma parseSubmessages_marshalSub:
  assumes "wf_sub m"
  shows "parseSubmessages logSub (marshalSub m @ rest) acc = parseSubmessages logSub rest (acc @ [m])"
proof (cases m)
  case (DataMsg d)
  then show ?thesis
    using assms dataf.iterate [of d logSub rest acc] dataf.parse_body [of d]
    by (simp add: logSub_def decodeSub_def)
next
  case (HeartbeatMsg h)
  then show ?thesis
    using assms heartbeatf.iterate [of h logSub rest acc] heartbeatf.parse_body [of h]
    by (simp add: logSub_def decodeSub_def submsgDATA_def submsgHEARTBEAT_def)
next
  case (AckNackMsg a)
  then show ?thesis
    using assms acknackf.iterate [of a logSub rest acc] acknackf.parse_body [of a]
    by (simp add: logSub_def decodeSub_def submsgDATA_def submsgHEARTBEAT_def submsgACKNACK_def)
qed

lemma parseSubmessages_Nil [simp]: "parseSubmessages fn [] s = (s, None)"
  by (subst parseSubmessages.simps) simp

lemma parseSubmessages_marshalSubs:
  "list_all wf_sub ms \<Longrightarrow>
     parseSubmessages logSub (concat (map marshalSub ms)) acc = (acc @ ms, None)"
  by (induction ms arbitrary: acc) (simp_all add: parseSubmessages_marshalSub)

text \<open>
  C10: every message a participant assembles from well-formed DATA, HEARTBEAT and ACKNACK
  submessages, in any order and number, is read back by a receiver: the header parses to the
  sender's prefix, and iterating the body decodes exactly the submessages sent, in order,
  with no framing error. The ACKNACK bitmap survives its variable-length, bit-reversed wire
  form, and a HEARTBEAT's liveliness mark survives in the flags octet.
\<close>

theorem message_roundtrip:
  assumes "wf_prefix p" and "list_all wf_sub ms"
  shows "parseHeader (wrapInRTPSMessage p (concat (map marshalSub ms)))
      = Some \<lparr>ProtocolVersion = [2, 3], VendorId = goVendorId, hdrPrefix = p\<rparr>
    \<and> parseSubmessages logSub (drop 20 (wrapInRTPSMessage p (concat (map marshalSub ms)))) []
      = (ms, None)"
  using assms by (simp add: parseHeader_wrap parseSubmessages_marshalSubs)

theorem message_roundtrip_witness:
  "wf_prefix zeroPrefix \<and>
   parseSubmessages logSub (drop 20 (wrapInRTPSMessage zeroPrefix (concat (map marshalSub
      [AckNackMsg \<lparr>anReader = EntityIdUnknown, anWriter = EntityIdUnknown,
         Base = \<lparr>High = 0, Low = 7\<rparr>, Bitmap = 5, anCount = 1\<rparr>])))) []
    = ([AckNackMsg \<lparr>anReader = EntityIdUnknown, anWriter = EntityIdUnknown,
         Base = \<lparr>High = 0, Low = 7\<rparr>, Bitmap = 5, anCount = 1\<rparr>], None)"
proof -
  have wf: "wf_prefix zeroPrefix" by (simp add: wf_prefix_def zeroPrefix_def)
  moreover have "list_all wf_sub [AckNackMsg \<lparr>anReader = EntityIdUnknown, anWriter = EntityIdUnknown,
         Base = \<lparr>High = 0, Low = 7\<rparr>, Bitmap = 5, anCount = 1\<rparr>]"
    by (simp add: wf_acknack_def)
  ultimately show ?thesis using message_roundtrip by blast
qed

definition logRaw :: "byte \<Rightarrow> byte \<Rightarrow> bytes \<Rightarrow> (byte \<times> byte \<times> bytes) list
    \<Rightarrow> (byte \<times> byte \<times> bytes) list \<times> unit option" where
  "logRaw sid flags b acc = (acc @ [(sid, flags, b)], None)"

lemma parseSubmessages_logRaw:
  assumes "parseSubmessages logRaw b acc = (l, r)"
  shows "\<exists>new. l = acc @ new
     \<and> (\<forall>(i, f, d) \<in> set new. f AND flagEndianness \<noteq> 0 \<and> length d \<le> 65535)
     \<and> sum_list (map (\<lambda>(i, f, d). 4 + length d) new) \<le> length b"
  using assms
proof (induction "logRaw" b acc arbitrary: l r rule: parseSubmessages.induct)
  case (1 body s)
  define fl where "fl = body ! 1"
  define little where "little = (fl AND flagEndianness \<noteq> 0)"
  define len where "len = unat (if little then Uint16 (drop 2 body) else Uint16BE (drop 2 body))"
  define rest where "rest = drop 4 body"
  note defs = fl_def little_def len_def rest_def
  have len16: "len < 65536"
    using unsigned_less [of "if little then Uint16 (drop 2 body) else Uint16BE (drop 2 body)"]
    by (simp add: len_def)
  consider (short) "length body < 4" | (over) "4 \<le> length body" "length rest < len"
    | (be) "4 \<le> length body" "len \<le> length rest" "\<not> little"
    | (le) "4 \<le> length body" "len \<le> length rest" "little"
    by linarith
  then show ?case
  proof cases
    case short
    with 1(3) show ?thesis by (subst (asm) parseSubmessages.simps) simp
  next
    case over
    with 1(3) show ?thesis
      by (subst (asm) parseSubmessages.simps) (auto simp: Let_def defs split: if_splits)
  next
    case be
    then have eq: "parseSubmessages logRaw body s = parseSubmessages logRaw (drop len rest) s"
      by (subst parseSubmessages.simps) (auto simp: Let_def defs)
    have "parseSubmessages logRaw (drop len rest) s = (l, r)" using 1(3) eq by simp
    from 1(1) [OF _ refl refl refl refl refl _ _ this [unfolded defs]] be
    obtain new where "l = s @ new"
      "\<forall>(i, f, d) \<in> set new. f AND flagEndianness \<noteq> 0 \<and> length d \<le> 65535"
      "sum_list (map (\<lambda>(i, f, d). 4 + length d) new) \<le> length (drop len rest)"
      unfolding defs by (auto simp: not_less)
    with be show ?thesis by (intro exI [of _ new]) (auto simp: rest_def)
  next
    case le
    have step: "parseSubmessages logRaw body s
        = parseSubmessages logRaw (drop len rest) (s @ [(body ! 0, fl, take len rest)])"
      using le by (subst parseSubmessages.simps) (auto simp: Let_def defs logRaw_def)
    have "parseSubmessages logRaw (drop len rest) (s @ [(body ! 0, fl, take len rest)]) = (l, r)"
      using 1(3) step by simp
    from 1(2) [OF _ refl refl refl refl refl _ _ _ _ this [unfolded defs]] le
    obtain new where new: "l = (s @ [(body ! 0, fl, take len rest)]) @ new"
      "\<forall>(i, f, d) \<in> set new. f AND flagEndianness \<noteq> 0 \<and> length d \<le> 65535"
      "sum_list (map (\<lambda>(i, f, d). 4 + length d) new) \<le> length (drop len rest)"
      unfolding defs logRaw_def by (auto simp: not_less)
    with le len16 show ?thesis
      by (intro exI [of _ "(body ! 0, fl, take len rest) # new"]) (auto simp: rest_def little_def)
  qed
qed



text \<open>
  C27: an INFO\_TS timestamp is recovered to within one nanosecond below the instant sent,
  although only 32 bits of seconds travel: the decoder picks the NTP era next to its own
  clock, so the value is right on both sides of the February 2036 rollover whenever the two
  clocks are less than \<open>2\<^sup>3\<^sup>1\<close> seconds (68 years) apart.
\<close>

theorem infoTS_roundtrip:
  assumes "\<bar>now div 10 ^ 9 - t div 10 ^ 9\<bar> < 2 ^ 31"
  shows "\<exists>t'. parseInfoTS now (drop 4 (marshalInfoTS t)) = Some t' \<and> t - 1 \<le> t' \<and> t' \<le> t"
  using infoTS_roundtrip_aux [OF assms] by (simp add: marshalInfoTS_def)

text \<open>The witness crosses the rollover: sent at the first second of NTP era 1, read a second before it.\<close>

theorem infoTS_roundtrip_witness:
  "\<exists>t'. parseInfoTS (2085978495 * 10 ^ 9) (drop 4 (marshalInfoTS (2085978496 * 10 ^ 9 + 250000000))) = Some t'
     \<and> (2085978496 * 10 ^ 9 + 250000000) - 1 \<le> t' \<and> t' \<le> 2085978496 * 10 ^ 9 + 250000000"
  by (rule infoTS_roundtrip) simp

text \<open>
  A GAP declares exactly the evicted range: its list base, read as a 64-bit sequence
  number, is one past the end even when the low word is all ones, and no bitmap follows. The
  submessage is framed so that the iterator passes this body on.
\<close>

lemma gap_declares_range:
  assumes "wf_gap g" and "snToU64 (GapEnd g) \<noteq> - 1"
  shows "snToU64 \<lparr>High = Uint32 (drop 16 (gapBody g)), Low = Uint32 (drop 20 (gapBody g))\<rparr>
          = snToU64 (GapEnd g) + 1
    \<and> snToU64 (GapEnd g) < snToU64 \<lparr>High = Uint32 (drop 16 (gapBody g)), Low = Uint32 (drop 20 (gapBody g))\<rparr>
    \<and> \<lparr>High = Uint32 (drop 8 (gapBody g)), Low = Uint32 (drop 12 (gapBody g))\<rparr> = GapStart g
    \<and> Uint32 (drop 24 (gapBody g)) = 0
    \<and> parseSubmessages logRaw (marshalGAP g) [] = ([(submsgGAP, flagEndianness, gapBody g)], None)"
proof -
  define base where "base = u64ToSN (snToU64 (GapEnd g) + 1)"
  have fields: "Uint32 (drop 16 (gapBody g)) = High base" "Uint32 (drop 20 (gapBody g)) = Low base"
    "Uint32 (drop 8 (gapBody g)) = High (GapStart g)" "Uint32 (drop 12 (gapBody g)) = Low (GapStart g)"
    "Uint32 (drop 24 (gapBody g)) = 0"
    using assms(1) by (simp_all add: gapBody_def wf_gap_def wf_eid_def Let_def base_def)
  have "\<lparr>High = High base, Low = Low base\<rparr> = base"
    by (cases base) simp
  then have "snToU64 \<lparr>High = High base, Low = Low base\<rparr> = snToU64 (GapEnd g) + 1"
    by (simp only: base_def snToU64_u64ToSN)
  moreover have "snToU64 (GapEnd g) < snToU64 (GapEnd g) + 1"
    using assms(2) inc_less_eq_self_iff_eq [of "snToU64 (GapEnd g)"] by (simp only: not_le [symmetric]) simp
  moreover have "parseSubmessages logRaw (marshalGAP g) [] = ([(submsgGAP, flagEndianness, gapBody g)], None)"
    using gapf.iterate_last [OF assms(1), of logRaw "[]" "[(submsgGAP, flagEndianness, gapBody g)]"]
    by (simp add: logRaw_def)
  ultimately show ?thesis by (simp add: fields)
qed

end
