(* ===== verification/Rtps_Reliable.thy ===== *)
theory Rtps_Reliable
  imports Rtps_Message
begin

text \<open>
  Reliable delivery (\<^verbatim>\<open>src/rtps/reliable.go\<close>): the writer's retransmission history, a ring
  of the last 256 messages indexed by sequence number, and the reader's tracker of what a
  remote writer has delivered. The history is related to the window of messages it stands
  for, through an interface that retransmission is proved against; the tracker is related to
  the set of sequence numbers received.

  Locks are dropped: each operation holds the mutex from its first to its last access, so it
  is one step on the state.
\<close>

section \<open>Definitions\<close>

subsection \<open>Sender side\<close>

definition heartbeatPeriod :: duration where
  "heartbeatPeriod = 200 * millisecond"

definition maxHistoryDepth :: nat where
  "maxHistoryDepth = 256"

record sendHistory =
  sh_depth :: uint64
  sh_msg :: "bytes list"
  sh_sn :: "uint64 list"
  sh_filled :: "bool list"
  sh_highest :: uint64
  sh_lowest :: uint64
  sh_any :: bool
  sh_hbCount :: int32

definition newSendHistory :: sendHistory where
  "newSendHistory =
     \<lparr>sh_depth = of_nat maxHistoryDepth, sh_msg = replicate maxHistoryDepth [],
      sh_sn = replicate maxHistoryDepth 0, sh_filled = replicate maxHistoryDepth False,
      sh_highest = 0, sh_lowest = 0, sh_any = False, sh_hbCount = 0\<rparr>"

definition store :: "uint64 \<Rightarrow> bytes \<Rightarrow> sendHistory \<Rightarrow> sendHistory" where
  "store seq m h =
     (let i = unat (seq mod sh_depth h);
          h1 = h\<lparr>sh_msg := (sh_msg h)[i := m], sh_sn := (sh_sn h)[i := seq],
                 sh_filled := (sh_filled h)[i := True]\<rparr>;
          h2 = (if \<not> sh_any h1 then h1\<lparr>sh_lowest := seq, sh_highest := seq, sh_any := True\<rparr> else h1);
          h3 = (if seq > sh_highest h2 then h2\<lparr>sh_highest := seq\<rparr> else h2)
      in if sh_highest h3 \<ge> sh_depth h3
         then let lb = sh_highest h3 - sh_depth h3 + 1
              in if lb > sh_lowest h3 then h3\<lparr>sh_lowest := lb\<rparr> else h3
         else h3)"

definition get :: "sendHistory \<Rightarrow> uint64 \<Rightarrow> bytes option" where
  "get h seq =
     (if \<not> sh_any h \<or> seq < sh_lowest h \<or> seq > sh_highest h then None
      else let i = unat (seq mod sh_depth h)
           in if \<not> sh_filled h ! i \<or> sh_sn h ! i \<noteq> seq then None else Some (sh_msg h ! i))"

definition firstLast :: "sendHistory \<Rightarrow> (uint64 \<times> uint64) option" where
  "firstLast h = (if \<not> sh_any h then None else Some (sh_lowest h, sh_highest h))"

subsection \<open>Receiver side\<close>

definition maxReorderAhead :: uint64 where
  "maxReorderAhead = 8192"

text \<open>
  \<^verbatim>\<open>ahead\<close> is a Go map from sequence numbers to \<^verbatim>\<open>true\<close>, used as a set: its keys are a list
  without duplicates.
\<close>

record recvTracker =
  expected :: uint64
  ahead :: "uint64 list"
  initDone :: bool
  ackCount :: int32

definition newTracker :: recvTracker where
  "newTracker = \<lparr>expected = 0, ahead = [], initDone = False, ackCount = 0\<rparr>"

definition initExpected :: "uint64 \<Rightarrow> recvTracker \<Rightarrow> recvTracker" where
  "initExpected firstSN rt =
     (if \<not> initDone rt then rt\<lparr>expected := firstSN, initDone := True\<rparr> else rt)"

text \<open>The loop of \<^verbatim>\<open>record\<close> that advances the watermark over buffered successors.\<close>

function advance :: "uint64 \<Rightarrow> uint64 list \<Rightarrow> uint64 \<times> uint64 list" where
  "advance e ah = (if e \<in> set ah then advance (e + 1) (removeAll e ah) else (e, ah))"
  by pat_completeness auto
termination
  by (relation "measure (\<lambda>(e, ah). length ah)") (auto simp: length_removeAll_less)

declare advance.simps [simp del]

definition record_seq :: "uint64 \<Rightarrow> recvTracker \<Rightarrow> bool \<times> recvTracker" where
  "record_seq seq rt0 =
     (let rt = (if \<not> initDone rt0 then rt0\<lparr>expected := seq, initDone := True\<rparr> else rt0) in
      if seq < expected rt then (False, rt)
      else if seq = expected rt then
        let (e, ah) = advance (expected rt + 1) (ahead rt)
        in (True, rt\<lparr>expected := e, ahead := ah\<rparr>)
      else if seq \<in> set (ahead rt) then (False, rt)
      else if seq - expected rt \<le> maxReorderAhead then (True, rt\<lparr>ahead := seq # ahead rt\<rparr>)
      else (True, rt))"

text \<open>
  The loop of \<^verbatim>\<open>missing\<close>. Its counter is a 64-bit unsigned that the loop only leaves by
  exceeding \<open>end\<close>, so not returning is a value of the model.
\<close>

partial_function (option) missing_loop ::
    "uint64 list \<Rightarrow> uint64 \<Rightarrow> uint64 \<Rightarrow> uint64 \<Rightarrow> uint32 \<Rightarrow> bool \<Rightarrow> (uint32 \<times> bool) option" where
  "missing_loop ah base stop sn bitmap needAck =
     (if sn \<le> stop then
        (if sn \<notin> set ah
         then missing_loop ah base stop (sn + 1) (bitmap OR push_bit (unat (sn - base)) 1) True
         else missing_loop ah base stop (sn + 1) bitmap needAck)
      else Some (bitmap, needAck))"

definition missing :: "uint64 \<Rightarrow> recvTracker \<Rightarrow> (uint64 \<times> uint32 \<times> bool) option" where
  "missing lastSN rt =
     (if \<not> initDone rt then Some (0, 0, False)
      else let base = expected rt in
        if lastSN < base then Some (base, 0, False)
        else let stop = (if lastSN > base + 31 then base + 31 else lastSN) in
          map_option (\<lambda>(bitmap, needAck). (base, bitmap, needAck))
            (missing_loop (ahead rt) base stop base 0 False))"

definition nextAckCount :: "recvTracker \<Rightarrow> int32 \<times> recvTracker" where
  "nextAckCount rt = (ackCount rt + 1, rt\<lparr>ackCount := ackCount rt + 1\<rparr>)"

section \<open>The retransmission history\<close>

text \<open>A writer numbers its messages consecutively and stores each.\<close>

primrec storeFrom :: "(uint64 \<Rightarrow> bytes \<Rightarrow> 'h \<Rightarrow> 'h) \<Rightarrow> uint64 \<Rightarrow> bytes list \<Rightarrow> 'h \<Rightarrow> 'h" where
  "storeFrom st sq [] h = h"
| "storeFrom st sq (m # ms) h = storeFrom st (sq + 1) ms (st sq m h)"

text \<open>
  What retransmission relies on: a history represents a window of messages that starts at a
  sequence number; storing the next one extends the window, dropping its oldest message when
  it is full; \<open>get\<close> answers exactly on the window, whose ends \<open>firstLast\<close> reports.
\<close>

locale retained_history =
  fixes fresh :: 'h and store_op :: "uint64 \<Rightarrow> bytes \<Rightarrow> 'h \<Rightarrow> 'h"
    and get_op :: "'h \<Rightarrow> uint64 \<Rightarrow> bytes option" and ends :: "'h \<Rightarrow> (uint64 \<times> uint64) option"
    and rep :: "'h \<Rightarrow> nat \<Rightarrow> bytes list \<Rightarrow> bool" and cap :: nat
  assumes rep_fresh: "a \<le> 2 ^ 64 \<Longrightarrow> rep fresh a []"
    and rep_store: "\<lbrakk>rep h a ms; a + length ms < 2 ^ 64\<rbrakk> \<Longrightarrow>
       rep (store_op (of_nat (a + length ms)) m h)
         (if length ms < cap then a else Suc a) ((if length ms < cap then ms else tl ms) @ [m])"
    and get_rep: "rep h a ms \<Longrightarrow>
       get_op h sq = (if a \<le> unat sq \<and> unat sq < a + length ms then Some (ms ! (unat sq - a)) else None)"
    and ends_rep: "rep h a ms \<Longrightarrow>
       ends h = (if ms = [] then None else Some (of_nat a, of_nat (a + length ms - 1)))"
    and rep_cap: "rep h a ms \<Longrightarrow> length ms \<le> cap"
    and cap_pos: "0 < cap"
begin

lemma rep_stores:
  assumes "rep h a ms" and "a + length ms + length new \<le> 2 ^ 64"
  shows "rep (storeFrom store_op (of_nat (a + length ms)) new h)
     (a + (length ms + length new - cap)) (drop (length ms + length new - cap) (ms @ new))"
  using assms
proof (induction new arbitrary: h a ms)
  case Nil
  then show ?case using rep_cap by simp
next
  case (Cons m new)
  have next_sq: "(of_nat (a + length ms) :: uint64) + 1 = of_nat (Suc a + length ms)" by simp
  show ?case
  proof (cases "length ms < cap")
    case True
    with rep_store [OF Cons.prems(1), of m] Cons.prems(2)
    have "rep (store_op (of_nat (a + length ms)) m h) a (ms @ [m])" by simp
    from Cons.IH [OF this] Cons.prems(2) show ?thesis
      by (simp add: next_sq add.commute add.left_commute)
  next
    case False
    then have full: "length ms = cap" using rep_cap [OF Cons.prems(1)] by simp
    with cap_pos have ne: "ms \<noteq> []" by auto
    from rep_store [OF Cons.prems(1), of m] Cons.prems(2) False
    have step: "rep (store_op (of_nat (a + length ms)) m h) (Suc a) (tl ms @ [m])" by simp
    have len: "length (tl ms @ [m]) = length ms" using ne by simp
    have drop: "drop (length new) (tl ms @ m # new) = drop (Suc (length new)) (ms @ m # new)"
      using ne by (cases ms) simp_all
    from Cons.IH [OF step, unfolded len] Cons.prems(2) full drop show ?thesis
      by (simp add: add.commute add.left_commute)
  qed
qed

lemma get_after_stores:
  assumes "a + length new \<le> 2 ^ 64"
  shows "get_op (storeFrom store_op (of_nat a) new fresh) sq
    = (if a \<le> unat sq \<and> unat sq < a + length new \<and> a + length new \<le> unat sq + cap
       then Some (new ! (unat sq - a)) else None)"
proof -
  have "rep (storeFrom store_op (of_nat a) new fresh) (a + (length new - cap)) (drop (length new - cap) new)"
    using rep_stores [OF rep_fresh, of a new] assms by simp
  from get_rep [OF this, of sq] show ?thesis by (auto simp: nth_append)
qed

end

definition hist_rep :: "sendHistory \<Rightarrow> nat \<Rightarrow> bytes list \<Rightarrow> bool" where
  "hist_rep h a ms \<longleftrightarrow>
     sh_depth h = 256 \<and> length (sh_msg h) = 256 \<and> length (sh_sn h) = 256 \<and> length (sh_filled h) = 256
   \<and> length ms \<le> 256 \<and> a + length ms \<le> 2 ^ 64
   \<and> (sh_any h \<longleftrightarrow> ms \<noteq> [])
   \<and> (ms \<noteq> [] \<longrightarrow> sh_lowest h = of_nat a \<and> sh_highest h = of_nat (a + length ms - 1))
   \<and> (\<forall>i < length ms. sh_filled h ! ((a + i) mod 256) \<and> sh_sn h ! ((a + i) mod 256) = of_nat (a + i)
        \<and> sh_msg h ! ((a + i) mod 256) = ms ! i)"

lemma slot_of_nat: "n < 2 ^ 64 \<Longrightarrow> unat ((of_nat n :: uint64) mod 256) = n mod 256"
  by (simp add: unat_mod_distrib unat_of_nat64)

lemma slots_differ:
  assumes "(i :: nat) < n" and "n < i + 256"
  shows "(a + i) mod 256 \<noteq> (a + n) mod 256"
proof
  assume "(a + i) mod 256 = (a + n) mod 256"
  then have "256 dvd (a + n) - (a + i)"
    using assms(1) mod_eq_dvd_iff_nat [of "a + i" "a + n" 256] by simp
  then have "256 dvd n - i" by simp
  with assms show False by (auto dest: dvd_imp_le)
qed

lemma get_hist_rep:
  assumes "hist_rep h a ms"
  shows "get h sq = (if a \<le> unat sq \<and> unat sq < a + length ms then Some (ms ! (unat sq - a)) else None)"
proof (cases "ms = []")
  case True
  with assms show ?thesis by (simp add: hist_rep_def get_def)
next
  case False
  have range: "a < 2 ^ 64" "a + length ms - 1 < 2 ^ 64"
    using assms False by (cases ms, auto simp: hist_rep_def)+
  have lo: "sq < sh_lowest h \<longleftrightarrow> unat sq < a"
    and hi: "sh_highest h < sq \<longleftrightarrow> a + length ms - 1 < unat sq"
    using assms False unat_of_nat64 [OF range(1)] unat_of_nat64 [OF range(2)]
    by (simp_all only: hist_rep_def word_less_nat_alt simp_thms)
  show ?thesis
  proof (cases "a \<le> unat sq \<and> unat sq < a + length ms")
    case True
    define i where "i = unat sq - a"
    with True have i: "i < length ms" "unat sq = a + i" by auto
    then have slot: "unat (sq mod 256) = (a + i) mod 256" by (simp add: unat_mod_distrib)
    have "sq = of_nat (unat sq)" by simp
    then have sq: "sq = of_nat (a + i)" by (simp only: i(2))
    have "sh_filled h ! ((a + i) mod 256)" "sh_sn h ! ((a + i) mod 256) = sq"
      "sh_msg h ! ((a + i) mod 256) = ms ! i" "sh_depth h = 256" "sh_any h"
      using assms i(1) False sq by (simp_all add: hist_rep_def)
    moreover have "\<not> sq < sh_lowest h" "\<not> sh_highest h < sq" using True lo hi by auto
    ultimately show ?thesis using True slot by (simp add: get_def Let_def i_def)
  next
    case out: False
    with lo hi False show ?thesis by (cases ms) (auto simp: get_def not_less)
  qed
qed

lemma store_highest:
  assumes rep: "hist_rep h a ms" and room: "a + length ms < 2 ^ 64"
  shows "sh_highest (store (of_nat (a + length ms)) m h) = of_nat (a + length ms)"
proof (cases "ms = []")
  case True
  then show ?thesis using rep by (simp add: hist_rep_def store_def Let_def)
next
  case False
  have "a + length ms - 1 < 2 ^ 64" using room by simp
  then have "unat (sh_highest h) = a + length ms - 1"
    using rep False unat_of_nat64 by (simp only: hist_rep_def) simp
  moreover have "unat (of_nat (a + length ms) :: uint64) = a + length ms"
    using room by (rule unat_of_nat64)
  moreover have "0 < length ms" using False by simp
  ultimately have "sh_highest h < of_nat (a + length ms)"
    unfolding word_less_nat_alt by linarith
  then show ?thesis using rep False by (simp add: hist_rep_def store_def Let_def)
qed

lemma store_lowest:
  assumes rep: "hist_rep h a ms" and room: "a + length ms < 2 ^ 64"
  shows "sh_lowest (store (of_nat (a + length ms)) m h) = of_nat (if length ms < 256 then a else Suc a)"
proof -
  define n where "n = length ms"
  define sq where "sq = (of_nat (a + n) :: uint64)"
  have usq: "unat sq = a + n" using room by (simp only: sq_def n_def unat_of_nat64)
  have n: "n \<le> 256" and dep: "sh_depth h = 256" and any: "sh_any h = (ms \<noteq> [])"
    using rep by (simp_all add: hist_rep_def n_def)
  have high: "sh_highest (store sq m h) = sq"
    using store_highest [OF rep room] by (simp only: sq_def n_def)
  have old: "(if ms = [] then sq else sh_lowest h) = of_nat a"
    using rep by (auto simp: hist_rep_def sq_def n_def)
  have ua: "unat (of_nat a :: uint64) = a" using room by (simp only: unat_of_nat64)
  have lb: "unat (sq - 256 + 1) = a + n - 255" if "256 \<le> sq"
  proof -
    have ge: "256 \<le> a + n" using that usq by (simp add: word_le_nat_alt)
    then have "sq - 256 + 1 = (of_nat (a + n - 255) :: uint64)"
      by (simp add: sq_def)
    then show ?thesis using room by (simp only: n_def) (simp add: unat_of_nat64)
  qed
  have "sh_lowest (store sq m h) = (if 256 \<le> sq \<and> of_nat a < sq - 256 + 1 then sq - 256 + 1 else of_nat a)"
    using old high by (auto simp: store_def Let_def dep any split: if_splits)
  moreover have "of_nat a < sq - 256 + 1 \<longleftrightarrow> n = 256" if "256 \<le> sq"
    using lb [OF that] ua n by (simp add: word_less_nat_alt) linarith
  moreover have "256 \<le> sq" if "n = 256" using that usq by (simp add: word_le_nat_alt)
  moreover have "sq - 256 + 1 = of_nat (Suc a)" if "n = 256"
    using that by (simp add: sq_def)
  ultimately show ?thesis using n by (auto simp: le_less sq_def n_def)
qed

lemma store_ring:
  fixes m :: bytes
  assumes "hist_rep h a ms" and "a + length ms < 2 ^ 64"
  defines "k \<equiv> (a + length ms) mod 256" and "h' \<equiv> store (of_nat (a + length ms)) m h"
  shows "sh_msg h' = (sh_msg h)[k := m]" "sh_sn h' = (sh_sn h)[k := of_nat (a + length ms)]"
    "sh_filled h' = (sh_filled h)[k := True]" "sh_any h'" "sh_depth h' = 256"
  using assms(1) slot_of_nat [OF assms(2)]
  by (simp_all add: h'_def k_def store_def Let_def hist_rep_def)

lemma hist_rep_store:
  assumes rep: "hist_rep h a ms" and room: "a + length ms < 2 ^ 64"
  shows "hist_rep (store (of_nat (a + length ms)) m h)
     (if length ms < maxHistoryDepth then a else Suc a)
     ((if length ms < maxHistoryDepth then ms else tl ms) @ [m])"
proof -
  define n where "n = length ms"
  define h' where "h' = store (of_nat (a + n)) m h"
  define b where "b = (if n < 256 then a else Suc a)"
  define ms' where "ms' = (if n < 256 then ms else tl ms) @ [m]"
  note ring = store_ring [OF rep room, of m, folded n_def, folded h'_def]
  note ends = store_highest [OF rep room, of m, folded n_def, folded h'_def]
    store_lowest [OF rep room, of m, folded n_def, folded h'_def b_def]
  have n: "n \<le> 256"
    and len: "length (sh_msg h) = 256" "length (sh_sn h) = 256" "length (sh_filled h) = 256"
    using rep by (auto simp: hist_rep_def n_def)
  have last: "b + length ms' = a + n + 1" using n by (auto simp: b_def ms'_def n_def)
  have slots: "sh_filled h' ! ((b + i) mod 256) \<and> sh_sn h' ! ((b + i) mod 256) = of_nat (b + i)
      \<and> sh_msg h' ! ((b + i) mod 256) = ms' ! i" if i: "i < length ms'" for i
  proof (cases "b + i = a + n")
    case True
    then have "ms' ! i = m" using last by (auto simp: ms'_def nth_append)
    with True show ?thesis using len by (simp add: ring)
  next
    case False
    then have lt: "b + i < a + n" using i last by simp
    define j where "j = b + i - a"
    have j: "b + i = a + j" "j < n" "n < j + 256"
      using lt n by (auto simp: j_def b_def)
    have "ms' ! i = ms ! j"
      using j lt i by (auto simp: ms'_def b_def nth_append nth_tl n_def split: if_splits)
    moreover have "sh_filled h ! ((a + j) mod 256) \<and> sh_sn h ! ((a + j) mod 256) = of_nat (a + j)
      \<and> sh_msg h ! ((a + j) mod 256) = ms ! j" using rep j(2) by (simp add: hist_rep_def n_def)
    ultimately show ?thesis using slots_differ [OF j(2) j(3), of a] by (simp add: ring j(1))
  qed
  have "sh_highest h' = of_nat (b + length ms' - 1)" using ends last by simp
  moreover have "length ms' \<le> 256" using n by (auto simp: ms'_def n_def)
  ultimately have "hist_rep h' b ms'"
    using slots ring len ends last room by (auto simp: hist_rep_def ms'_def n_def)
  then show ?thesis by (simp add: h'_def b_def ms'_def n_def maxHistoryDepth_def)
qed

interpretation sendhist: retained_history newSendHistory store get firstLast hist_rep maxHistoryDepth
proof (unfold_locales, goal_cases)
  case (1 a)
  then show ?case by (simp add: hist_rep_def newSendHistory_def maxHistoryDepth_def)
next
  case (2 h a ms m)
  then show ?case by (rule hist_rep_store)
next
  case (3 h a ms sq)
  then show ?case by (rule get_hist_rep)
next
  case (4 h a ms)
  then show ?case by (simp add: hist_rep_def firstLast_def)
next
  case (5 h a ms)
  then show ?case by (simp add: hist_rep_def maxHistoryDepth_def)
next
  case 6
  show ?case by (simp add: maxHistoryDepth_def)
qed



section \<open>The reception tracker\<close>

text \<open>
  The sequence numbers a tracker accounts as received, and the invariant of an initialised
  tracker: what is buffered lies beyond the watermark, within the reorder bound.
\<close>

definition got :: "recvTracker \<Rightarrow> uint64 set" where
  "got rt = {s. s < expected rt} \<union> set (ahead rt)"

definition tracker_inv :: "recvTracker \<Rightarrow> bool" where
  "tracker_inv rt \<longleftrightarrow> distinct (ahead rt)
     \<and> (\<forall>s \<in> set (ahead rt). expected rt < s \<and> s - expected rt \<le> maxReorderAhead)
     \<and> (\<not> initDone rt \<longrightarrow> ahead rt = [])"

lemma word_less_add1: "(x :: uint64) \<noteq> - 1 \<Longrightarrow> x < x + 1"
  using inc_less_eq_self_iff_eq [of x] by (simp only: not_le [symmetric]) simp

lemma less_add1_iff:
  assumes "(e :: uint64) \<noteq> - 1"
  shows "s < e + 1 \<longleftrightarrow> s < e \<or> s = e"
proof -
  have "e + 1 \<le> s \<longleftrightarrow> e < s" using assms by (simp only: inc_less_eq_iff simp_thms)
  then have "s < e + 1 \<longleftrightarrow> \<not> e < s" by (simp only: linorder_not_le [symmetric])
  then show ?thesis by (simp only: linorder_not_less le_less)
qed

lemma unat_add1: "(e :: uint64) \<noteq> - 1 \<Longrightarrow> unat (e + 1) = Suc (unat e)"
  using unatSuc [of e] by (simp only: eq_neg_iff_add_eq_0 add.commute [of 1 e] simp_thms)

lemma less_neq_max: "(e :: uint64) < s \<Longrightarrow> e \<noteq> - 1"
  by (auto dest: leD)

lemma distance_shrinks:
  fixes e s d :: uint64
  assumes "e < s" and "s - e \<le> d"
  shows "s - (e + 1) \<le> d"
proof -
  have "unat (s - (e + 1)) = unat s - Suc (unat e)"
    using unat_sub [OF inc_le [OF assms(1)]] unat_add1 [OF less_neq_max [OF assms(1)]] by simp
  moreover have "unat (s - e) = unat s - unat e" using assms(1) by (simp add: unat_sub)
  ultimately show ?thesis using assms(2) by (simp add: word_le_nat_alt)
qed

lemma advance_step: "e \<in> set ah \<Longrightarrow> advance e ah = advance (e + 1) (removeAll e ah)"
  by (subst advance.simps) simp

lemma advance_stop: "e \<notin> set ah \<Longrightarrow> advance e ah = (e, ah)"
  by (subst advance.simps) simp

lemma below_add1: "(e :: uint64) \<noteq> - 1 \<Longrightarrow> {s. s < e + 1} = insert e {s. s < e}"
  by (rule set_eqI) (auto dest: less_add1_iff [THEN iffD1] intro: less_add1_iff [THEN iffD2])

lemma advance_got:
  assumes "- 1 \<notin> set ah" and "advance e ah = (e', ah')"
  shows "{s. s < e'} \<union> set ah' = {s. s < e} \<union> set ah \<and> e \<le> e'"
  using assms
proof (induction e ah arbitrary: e' ah' rule: advance.induct)
  case (1 e ah)
  show ?case
  proof (cases "e \<in> set ah")
    case True
    then have e: "e \<noteq> - 1" using 1(2) by auto
    from 1(1) [OF True] 1(2,3) True
    have "{s. s < e'} \<union> set ah' = {s. s < e + 1} \<union> set (removeAll e ah)" "e + 1 \<le> e'"
      by (simp_all add: advance_step)
    moreover have "{s. s < e + 1} \<union> set (removeAll e ah) = {s. s < e} \<union> set ah"
      using True by (simp only: below_add1 [OF e]) auto
    moreover have "e \<le> e'"
      using word_less_add1 [OF e] \<open>e + 1 \<le> e'\<close> by (rule order_trans [OF less_imp_le])
    ultimately show ?thesis by simp
  next
    case False
    then show ?thesis using 1(3) by (simp add: advance_stop)
  qed
qed

lemma advance_inv:
  assumes "distinct ah" and "\<forall>s \<in> set ah. e \<le> s \<and> s - e \<le> d" and "advance e ah = (e', ah')"
  shows "distinct ah' \<and> (\<forall>s \<in> set ah'. e' < s \<and> s - e' \<le> d)"
  using assms
proof (induction e ah arbitrary: e' ah' rule: advance.induct)
  case (1 e ah)
  show ?case
  proof (cases "e \<in> set ah")
    case True
    have "\<forall>s \<in> set (removeAll e ah). e + 1 \<le> s \<and> s - (e + 1) \<le> d"
    proof
      fix s assume "s \<in> set (removeAll e ah)"
      with 1(3) have "e < s" "s - e \<le> d" by (auto simp: le_less)
      then show "e + 1 \<le> s \<and> s - (e + 1) \<le> d" using distance_shrinks inc_le by blast
    qed
    then show ?thesis
      using 1(2) by (intro 1(1) [OF True _ _ 1(4) [unfolded advance_step [OF True]]])
        (simp_all only: distinct_removeAll)
  next
    case False
    then have "e' = e" "ah' = ah" using 1(4) by (simp_all add: advance_stop)
    moreover have "\<forall>s \<in> set ah. e < s \<and> s - e \<le> d"
    proof
      fix s assume s: "s \<in> set ah"
      with False have "s \<noteq> e" by auto
      then show "e < s \<and> s - e \<le> d" using 1(3) s by (simp add: order.strict_iff_order)
    qed
    ultimately show ?thesis using 1(2) by simp
  qed
qed

lemma record_inv:
  assumes "tracker_inv rt" and "record_seq sq rt = (fresh, rt')"
  shows "tracker_inv rt'" and "initDone rt'"
proof -
  define r0 where "r0 = (if \<not> initDone rt then rt\<lparr>expected := sq, initDone := True\<rparr> else rt)"
  have inv0: "tracker_inv r0" and done0: "initDone r0"
    using assms(1) by (auto simp: r0_def tracker_inv_def)
  have bound: "distinct (ahead r0)" "\<And>s. s \<in> set (ahead r0) \<Longrightarrow> expected r0 < s"
    "\<And>s. s \<in> set (ahead r0) \<Longrightarrow> s - expected r0 \<le> maxReorderAhead"
    using inv0 by (auto simp: tracker_inv_def)
  have "\<forall>s \<in> set (ahead r0). expected r0 + 1 \<le> s \<and> s - (expected r0 + 1) \<le> maxReorderAhead"
    using bound(2,3) distance_shrinks inc_le by blast
  note adv = advance_inv [OF bound(1) this]
  have "tracker_inv rt' \<and> initDone rt'"
    using assms(2) inv0 done0 adv
    by (auto simp: record_seq_def r0_def [symmetric] Let_def tracker_inv_def split: if_splits prod.splits)
  then show "tracker_inv rt'" "initDone rt'" by auto
qed

lemma tracker_bounded:
  assumes "tracker_inv rt"
  shows "length (ahead rt) \<le> 8192"
proof -
  have dist: "distinct (map (\<lambda>s. unat (s - expected rt)) (ahead rt))"
    using assms by (auto simp: tracker_inv_def distinct_map inj_on_def word_unat_eq_iff [symmetric])
  have "set (map (\<lambda>s. unat (s - expected rt)) (ahead rt)) \<subseteq> {1..8192}"
  proof
    fix n assume "n \<in> set (map (\<lambda>s. unat (s - expected rt)) (ahead rt))"
    then obtain s where s: "s \<in> set (ahead rt)" "n = unat (s - expected rt)" by auto
    then have "expected rt < s" "s - expected rt \<le> 8192"
      using assms by (auto simp: tracker_inv_def maxReorderAhead_def)
    then show "n \<in> {1..8192}" using s(2) by (auto simp: unat_sub word_less_nat_alt word_le_nat_alt)
  qed
  then have "card (set (map (\<lambda>s. unat (s - expected rt)) (ahead rt))) \<le> card {1..8192 :: nat}"
    by (intro card_mono) auto
  then show ?thesis using distinct_card [OF dist] by simp
qed

lemma record_got:
  assumes inv: "tracker_inv rt" and dn: "initDone rt" and nw: "- 1 \<notin> insert sq (set (ahead rt))"
    and r: "record_seq sq rt = (fresh, rt')"
  shows "fresh \<longleftrightarrow> sq \<notin> got rt"
    and "got rt' = (if sq \<in> got rt \<or> sq - expected rt \<le> maxReorderAhead then insert sq (got rt) else got rt)"
    and "expected rt \<le> expected rt'"
proof -
  obtain e ah where adv: "advance (expected rt + 1) (ahead rt) = (e, ah)" by fastforce
  have ne: "expected rt \<noteq> - 1" if "sq = expected rt" using nw that by auto
  have notin: "expected rt \<notin> set (ahead rt)" using inv by (auto simp: tracker_inv_def)
  have got_adv: "{s. s < e} \<union> set ah = insert (expected rt) (got rt)" "expected rt \<le> e"
    if "sq = expected rt"
    using advance_got [OF _ adv] nw below_add1 [OF ne [OF that]] word_less_add1 [OF ne [OF that]]
    by (auto simp: got_def)
  consider (old) "sq < expected rt" | (nxt) "sq = expected rt"
    | (dup) "\<not> sq < expected rt" "sq \<noteq> expected rt" "sq \<in> set (ahead rt)"
    | (near) "\<not> sq < expected rt" "sq \<noteq> expected rt" "sq \<notin> set (ahead rt)" "sq - expected rt \<le> maxReorderAhead"
    | (far) "\<not> sq < expected rt" "sq \<noteq> expected rt" "sq \<notin> set (ahead rt)" "\<not> sq - expected rt \<le> maxReorderAhead"
    by blast
  then have "(fresh \<longleftrightarrow> sq \<notin> got rt) \<and>
      got rt' = (if sq \<in> got rt \<or> sq - expected rt \<le> maxReorderAhead then insert sq (got rt) else got rt)
      \<and> expected rt \<le> expected rt'"
  proof cases
    case old
    then show ?thesis using r dn by (auto simp: record_seq_def got_def)
  next
    case nxt
    then have "fresh" "rt' = rt\<lparr>expected := e, ahead := ah\<rparr>"
      using r dn adv by (auto simp: record_seq_def)
    moreover from this have "got rt' = insert sq (got rt)" using got_adv(1) [OF nxt] nxt by (simp add: got_def)
    ultimately show ?thesis using got_adv(2) [OF nxt] notin nxt by (simp add: got_def)
  next
    case dup
    then show ?thesis using r dn by (auto simp: record_seq_def got_def)
  next
    case near
    then show ?thesis using r dn by (auto simp: record_seq_def got_def)
  next
    case far
    then show ?thesis using r dn by (auto simp: record_seq_def got_def)
  qed
  then show "fresh \<longleftrightarrow> sq \<notin> got rt"
    "got rt' = (if sq \<in> got rt \<or> sq - expected rt \<le> maxReorderAhead then insert sq (got rt) else got rt)"
    "expected rt \<le> expected rt'" by blast+
qed

text \<open>A reader's calls of \<^verbatim>\<open>record\<close> over the sequence numbers that arrive, in arrival order.\<close>

primrec recordAll :: "uint64 list \<Rightarrow> recvTracker \<Rightarrow> bool list \<times> recvTracker" where
  "recordAll [] rt = ([], rt)"
| "recordAll (x # xs) rt =
     (let (f, rt1) = record_seq x rt; (fs, rt2) = recordAll xs rt1 in (f # fs, rt2))"

definition freshOnes :: "bool list \<Rightarrow> uint64 list \<Rightarrow> uint64 list" where
  "freshOnes fs xs = map snd (filter fst (zip fs xs))"

lemma max_notin_below: "(- 1 :: uint64) \<notin> {s. s < e}"
  by (auto dest: leD)

lemma recordAll_got:
  assumes "tracker_inv rt" and "initDone rt" and "- 1 \<notin> set xs" and "- 1 \<notin> got rt"
    and "\<forall>x \<in> set xs. x < expected rt \<or> x - expected rt \<le> maxReorderAhead"
    and "recordAll xs rt = (fs, rt')"
  shows "got rt' = got rt \<union> set xs \<and> set (freshOnes fs xs) = set xs - got rt
     \<and> distinct (freshOnes fs xs) \<and> tracker_inv rt' \<and> initDone rt' \<and> expected rt \<le> expected rt'"
  using assms
proof (induction xs arbitrary: rt fs rt')
  case Nil
  then show ?case by (simp add: freshOnes_def)
next
  case (Cons x xs)
  obtain f rt1 where r1: "record_seq x rt = (f, rt1)" by fastforce
  obtain gs rt2 where r2: "recordAll xs rt1 = (gs, rt2)" by fastforce
  have eq: "fs = f # gs" "rt' = rt2" using Cons.prems(6) r1 r2 by (auto simp: Let_def)
  have nw: "- 1 \<notin> insert x (set (ahead rt))" using Cons.prems(3,4) by (auto simp: got_def)
  note rec = record_got [OF Cons.prems(1,2) nw r1]
  have g1: "got rt1 = insert x (got rt)"
    using rec(2) Cons.prems(5) by (auto simp: got_def)
  have "\<forall>y \<in> set xs. y < expected rt1 \<or> y - expected rt1 \<le> maxReorderAhead"
  proof
    fix y assume "y \<in> set xs"
    then have "y < expected rt \<or> y - expected rt \<le> maxReorderAhead" using Cons.prems(5) by simp
    then show "y < expected rt1 \<or> y - expected rt1 \<le> maxReorderAhead"
      using rec(3) by (auto simp: word_less_nat_alt word_le_nat_alt unat_sub_if')
  qed
  from Cons.IH [OF record_inv [OF Cons.prems(1) r1] _ _ this r2] Cons.prems(3,4) g1
  have "got rt2 = got rt1 \<union> set xs" "set (freshOnes gs xs) = set xs - got rt1"
    "distinct (freshOnes gs xs)" "tracker_inv rt2" "initDone rt2" "expected rt1 \<le> expected rt2" by auto
  then show ?case using g1 rec(1,3) eq by (auto simp: freshOnes_def intro: order_trans)
qed

lemma missing_loop_upto:
  assumes "unat base + m < 2 ^ 64 - 1" and "k \<le> Suc m" and "m < 32"
  shows "\<exists>bm' na'. missing_loop ah base (base + of_nat m) (base + of_nat k) bm na = Some (bm', na')
     \<and> (\<forall>n. bit bm' n \<longleftrightarrow> bit bm n \<or> k \<le> n \<and> n \<le> m \<and> base + of_nat n \<notin> set ah)
     \<and> (na' \<longleftrightarrow> na \<or> (\<exists>n. k \<le> n \<and> n \<le> m \<and> base + of_nat n \<notin> set ah))"
  using assms
proof (induction "Suc m - k" arbitrary: k bm na)
  case 0
  then have k: "k = Suc m" by simp
  have "unat (base + of_nat k) = unat base + k" "unat (base + of_nat m) = unat base + m"
    using 0(2) k by (simp_all add: unat_plus_if' unat_of_nat64 del: of_nat_Suc)
  then have "\<not> base + of_nat k \<le> base + of_nat m" using k by (simp add: word_le_nat_alt del: of_nat_Suc)
  then show ?case using k by (subst missing_loop.simps) (auto simp del: of_nat_Suc)
next
  case (Suc d)
  then have k: "k \<le> m" "d = Suc m - Suc k" by simp_all
  have u: "unat (base + of_nat k) = unat base + k" "unat (base + of_nat m) = unat base + m"
    using Suc(3) k by (simp_all add: unat_plus_if' unat_of_nat64)
  then have le: "base + of_nat k \<le> base + of_nat m" using k by (simp add: word_le_nat_alt)
  have off: "unat (base + of_nat k - base) = k" using k Suc(3) by (simp add: unat_of_nat64)
  have nxt: "base + of_nat k + 1 = base + of_nat (Suc k)" by simp
  define bm1 na1 where "bm1 = (if base + of_nat k \<notin> set ah then bm OR push_bit k 1 else bm)"
    and "na1 = (if base + of_nat k \<notin> set ah then True else na)"
  have step: "missing_loop ah base (base + of_nat m) (base + of_nat k) bm na
      = missing_loop ah base (base + of_nat m) (base + of_nat (Suc k)) bm1 na1"
    using le by (cases "base + of_nat k \<in> set ah"; subst missing_loop.simps)
      (simp_all only: off nxt bm1_def na1_def if_True if_False simp_thms)
  have b1: "bit bm1 n \<longleftrightarrow> bit bm n \<or> n = k \<and> base + of_nat k \<notin> set ah" for n
    using k Suc(5) by (auto simp: bm1_def bit_simps)
  from Suc(1) [OF k(2) Suc(3) _ Suc(5), of bm1 na1] k obtain bm' na' where
    ih: "missing_loop ah base (base + of_nat m) (base + of_nat (Suc k)) bm1 na1 = Some (bm', na')"
    "\<And>n. bit bm' n \<longleftrightarrow> bit bm1 n \<or> Suc k \<le> n \<and> n \<le> m \<and> base + of_nat n \<notin> set ah"
    "na' \<longleftrightarrow> na1 \<or> (\<exists>n. Suc k \<le> n \<and> n \<le> m \<and> base + of_nat n \<notin> set ah)"
    by auto
  have "\<forall>n. bit bm' n \<longleftrightarrow> bit bm n \<or> k \<le> n \<and> n \<le> m \<and> base + of_nat n \<notin> set ah"
    using ih(2) b1 k(1) by (metis Suc_le_eq le_less order_refl)
  moreover have "na' \<longleftrightarrow> na \<or> (\<exists>n. k \<le> n \<and> n \<le> m \<and> base + of_nat n \<notin> set ah)"
    using ih(3) k(1) unfolding na1_def by (metis Suc_le_eq le_less order_refl)
  ultimately show ?case using step ih(1) by auto
qed

lemma missing_loop_diverges:
  assumes "missing_loop ah base stop sn bm na = Some r"
  shows "stop \<noteq> - 1"
  by (rule missing_loop.raw_induct [where P = "\<lambda>ah base stop sn bm na r. stop \<noteq> - 1", OF _ assms])
    (auto split: if_splits)

lemma missing_unfold:
  assumes "initDone rt" and "expected rt \<le> lastSN"
  shows "missing lastSN rt = map_option (\<lambda>(bm, na). (expected rt, bm, na))
     (missing_loop (ahead rt) (expected rt)
       (if lastSN > expected rt + 31 then expected rt + 31 else lastSN) (expected rt) 0 False)"
  using assms by (simp only: missing_def Let_def linorder_not_less [symmetric] simp_thms if_False)

lemma unat_eq_max: "(x :: uint64) = - 1 \<longleftrightarrow> unat x = 2 ^ 64 - 1"
proof -
  have "unat (- 1 :: uint64) = 2 ^ 64 - 1" by (simp add: unsigned_minus_1_eq_mask mask_eq_exp_minus_1)
  then show ?thesis by (simp only: word_unat_eq_iff)
qed

lemma missing_window:
  assumes "initDone rt" and "expected rt \<le> lastSN" and "unat (expected rt) + 31 < 2 ^ 64"
    and "lastSN \<noteq> - 1 \<or> expected rt + 31 \<noteq> - 1"
  shows "\<exists>bm na. missing lastSN rt = Some (expected rt, bm, na)
     \<and> (\<forall>n < 32. bit bm n \<longleftrightarrow> expected rt + of_nat n \<le> lastSN \<and> expected rt + of_nat n \<notin> set (ahead rt))
     \<and> (na \<longleftrightarrow> bm \<noteq> 0)"
proof -
  define base where "base = expected rt"
  define m where "m = min 31 (unat lastSN - unat base)"
  have le: "unat base \<le> unat lastSN" using assms(2) by (simp add: word_le_nat_alt base_def)
  have m: "m < 32" by (simp add: m_def)
  have u31: "unat (base + 31) = unat base + 31"
    using assms(3) by (simp add: unat_plus_if' base_def)
  have um: "unat (base + of_nat n) = unat base + n" if "n < 32" for n
    using assms(3) that by (simp add: unat_plus_if' unat_of_nat64 base_def)
  have stop: "(if lastSN > base + 31 then base + 31 else lastSN) = base + of_nat m"
    using le um [OF m] u31
    unfolding word_unat_eq_iff by (auto simp: m_def word_less_nat_alt min_def)
  have "\<not> (unat lastSN = 2 ^ 64 - 1 \<and> unat base + 31 = 2 ^ 64 - 1)"
    using assms(4) u31 unat_eq_max [of lastSN] unat_eq_max [of "base + 31"] unfolding base_def by metis
  moreover have "unat lastSN < 2 ^ 64" using unsigned_less [of lastSN] by simp
  ultimately have "unat base + m \<noteq> 2 ^ 64 - 1"
    using le assms(3) by (auto simp: m_def base_def min_def split: if_splits)
  then have room: "unat base + m < 2 ^ 64 - 1"
    using assms(3) m by (simp add: base_def)
  from missing_loop_upto [OF room _ m, of 0 "ahead rt" 0 False] obtain bm na where
    r: "missing_loop (ahead rt) base (base + of_nat m) base 0 False = Some (bm, na)"
    "\<And>n. bit bm n \<longleftrightarrow> n \<le> m \<and> base + of_nat n \<notin> set (ahead rt)"
    "na \<longleftrightarrow> (\<exists>n. n \<le> m \<and> base + of_nat n \<notin> set (ahead rt))"
    by auto
  have "missing lastSN rt = Some (base, bm, na)"
    using missing_unfold [OF assms(1,2)] stop r(1) by (simp only: base_def) simp
  moreover have "bit bm n \<longleftrightarrow> base + of_nat n \<le> lastSN \<and> base + of_nat n \<notin> set (ahead rt)" if "n < 32" for n
    using r(2) [of n] um [OF that] that le by (auto simp: word_le_nat_alt m_def)
  moreover have "na \<longleftrightarrow> bm \<noteq> 0"
    using r(2,3) m by (auto simp: bit_eq_iff) (metis le_less_trans)
  ultimately show ?thesis by (auto simp: base_def)
qed

lemma unat_minus32: "unat (- 32 :: uint64) = 2 ^ 64 - 32"
proof -
  have "(- 32 :: uint64) = of_nat (2 ^ 64 - 32)" by simp
  then show ?thesis using unat_of_nat64 [of "2 ^ 64 - 32"] by simp
qed

lemma missing_None:
  "missing lastSN rt = None \<longleftrightarrow> initDone rt \<and> expected rt = - 32 \<and> lastSN = - 1"
proof (cases "initDone rt \<and> expected rt \<le> lastSN")
  case False
  then show ?thesis by (auto simp: missing_def not_less [symmetric] Let_def)
next
  case True
  note dn = True [THEN conjunct1] and le = True [THEN conjunct2]
  show ?thesis
  proof (cases "unat (expected rt) + 31 < 2 ^ 64")
    case wraps: False
    then have "unat (expected rt + 31) < unat (expected rt)"
      using unsigned_less [of "expected rt"] by (simp add: unat_plus_if')
    then have lt: "expected rt + 31 < expected rt" by (simp add: word_less_nat_alt)
    then have "expected rt + 31 < lastSN" using le by (rule order_less_le_trans)
    then have "missing lastSN rt \<noteq> None"
      using lt missing_loop.simps [of "ahead rt" "expected rt" "expected rt + 31" "expected rt" 0 False]
      by (simp only: missing_unfold [OF dn le] if_True linorder_not_less [symmetric] simp_thms if_False) simp
    moreover have "expected rt \<noteq> - 32"
      using wraps unat_minus32 by auto
    ultimately show ?thesis by simp
  next
    case room: True
    show ?thesis
    proof (cases "lastSN = - 1 \<and> expected rt + 31 = - 1")
      case True
      have "expected rt = (expected rt + 31) - 31" by (simp only: add_diff_cancel_right')
      then have "expected rt = - 1 - 31" using True by (simp only:)
      moreover have "missing_loop (ahead rt) (expected rt) (- 1) (expected rt) 0 False = None"
        using missing_loop_diverges [of "ahead rt" "expected rt" "- 1" "expected rt" 0 False]
        by (cases "missing_loop (ahead rt) (expected rt) (- 1) (expected rt) 0 False") auto
      then have "missing lastSN rt = None"
        using missing_unfold [OF dn le] True by (simp only: if_cancel) simp
      ultimately show ?thesis using dn True by simp
    next
      case False
      then show ?thesis using missing_window [OF dn le room] dn by auto
    qed
  qed
qed

text \<open>
  C22: \<^verbatim>\<open>record\<close> implements insertion into the set of received sequence numbers: it reports
  fresh exactly when the number had not been received before, adds exactly that number
  (a number further ahead than the reorder bound is reported fresh but not retained), never
  moves the watermark back, and keeps the buffer within 8192 entries beyond the watermark.
\<close>

theorem record_refines_insert:
  assumes "tracker_inv rt" and "initDone rt" and "- 1 \<notin> insert sq (set (ahead rt))"
    and "record_seq sq rt = (fresh, rt')"
  shows "(fresh \<longleftrightarrow> sq \<notin> got rt)
    \<and> got rt' = (if sq \<in> got rt \<or> sq - expected rt \<le> maxReorderAhead then insert sq (got rt) else got rt)
    \<and> expected rt \<le> expected rt' \<and> expected rt' \<notin> got rt'
    \<and> tracker_inv rt' \<and> length (ahead rt') \<le> 8192"
  using record_got [OF assms] record_inv [OF assms(1,4)] tracker_bounded [OF record_inv(1) [OF assms(1,4)]]
  by (auto simp: got_def tracker_inv_def)

theorem record_refines_insert_witness:
  "record_seq 5 \<lparr>expected = 5, ahead = [7, 6], initDone = True, ackCount = 0\<rparr>
     = (True, \<lparr>expected = 8, ahead = [], initDone = True, ackCount = 0\<rparr>)
   \<and> (5 :: uint64) \<notin> got \<lparr>expected = 5, ahead = [7, 6], initDone = True, ackCount = 0\<rparr>"
proof -
  have r: "record_seq 5 \<lparr>expected = 5, ahead = [7, 6], initDone = True, ackCount = 0\<rparr>
     = (True, \<lparr>expected = 8, ahead = [], initDone = True, ackCount = 0\<rparr>)"
    by (simp add: record_seq_def advance.simps)
  moreover have "tracker_inv \<lparr>expected = 5, ahead = [7, 6], initDone = True, ackCount = 0\<rparr>"
    by (simp add: tracker_inv_def maxReorderAhead_def)
  ultimately show ?thesis using record_refines_insert [OF _ _ _ r] by simp
qed

text \<open>
  C7: whatever the network does to order and multiplicity, a tracker anchored at \<open>b\<close> that
  sees sequence numbers of its reorder window ends with the least number not received as its
  watermark, and the numbers it reported fresh are those that arrived, each reported once.
\<close>

theorem tracker_exactly_once:
  assumes "\<forall>x \<in> set xs. b \<le> x \<and> x - b \<le> maxReorderAhead" and "- 1 \<notin> set xs"
    and "recordAll xs (initExpected b newTracker) = (fs, rt)"
  shows "set (freshOnes fs xs) = set xs \<and> distinct (freshOnes fs xs)
     \<and> (\<forall>s. b \<le> s \<and> s < expected rt \<longrightarrow> s \<in> set xs) \<and> b \<le> expected rt \<and> expected rt \<notin> set xs"
proof -
  define rt0 where "rt0 = initExpected b newTracker"
  have rt0: "tracker_inv rt0" "initDone rt0" "expected rt0 = b" "got rt0 = {s. s < b}"
    by (simp_all add: rt0_def initExpected_def newTracker_def tracker_inv_def got_def)
  have nw: "- 1 \<notin> got rt0" using max_notin_below rt0(4) by simp
  have "\<forall>x \<in> set xs. x < expected rt0 \<or> x - expected rt0 \<le> maxReorderAhead"
    using assms(1) rt0(3) by simp
  note all = recordAll_got [OF rt0(1,2) assms(2) nw this assms(3) [folded rt0_def]]
  have ge: "x \<notin> {s. s < b}" if "x \<in> set xs" for x using assms(1) that by (auto simp: not_less)
  have got: "got rt = {s. s < b} \<union> set xs" using all rt0(4) by simp
  have "s \<in> set xs" if "b \<le> s" "s < expected rt" for s
  proof -
    have "s \<in> got rt" using that(2) by (simp add: got_def)
    then show ?thesis using got that(1) by (auto simp: not_less [symmetric])
  qed
  moreover have "expected rt \<notin> got rt" using all by (auto simp: tracker_inv_def got_def)
  ultimately show ?thesis using all got ge rt0(3,4) by auto
qed

theorem tracker_exactly_once_witness:
  "fst (recordAll [2, 1, 2, 3, 1] (initExpected 1 newTracker)) = [True, True, False, True, False]
   \<and> distinct (freshOnes [True, True, False, True, False] [2, 1, 2, 3, 1])
   \<and> expected (snd (recordAll [2, 1, 2, 3, 1] (initExpected 1 newTracker))) = 4"
proof -
  have r: "recordAll [2, 1, 2, 3, 1] (initExpected 1 newTracker) =
     ([True, True, False, True, False], \<lparr>expected = 4, ahead = [], initDone = True, ackCount = 0\<rparr>)"
    by (simp add: initExpected_def newTracker_def record_seq_def advance.simps maxReorderAhead_def)
  have "distinct (freshOnes [True, True, False, True, False] [2, 1, 2, 3, 1])"
    using tracker_exactly_once [OF _ _ r] by (simp add: maxReorderAhead_def)
  then show ?thesis by (simp only: r) simp
qed

text \<open>
  C20: the ACKNACK a reader computes from a HEARTBEAT's last sequence number requests exactly
  what is missing in its 32-number window: bit \<open>n\<close> is set if and only if \<open>base + n\<close> has been
  announced and not received, and an ACKNACK is needed whenever the reader is behind.
\<close>

theorem missing_exact:
  assumes "tracker_inv rt" and "initDone rt" and "unat (expected rt) + 31 < 2 ^ 64 - 1"
  shows "\<exists>bm na. missing lastSN rt = Some (expected rt, bm, na)
     \<and> (\<forall>n < 32. bit bm n \<longleftrightarrow> expected rt + of_nat n \<le> lastSN \<and> expected rt + of_nat n \<notin> got rt)
     \<and> (na \<longleftrightarrow> expected rt \<le> lastSN)"
proof (cases "expected rt \<le> lastSN")
  case False
  have u: "unat (expected rt + of_nat n) = unat (expected rt) + n" if "n < 32" for n
    using assms(3) that by (simp add: unat_plus_if' unat_of_nat64)
  have "missing lastSN rt = Some (expected rt, 0, False)"
    using False assms(2) by (simp add: missing_def not_le)
  moreover have "\<not> expected rt + of_nat n \<le> lastSN" if "n < 32" for n
    using False u [OF that] by (simp add: word_le_nat_alt)
  ultimately show ?thesis using False by auto
next
  case True
  have u: "unat (expected rt + of_nat n) = unat (expected rt) + n" if "n < 32" for n
    using assms(3) that by (simp add: unat_plus_if' unat_of_nat64)
  have "expected rt + 31 \<noteq> - 1" using u [of 31] assms(3) by (auto simp: unat_eq_max)
  with missing_window [OF assms(2) True] assms(3) obtain bm na where
    m: "missing lastSN rt = Some (expected rt, bm, na)"
    "\<And>n. n < 32 \<Longrightarrow> bit bm n \<longleftrightarrow> expected rt + of_nat n \<le> lastSN \<and> expected rt + of_nat n \<notin> set (ahead rt)"
    "na \<longleftrightarrow> bm \<noteq> 0" by auto
  have low: "\<not> expected rt + of_nat n < expected rt" if "n < 32" for n
    using u [OF that] by (simp add: word_less_nat_alt)
  have "bit bm 0" using m(2) [of 0] True assms(1) by (auto simp: tracker_inv_def)
  then have "bm \<noteq> 0" by auto
  then show ?thesis using m low True by (auto simp: got_def)
qed

theorem missing_exact_witness:
  "\<exists>bm na. missing 9 \<lparr>expected = 5, ahead = [7], initDone = True, ackCount = 0\<rparr> = Some (5, bm, na)
     \<and> bit bm 1 \<and> \<not> bit bm 2 \<and> bit bm 4 \<and> \<not> bit bm 5 \<and> na"
proof -
  define rt where "rt = \<lparr>expected = 5, ahead = [7], initDone = True, ackCount = 0\<rparr>"
  have "tracker_inv rt" "initDone rt" "unat (expected rt) + 31 < 2 ^ 64 - 1"
    by (simp_all add: rt_def tracker_inv_def maxReorderAhead_def)
  from missing_exact [OF this, of 9] obtain bm na where
    m: "missing 9 rt = Some (5, bm, na)" "na"
    "\<And>n. n < 32 \<Longrightarrow> bit bm n \<longleftrightarrow> 5 + of_nat n \<le> (9 :: uint64) \<and> 5 + of_nat n \<notin> got rt"
    by (auto simp: rt_def)
  have "bit bm 1" "\<not> bit bm 2" "bit bm 4" "\<not> bit bm 5"
    by (simp_all add: m(3) got_def rt_def)
  with m(1,2) show ?thesis by (auto simp: rt_def)
qed

text \<open>
  C32: the loop of \<^verbatim>\<open>missing\<close> runs forever in exactly one situation: a tracker whose
  watermark is \<open>2\<^sup>6\<^sup>4 - 32\<close> asked about the last sequence number \<open>2\<^sup>6\<^sup>4 - 1\<close>, which one
  HEARTBEAT with those bounds produces on first contact. It returns in all others.
\<close>

theorem missing_returns_iff:
  "(\<exists>r. missing lastSN rt = Some r) \<longleftrightarrow> \<not> (initDone rt \<and> expected rt = - 32 \<and> lastSN = - 1)"
  using missing_None [of lastSN rt] by auto

end
