(* ===== verification/Rtps_Fragment.thy ===== *)
theory Rtps_Fragment
  imports Rtps_Message
begin

text \<open>
  Fragmentation of large payloads (\<^verbatim>\<open>src/rtps/fragment.go\<close>): the DATA\_FRAG submessage, the
  splitter a writer uses, and the assembler that reassembles fragments per writer and
  sequence number. The assembler is shown to refine a set of received fragment indices per
  message.
\<close>

section \<open>Definitions\<close>

definition maxFragmentPayload :: int where "maxFragmentPayload = 1200"
definition maxReassemblyBytes :: uint64 where "maxReassemblyBytes = 16 * 1024 * 1024"
definition staleFragAge :: duration where "staleFragAge = 5 * second"
definition submsgDATAFRAG :: byte where "submsgDATAFRAG = 0x16"

record DataFrag =
  dfWriter :: EntityId
  dfReader :: EntityId
  dfSeqNum :: SequenceNumber
  FragmentStartingNum :: uint32
  FragmentsInSubmsg :: uint16
  FragmentSize :: uint16
  DataSize :: uint32
  dfPayload :: bytes

definition dataFragBody :: "DataFrag \<Rightarrow> bytes" where
  "dataFragBody f =
     PutUint16 0 @ PutUint16 0 @ dfReader f @ dfWriter f
     @ PutUint32 (High (dfSeqNum f)) @ PutUint32 (Low (dfSeqNum f))
     @ PutUint32 (FragmentStartingNum f) @ PutUint16 (FragmentsInSubmsg f)
     @ PutUint16 (FragmentSize f) @ PutUint32 (DataSize f) @ dfPayload f"

definition marshalDataFrag :: "DataFrag \<Rightarrow> bytes" where
  "marshalDataFrag f =
     [submsgDATAFRAG, flagEndianness] @ PutUint16 (word_of_nat (length (dataFragBody f))) @ dataFragBody f"

definition parseDataFrag :: "bytes \<Rightarrow> DataFrag option" where
  "parseDataFrag body =
     (if length body < 32 then None
      else Some \<lparr>dfWriter = slice 8 12 body, dfReader = slice 4 8 body,
        dfSeqNum = \<lparr>High = Uint32 (drop 12 body), Low = Uint32 (drop 16 body)\<rparr>,
        FragmentStartingNum = Uint32 (drop 20 body), FragmentsInSubmsg = Uint16 (drop 24 body),
        FragmentSize = Uint16 (drop 26 body), DataSize = Uint32 (drop 28 body),
        dfPayload = drop 32 body\<rparr>)"

definition wf_datafrag :: "DataFrag \<Rightarrow> bool" where
  "wf_datafrag f \<longleftrightarrow> wf_eid (dfReader f) \<and> wf_eid (dfWriter f) \<and> length (dfPayload f) \<le> 65503"

subsection \<open>Reassembly\<close>

type_synonym fragKey = "EntityId \<times> uint64"

record fragBuffer =
  fb_data :: bytes
  seen :: "bool list"
  received :: uint32
  fb_total :: uint32
  created :: gotime

type_synonym fragmentAssembler = "(fragKey \<times> fragBuffer) list"

definition fragKeyOf :: "DataFrag \<Rightarrow> fragKey" where
  "fragKeyOf f = (dfWriter f, snToU64 (dfSeqNum f))"

text \<open>
  One turn of the copy loop over the fragments of a submessage, at counter \<open>i\<close>: it leaves the
  loop, goes on with a buffer, or panics on a slice expression whose bounds are out of order.
\<close>

datatype copy_step = CopyBreak | CopyNext fragBuffer | CopyPanic

definition copyFrag :: "DataFrag \<Rightarrow> nat \<Rightarrow> fragBuffer \<Rightarrow> copy_step" where
  "copyFrag f i fb =
     (let gi = (FragmentStartingNum f - 1) + word_of_nat i in
      if gi \<ge> fb_total fb then CopyBreak
      else if seen fb ! unat gi then CopyNext fb
      else
        let fsize = ucast (FragmentSize f) :: uint32; offset = gi * fsize in
        if offset \<ge> DataSize f then CopyBreak
        else
          let fragStart = word_of_nat i * fsize;
              fragEnd0 = fragStart + fsize;
              plen = word_of_nat (length (dfPayload f)) :: uint32;
              fragEnd = (if fragEnd0 > plen then plen else fragEnd0);
              end0 = offset + (fragEnd - fragStart);
              stop = (if end0 > DataSize f then DataSize f else end0)
          in if unat stop < unat offset \<or> length (fb_data fb) < unat stop
               \<or> unat fragEnd < unat fragStart \<or> length (dfPayload f) < unat fragEnd then CopyPanic
             else
               let src = slice (unat fragStart) (unat fragEnd) (dfPayload f);
                   n = min (unat stop - unat offset) (length src)
               in CopyNext
                    (fb\<lparr>fb_data := take (unat offset) (fb_data fb) @ take n src
                            @ drop (unat offset + n) (fb_data fb),
                        seen := (seen fb)[unat gi := True], received := received fb + 1\<rparr>))"

text \<open>The loop over the counter values \<open>is\<close>; \<open>None\<close> is the panic.\<close>

primrec copyFrags :: "DataFrag \<Rightarrow> nat list \<Rightarrow> fragBuffer \<Rightarrow> fragBuffer option" where
  "copyFrags f [] fb = Some fb"
| "copyFrags f (i # is) fb =
     (case copyFrag f i fb of
        CopyBreak \<Rightarrow> Some fb
      | CopyNext fb' \<Rightarrow> copyFrags f is fb'
      | CopyPanic \<Rightarrow> None)"

definition evictStale :: "gotime \<Rightarrow> fragmentAssembler \<Rightarrow> fragmentAssembler" where
  "evictStale now bufs = filter (\<lambda>(k, b). \<not> timeSub now (created b) > staleFragAge) bufs"

definition receive :: "gotime \<Rightarrow> DataFrag \<Rightarrow> fragmentAssembler \<Rightarrow> (fragmentAssembler \<times> bytes option) option" where
  "receive now f bufs =
     (if FragmentSize f = 0 \<or> DataSize f = 0 \<or> FragmentsInSubmsg f = 0 then Some (bufs, None)
      else if FragmentStartingNum f = 0 then Some (bufs, None)
      else if ucast (DataSize f) > maxReassemblyBytes then Some (bufs, None)
      else
        let total = (DataSize f + ucast (FragmentSize f) - 1) div ucast (FragmentSize f);
            key = fragKeyOf f;
            bufs1 = evictStale now bufs;
            fb0 = (case map_of bufs1 key of
                     Some fb \<Rightarrow> fb
                   | None \<Rightarrow> \<lparr>fb_data = replicate (unat (DataSize f)) 0,
                       seen = replicate (unat total) False, received = 0, fb_total = total,
                       created = now\<rparr>)
        in case copyFrags f [0..<unat (FragmentsInSubmsg f)] fb0 of
             None \<Rightarrow> None
           | Some fb \<Rightarrow>
               if received fb \<ge> fb_total fb then Some (AList.delete key bufs1, Some (fb_data fb))
               else Some (AList.update key fb bufs1, None))"

subsection \<open>Splitting\<close>

text \<open>The loop of the splitter; it is only entered with a positive size.\<close>

function splitLoop :: "EntityId \<Rightarrow> SequenceNumber \<Rightarrow> bytes \<Rightarrow> uint16 \<Rightarrow> nat \<Rightarrow> uint32 \<Rightarrow> DataFrag list" where
  "splitLoop w sn payload fsz offset fragNum =
     (if fsz = 0 \<or> length payload \<le> offset then []
      else
        let stop = min (offset + unat fsz) (length payload) in
        \<lparr>dfWriter = w, dfReader = EntityIdUnknown, dfSeqNum = sn, FragmentStartingNum = fragNum,
         FragmentsInSubmsg = 1, FragmentSize = fsz, DataSize = word_of_nat (length payload),
         dfPayload = slice offset stop payload\<rparr> # splitLoop w sn payload fsz stop (fragNum + 1))"
  by pat_completeness auto
termination
proof (relation "measure (\<lambda>(w, sn, payload, fsz, offset, fragNum). length payload - offset)", goal_cases)
  case 1
  show ?case by simp
next
  case (2 w sn payload fsz offset fragNum stop)
  then have "0 < unat fsz" by (simp add: unat_gt_0)
  with 2 show ?case by (simp add: min_def) linarith
qed

declare splitLoop.simps [simp del]

text \<open>The size is truncated to 16 bits; \<open>None\<close> is the panic of the division when that leaves zero.\<close>

definition splitIntoFragmentsN :: "EntityId \<Rightarrow> SequenceNumber \<Rightarrow> bytes \<Rightarrow> int \<Rightarrow> DataFrag list option" where
  "splitIntoFragmentsN w sn payload maxPayloadSize =
     (let maxp = (if maxPayloadSize \<le> 0 then maxFragmentPayload else maxPayloadSize);
          fsz = word_of_int maxp :: uint16
      in if fsz = 0 then None else Some (splitLoop w sn payload fsz 0 1))"

definition splitIntoFragments :: "EntityId \<Rightarrow> SequenceNumber \<Rightarrow> bytes \<Rightarrow> DataFrag list option" where
  "splitIntoFragments w sn payload = splitIntoFragmentsN w sn payload maxFragmentPayload"

section \<open>The submessage\<close>

interpretation datafragf: submsg_codec marshalDataFrag dataFragBody submsgDATAFRAG
  "\<lambda>_. flagEndianness" wf_datafrag "\<lambda>_ b. parseDataFrag b"
proof (unfold_locales, goal_cases)
  case (1 x)
  show ?case by (simp add: marshalDataFrag_def)
next
  case (2 x)
  show ?case by (simp add: flagEndianness_def)
next
  case (3 x)
  then show ?case by (simp add: dataFragBody_def wf_datafrag_def wf_eid_def)
next
  case (4 x)
  then show ?case
    by (cases x) (auto simp: dataFragBody_def parseDataFrag_def wf_datafrag_def wf_eid_def)
qed

section \<open>Splitting\<close>

text \<open>The payloads and fragment sizes a receiver accepts, and the fragments of a payload.\<close>

definition frag_ok :: "bytes \<Rightarrow> nat \<Rightarrow> bool" where
  "frag_ok P s \<longleftrightarrow> 0 < s \<and> s < 65536 \<and> P \<noteq> [] \<and> length P \<le> 16777216"

definition nfrags :: "bytes \<Rightarrow> nat \<Rightarrow> nat" where
  "nfrags P s = (length P + s - 1) div s"

definition fragAt :: "EntityId \<Rightarrow> SequenceNumber \<Rightarrow> bytes \<Rightarrow> nat \<Rightarrow> nat \<Rightarrow> DataFrag" where
  "fragAt w sn P s i =
     \<lparr>dfWriter = w, dfReader = EntityIdUnknown, dfSeqNum = sn, FragmentStartingNum = of_nat (Suc i),
      FragmentsInSubmsg = 1, FragmentSize = of_nat s, DataSize = of_nat (length P),
      dfPayload = take s (drop (i * s) P)\<rparr>"

lemma nfrags_iff:
  assumes "0 < s"
  shows "i < nfrags P s \<longleftrightarrow> i * s < length P"
proof -
  have "i < nfrags P s \<longleftrightarrow> Suc i \<le> (length P + s - 1) div s" by (simp add: nfrags_def Suc_le_eq)
  also have "\<dots> \<longleftrightarrow> Suc i * s \<le> length P + s - 1" using assms by (simp add: less_eq_div_iff_mult_less_eq)
  also have "\<dots> \<longleftrightarrow> i * s < length P" using assms by auto
  finally show ?thesis .
qed

lemma div_nfrags: "0 < s \<Longrightarrow> j < length P \<Longrightarrow> j div s < nfrags P s"
  using div_times_less_eq_dividend [of j s] by (simp only: nfrags_iff)

lemma unat_ucast32: "unat (ucast (x :: uint32) :: uint64) = unat x"
proof -
  have "unat x < 2 ^ 64" using unsigned_less [of x, where 'a = nat] by simp
  then show ?thesis by (simp add: unsigned_ucast_eq take_bit_nat_eq_self)
qed

lemma splitLoop_fragAt:
  assumes "0 < s" and "s < 65536"
  shows "splitLoop w sn P (of_nat s) (min (k * s) (length P)) (of_nat (Suc k))
     = map (fragAt w sn P s) [k..<nfrags P s]"
proof (induction "nfrags P s - k" arbitrary: k)
  case 0
  then have "length P \<le> k * s" using nfrags_iff [OF assms(1), of k P] by simp
  with 0 show ?case by (subst splitLoop.simps) simp
next
  case (Suc d)
  then have k: "k < nfrags P s" "d = nfrags P s - Suc k" by simp_all
  then have lt: "k * s < length P" using nfrags_iff [OF assms(1)] by simp
  have us: "unat (of_nat s :: uint16) = s" using assms(2) by (intro unat_of_nat16) simp
  then have ne: "(of_nat s :: uint16) \<noteq> 0" using assms(1) by (metis unat_0 less_irrefl)
  have stop: "min (k * s + s) (length P) = min (Suc k * s) (length P)" by (simp add: add.commute)
  have num: "(of_nat (Suc k) :: uint32) + 1 = of_nat (Suc (Suc k))" by simp
  have "slice (k * s) (min (k * s + s) (length P)) P = take s (drop (k * s) P)"
    by (simp add: slice_def min_def)
  then show ?case
    using Suc.hyps(1) [OF k(2)] lt ne k(1)
    by (subst splitLoop.simps)
      (simp add: us stop num fragAt_def upt_conv_Cons del: of_nat_Suc)
qed

lemma splitIntoFragmentsN_eq:
  assumes "0 < s" and "s < 65536"
  shows "splitIntoFragmentsN w sn P (int s) = Some (map (fragAt w sn P s) [0..<nfrags P s])"
proof -
  have "unat (of_nat s :: uint16) = s" using assms(2) by (intro unat_of_nat16) simp
  then have "(of_nat s :: uint16) \<noteq> 0" using assms(1) by (metis unat_0 less_irrefl)
  then show ?thesis
    using splitLoop_fragAt [OF assms, of w sn P 0] assms(1)
    by (simp add: splitIntoFragmentsN_def Let_def)
qed

section \<open>Reassembly\<close>

text \<open>A buffer holds the fragments of \<open>P\<close> whose indices are in \<open>S\<close>.\<close>

definition buf_rep :: "fragBuffer \<Rightarrow> bytes \<Rightarrow> nat \<Rightarrow> nat set \<Rightarrow> bool" where
  "buf_rep fb P s S \<longleftrightarrow>
     length (fb_data fb) = length P \<and> fb_total fb = of_nat (nfrags P s) \<and> length (seen fb) = nfrags P s
   \<and> S \<subseteq> {..<nfrags P s} \<and> (\<forall>i < nfrags P s. seen fb ! i \<longleftrightarrow> i \<in> S) \<and> received fb = of_nat (card S)
   \<and> (\<forall>j < length P. j div s \<in> S \<longrightarrow> fb_data fb ! j = P ! j)"

lemma nfrags_le: "0 < s \<Longrightarrow> nfrags P s \<le> length P"
  by (metis nfrags_iff linorder_not_le mult_le_mono2 nat_mult_1_right Suc_leI One_nat_def)

lemma copyFrags_dup:
  assumes "frag_ok P s" and "buf_rep fb P s S" and "i \<in> S"
  shows "copyFrags (fragAt w sn P s i) [0] fb = Some fb"
proof -
  have i: "i < nfrags P s" using assms(2,3) by (auto simp: buf_rep_def)
  have "nfrags P s < 2 ^ 32"
    using nfrags_le [of s P] assms(1) by (simp add: frag_ok_def)
  then have "unat (of_nat i :: uint32) = i" using i by (intro unat_of_nat32) simp
  moreover have "seen fb ! i" using assms(2,3) i by (simp add: buf_rep_def)
  ultimately show ?thesis by (simp add: copyFrag_def fragAt_def Let_def)
qed

lemma copyFrags_new:
  assumes ok: "frag_ok P s" and rep: "buf_rep fb P s S" and i: "i < nfrags P s" "i \<notin> S"
    and n: "n = min s (length P - i * s)"
  shows "copyFrags (fragAt w sn P s i) [0] fb = Some (fb\<lparr>
      fb_data := take (i * s) (fb_data fb) @ take n (drop (i * s) P) @ drop (i * s + n) (fb_data fb),
      seen := (seen fb)[i := True], received := received fb + 1\<rparr>)"
proof -
  have s: "0 < s" "s < 65536" and len: "length P \<le> 16777216" using ok by (auto simp: frag_ok_def)
  have off: "i * s < length P" using i(1) nfrags_iff [OF s(1)] by simp
  have n2: "n \<le> s" "i * s + n \<le> length P" using off n by auto
  have tot: "nfrags P s < 2 ^ 32" using nfrags_le [OF s(1), of P] len by simp
  have un: "unat (of_nat i :: uint32) = i" "unat (of_nat (nfrags P s) :: uint32) = nfrags P s"
    "unat (of_nat (length P) :: uint32) = length P" "unat (of_nat s :: uint32) = s"
    "unat (of_nat (i * s) :: uint32) = i * s" "unat (of_nat n :: uint32) = n"
    "unat (of_nat (i * s + n) :: uint32) = i * s + n"
    using i(1) tot len s off n2 by (intro unat_of_nat32; simp)+
  define f where "f = fragAt w sn P s i"
  have us: "(ucast (FragmentSize f) :: uint32) = of_nat s"
    using s by (simp add: f_def fragAt_def unsigned_of_nat take_bit_nat_eq_self)
  have plen: "length (dfPayload f) = n" by (simp add: f_def fragAt_def n)
  have idx: "FragmentStartingNum f - 1 + word_of_nat 0 = of_nat i" by (simp add: f_def fragAt_def)
  have start: "word_of_nat 0 * (of_nat s :: uint32) = 0" "(0 :: uint32) + of_nat s = of_nat s"
    "(of_nat n :: uint32) - 0 = of_nat n" by simp_all
  have mul: "(of_nat i :: uint32) * of_nat s = of_nat (i * s)" by simp
  have plus: "(of_nat (i * s) :: uint32) + of_nat n = of_nat (i * s + n)" by simp
  have size: "DataSize f = of_nat (length P)" by (simp add: f_def fragAt_def)
  have c1: "\<not> of_nat i \<ge> fb_total fb" using rep i(1) un by (simp add: buf_rep_def word_le_nat_alt)
  have c2: "\<not> seen fb ! i" using rep i by (simp add: buf_rep_def)
  have c3: "\<not> (of_nat (i * s) :: uint32) \<ge> of_nat (length P)"
    unfolding word_le_nat_alt un using off by simp
  have c4: "(if (of_nat s :: uint32) > of_nat n then of_nat n else of_nat s) = (of_nat n :: uint32)"
    using un(4,6) n2(1) by (auto simp: word_less_nat_alt)
  have c5: "\<not> (of_nat (i * s + n) :: uint32) > of_nat (length P)"
    unfolding word_less_nat_alt un using n2 by simp
  have dl: "length (fb_data fb) = length P" using rep by (simp add: buf_rep_def)
  have src: "slice 0 n (dfPayload f) = take n (drop (i * s) P)"
    by (simp add: slice_def f_def fragAt_def n)
  have lsrc: "length (take n (drop (i * s) P)) = n" using n2 by simp
  have ok2: "\<not> (i * s + n < i * s \<or> length P < i * s + n \<or> n < 0 \<or> n < n)" using n2 by simp
  have "copyFrag f 0 fb = CopyNext (fb\<lparr>
      fb_data := take (i * s) (fb_data fb) @ take n (drop (i * s) P) @ drop (i * s + n) (fb_data fb),
      seen := (seen fb)[i := True], received := received fb + 1\<rparr>)"
    unfolding copyFrag_def Let_def idx us start mul size plen c4 plus
    by (simp only: c1 c2 c3 c5 un if_False unat_0 dl ok2 src lsrc add_diff_cancel_left' min.idem take_take)
  then show ?thesis by (simp add: f_def)
qed

lemma buf_rep_insert:
  assumes ok: "frag_ok P s" and rep: "buf_rep fb P s S" and i: "i < nfrags P s" "i \<notin> S"
    and n: "n = min s (length P - i * s)"
  shows "buf_rep (fb\<lparr>
      fb_data := take (i * s) (fb_data fb) @ take n (drop (i * s) P) @ drop (i * s + n) (fb_data fb),
      seen := (seen fb)[i := True], received := received fb + 1\<rparr>) P s (insert i S)"
proof -
  have s: "0 < s" using ok by (simp add: frag_ok_def)
  have off: "i * s < length P" using i(1) nfrags_iff [OF s] by simp
  have dl: "length (fb_data fb) = length P" using rep by (simp add: buf_rep_def)
  have fin: "finite S" using rep by (auto simp: buf_rep_def intro: finite_subset)
  define d where "d = take (i * s) (fb_data fb) @ take n (drop (i * s) P) @ drop (i * s + n) (fb_data fb)"
  have ld: "length d = length P" using off dl n by (simp add: d_def)
  have "d ! j = P ! j" if j: "j < length P" "j div s \<in> insert i S" for j
  proof (cases "i * s \<le> j \<and> j < i * s + n")
    case True
    moreover have "length (take n (drop (i * s) P)) = n" using off n by simp
    moreover have "j - i * s < n" using True by linarith
    ultimately show ?thesis using off dl by (simp add: d_def nth_append)
  next
    case False
    have "j div s \<noteq> i"
    proof
      assume "j div s = i"
      then have "i * s \<le> j" "j < i * s + s"
        using div_times_less_eq_dividend [of j s] dividend_less_div_times [OF s, of j] by (auto simp: add.commute)
      with False j(1) show False using n by (simp add: min_def split: if_splits)
    qed
    then have "fb_data fb ! j = P ! j" using rep j by (auto simp: buf_rep_def)
    moreover have "d ! j = fb_data fb ! j"
      using False off dl j(1) n by (auto simp: d_def nth_append min_def)
    ultimately show ?thesis by simp
  qed
  moreover have "(seen fb)[i := True] ! k \<longleftrightarrow> k \<in> insert i S" if "k < nfrags P s" for k
    using rep that i by (auto simp: buf_rep_def nth_list_update)
  ultimately show ?thesis
    using rep i ld fin by (auto simp: buf_rep_def d_def [symmetric])
qed

lemma copyFrags_rep:
  assumes "frag_ok P s" and "buf_rep fb P s S" and "i < nfrags P s"
  shows "\<exists>fb'. copyFrags (fragAt w sn P s i) [0] fb = Some fb' \<and> buf_rep fb' P s (insert i S)
     \<and> created fb' = created fb"
proof (cases "i \<in> S")
  case True
  then show ?thesis using copyFrags_dup [OF assms(1,2) True] assms(2) by (auto simp: insert_absorb)
next
  case False
  then show ?thesis
    using copyFrags_new [OF assms False refl] buf_rep_insert [OF assms False refl] by auto
qed

lemma buf_rep_new:
  assumes "frag_ok P s"
  shows "buf_rep \<lparr>fb_data = replicate (length P) 0, seen = replicate (nfrags P s) False,
      received = 0, fb_total = of_nat (nfrags P s), created = t\<rparr> P s {}"
  by (simp add: buf_rep_def)

lemma total_words:
  assumes "frag_ok P s"
  shows "(DataSize (fragAt w sn P s i) + ucast (FragmentSize (fragAt w sn P s i)) - 1)
      div ucast (FragmentSize (fragAt w sn P s i)) = (of_nat (nfrags P s) :: uint32)"
proof -
  have s: "0 < s" "s < 65536" "length P \<le> 16777216" using assms by (auto simp: frag_ok_def)
  have us: "(ucast (of_nat s :: uint16) :: uint32) = of_nat s"
    using s by (simp add: unsigned_of_nat take_bit_nat_eq_self)
  have sum: "(of_nat (length P) :: uint32) + of_nat s - 1 = of_nat (length P + s - 1)"
    using s by simp
  have "unat ((of_nat (length P + s - 1) :: uint32) div of_nat s) = (length P + s - 1) div s"
    using s unat_of_nat32 [of "length P + s - 1"] unat_of_nat32 [of s] by (simp add: unat_div_distrib)
  moreover have "unat (of_nat (nfrags P s) :: uint32) = nfrags P s"
    using nfrags_le [OF s(1), of P] s(3) by (intro unat_of_nat32) simp
  ultimately show ?thesis
    by (simp only: fragAt_def DataFrag.select_convs us sum word_unat_eq_iff nfrags_def)
qed

lemma buf_rep_complete:
  assumes "frag_ok P s" and "buf_rep fb P s S"
  shows "fb_total fb \<le> received fb \<longleftrightarrow> S = {..<nfrags P s}"
    and "S = {..<nfrags P s} \<Longrightarrow> fb_data fb = P"
proof -
  have s: "0 < s" and len: "length P \<le> 16777216" using assms(1) by (auto simp: frag_ok_def)
  have n: "nfrags P s < 2 ^ 32" using nfrags_le [OF s, of P] len by simp
  have sub: "S \<subseteq> {..<nfrags P s}" using assms(2) by (simp add: buf_rep_def)
  then have card: "card S \<le> nfrags P s" using card_mono [of "{..<nfrags P s}" S] by simp
  have "unat (received fb) = card S" "unat (fb_total fb) = nfrags P s"
    using assms(2) n card by (simp_all add: buf_rep_def unat_of_nat32)
  then have "fb_total fb \<le> received fb \<longleftrightarrow> card S = nfrags P s"
    using card by (auto simp: word_le_nat_alt)
  also have "\<dots> \<longleftrightarrow> S = {..<nfrags P s}"
    using sub card_subset_eq [of "{..<nfrags P s}" S] by auto
  finally show "fb_total fb \<le> received fb \<longleftrightarrow> S = {..<nfrags P s}" .
  show "fb_data fb = P" if "S = {..<nfrags P s}"
    using assms(2) that div_nfrags [OF s] by (auto simp: buf_rep_def intro!: nth_equalityI)
qed

text \<open>
  What an assembler knows, as an abstract state: the indices received of each message still
  incomplete. \<open>msg\<close> gives the payload each writer and sequence number stands for.
\<close>

definition asm_abs :: "fragmentAssembler \<Rightarrow> fragKey \<Rightarrow> nat set" where
  "asm_abs bufs k = (case map_of bufs k of None \<Rightarrow> {} | Some fb \<Rightarrow> {i. i < length (seen fb) \<and> seen fb ! i})"

definition asm_inv :: "(fragKey \<Rightarrow> bytes) \<Rightarrow> nat \<Rightarrow> fragmentAssembler \<Rightarrow> bool" where
  "asm_inv msg s bufs \<longleftrightarrow> distinct (map fst bufs)
     \<and> (\<forall>k fb. map_of bufs k = Some fb \<longrightarrow>
          (\<exists>S. buf_rep fb (msg k) s S \<and> S \<noteq> {..<nfrags (msg k) s}))"

definition ctimes :: "fragmentAssembler \<Rightarrow> gotime set" where
  "ctimes bufs = {created b | k b. map_of bufs k = Some b}"

lemma buf_rep_seen: "buf_rep fb P s S \<Longrightarrow> {i. i < length (seen fb) \<and> seen fb ! i} = S"
  by (auto simp: buf_rep_def)

lemma ctimesI: "map_of bufs k = Some b \<Longrightarrow> created b \<in> ctimes bufs"
  unfolding ctimes_def by blast

lemma ctimes_delete: "ctimes (AList.delete k bufs) \<subseteq> ctimes bufs"
  by (auto simp: ctimes_def split: if_splits)

lemma ctimes_update: "ctimes (AList.update k fb bufs) \<subseteq> insert (created fb) (ctimes bufs)"
  by (auto simp: ctimes_def split: if_splits)

lemma evictStale_id:
  assumes "distinct (map fst bufs)" and "\<forall>t \<in> ctimes bufs. timeSub now t \<le> staleFragAge"
  shows "evictStale now bufs = bufs"
proof -
  have "timeSub now (created b) \<le> staleFragAge" if "(k, b) \<in> set bufs" for k b
    using assms ctimesI map_of_is_SomeI [OF assms(1) that] by blast
  then show ?thesis unfolding evictStale_def filter_id_conv by (auto simp: not_less)
qed

lemma map_of_filter_distinct:
  "distinct (map fst xs) \<Longrightarrow> map_of (filter P xs) k = Some v \<Longrightarrow> map_of xs k = Some v"
  by (auto simp: distinct_map_filter dest!: map_of_SomeD)

lemma ctimes_evict: "distinct (map fst bufs) \<Longrightarrow> ctimes (evictStale now bufs) \<subseteq> ctimes bufs"
  unfolding ctimes_def evictStale_def by (blast dest: map_of_filter_distinct)

lemma asm_inv_evict: "asm_inv msg s bufs \<Longrightarrow> asm_inv msg s (evictStale now bufs)"
  unfolding asm_inv_def evictStale_def
  by (auto simp: distinct_map_filter dest: map_of_filter_distinct)

lemma fragAt_accepted:
  fixes w :: EntityId and sn :: SequenceNumber
  assumes "frag_ok P s" and "i < nfrags P s"
  defines "f \<equiv> fragAt w sn P s i"
  shows "FragmentSize f \<noteq> 0" "DataSize f \<noteq> 0" "FragmentsInSubmsg f = 1" "FragmentStartingNum f \<noteq> 0"
    "\<not> ucast (DataSize f) > maxReassemblyBytes" "unat (DataSize f) = length P"
proof -
  have s: "0 < s" "s < 65536" "length P \<le> 16777216" "P \<noteq> []"
    using assms(1) by (auto simp: frag_ok_def)
  show size: "unat (DataSize f) = length P" using s by (simp add: f_def fragAt_def unat_of_nat32)
  show "FragmentSize f \<noteq> 0" using s unat_of_nat16 [of s] by (auto simp: f_def fragAt_def)
  show "DataSize f \<noteq> 0" using s size by auto
  show "FragmentsInSubmsg f = 1" by (simp add: f_def fragAt_def)
  have "unat (of_nat (Suc i) :: uint32) = Suc i"
    using assms(2) nfrags_le [OF s(1), of P] s(3) by (intro unat_of_nat32) simp
  then show "FragmentStartingNum f \<noteq> 0" by (auto simp: f_def fragAt_def simp del: of_nat_Suc)
  show "\<not> ucast (DataSize f) > maxReassemblyBytes"
    using size s by (simp add: word_less_nat_alt maxReassemblyBytes_def unat_ucast32)
qed

definition bufferFor :: "gotime \<Rightarrow> bytes \<Rightarrow> nat \<Rightarrow> fragmentAssembler \<Rightarrow> fragKey \<Rightarrow> fragBuffer" where
  "bufferFor now P s bufs k = (case map_of bufs k of Some fb \<Rightarrow> fb
      | None \<Rightarrow> \<lparr>fb_data = replicate (length P) 0, seen = replicate (nfrags P s) False,
                received = 0, fb_total = of_nat (nfrags P s), created = now\<rparr>)"

lemma receive_fragAt:
  assumes ok: "frag_ok P s" and i: "i < nfrags P s" and k: "k = (w, snToU64 sn)"
    and copy: "copyFrags (fragAt w sn P s i) [0] (bufferFor now P s (evictStale now bufs) k) = Some fb"
  shows "receive now (fragAt w sn P s i) bufs = (if fb_total fb \<le> received fb
      then Some (AList.delete k (evictStale now bufs), Some (fb_data fb))
      else Some (AList.update k fb (evictStale now bufs), None))"
proof -
  have key: "fragKeyOf (fragAt w sn P s i) = k" by (simp add: fragKeyOf_def fragAt_def k)
  have un: "unat (of_nat (nfrags P s) :: uint32) = nfrags P s"
    using nfrags_le [of s P] ok by (intro unat_of_nat32) (simp add: frag_ok_def)
  note acc = fragAt_accepted [OF ok i, of w sn]
  have new: "(case map_of (evictStale now bufs) k of Some fb \<Rightarrow> fb
      | None \<Rightarrow> \<lparr>fb_data = replicate (unat (DataSize (fragAt w sn P s i))) 0,
           seen = replicate (unat (of_nat (nfrags P s) :: uint32)) False, received = 0,
           fb_total = of_nat (nfrags P s), created = now\<rparr>) = bufferFor now P s (evictStale now bufs) k"
    by (simp only: bufferFor_def un acc(6))
  show ?thesis
    using copy acc
    by (simp add: receive_def Let_def key total_words [OF ok] new del: copyFrags.simps)
qed

lemma bufferFor_rep:
  assumes "asm_inv msg s bufs" and "frag_ok (msg k) s"
  shows "buf_rep (bufferFor now (msg k) s bufs k) (msg k) s (asm_abs bufs k)"
proof (cases "map_of bufs k")
  case None
  then show ?thesis using buf_rep_new [OF assms(2)] by (simp add: bufferFor_def asm_abs_def)
next
  case (Some fb)
  then obtain S where "buf_rep fb (msg k) s S"
    using assms(1) unfolding asm_inv_def by blast
  then show ?thesis using Some by (simp add: bufferFor_def asm_abs_def buf_rep_seen)
qed

lemma receive_step:
  fixes now :: gotime
  assumes inv: "asm_inv msg s bufs" and ok: "frag_ok (msg k) s" and k: "k = (w, snToU64 sn)"
    and i: "i < nfrags (msg k) s"
  defines "bufs1 \<equiv> evictStale now bufs"
  defines "S \<equiv> insert i (asm_abs bufs1 k)"
  shows "\<exists>bufs'. receive now (fragAt w sn (msg k) s i) bufs
      = Some (bufs', if S = {..<nfrags (msg k) s} then Some (msg k) else None)
    \<and> asm_inv msg s bufs'
    \<and> asm_abs bufs' = (asm_abs bufs1)(k := if S = {..<nfrags (msg k) s} then {} else S)
    \<and> ctimes bufs' \<subseteq> insert now (ctimes bufs)"
proof -
  have inv1: "asm_inv msg s bufs1" unfolding bufs1_def by (rule asm_inv_evict [OF inv])
  from copyFrags_rep [OF ok bufferFor_rep [OF inv1 ok] i, of w sn now] obtain fb' where
    fb': "copyFrags (fragAt w sn (msg k) s i) [0] (bufferFor now (msg k) s bufs1 k) = Some fb'"
      "buf_rep fb' (msg k) s S" "created fb' = created (bufferFor now (msg k) s bufs1 k)"
    by (auto simp: S_def)
  have "ctimes bufs1 \<subseteq> ctimes bufs" using inv by (simp add: bufs1_def ctimes_evict asm_inv_def)
  moreover have "created fb' \<in> insert now (ctimes bufs1)"
    using fb'(3) by (auto simp: bufferFor_def intro: ctimesI split: option.splits)
  ultimately have times: "ctimes (AList.delete k bufs1) \<subseteq> insert now (ctimes bufs)"
    "ctimes (AList.update k fb' bufs1) \<subseteq> insert now (ctimes bufs)"
    using ctimes_delete [of k bufs1] ctimes_update [of k fb' bufs1] by blast+
  note recv = receive_fragAt [OF ok i k fb'(1) [unfolded bufs1_def], folded bufs1_def]
  note full = buf_rep_complete [OF ok fb'(2)]
  show ?thesis
  proof (cases "S = {..<nfrags (msg k) s}")
    case True
    moreover have "asm_inv msg s (AList.delete k bufs1)"
      using inv1 by (auto simp: asm_inv_def distinct_delete split: if_splits)
    moreover have "asm_abs (AList.delete k bufs1) = (asm_abs bufs1)(k := {})"
      by (auto simp: asm_abs_def fun_eq_iff)
    ultimately show ?thesis using recv full times by auto
  next
    case False
    moreover have "asm_inv msg s (AList.update k fb' bufs1)"
      using inv1 fb'(2) False by (auto simp: asm_inv_def distinct_update split: if_splits)
    moreover have "asm_abs (AList.update k fb' bufs1) = (asm_abs bufs1)(k := S)"
      using buf_rep_seen [OF fb'(2)] by (auto simp: asm_abs_def fun_eq_iff)
    ultimately show ?thesis using recv full times by auto
  qed
qed

primrec receiveAll :: "(gotime \<times> DataFrag) list \<Rightarrow> fragmentAssembler
    \<Rightarrow> (fragmentAssembler \<times> bytes option list) option" where
  "receiveAll [] bufs = Some (bufs, [])"
| "receiveAll (e # es) bufs =
     (case receive (fst e) (snd e) bufs of
        None \<Rightarrow> None
      | Some (bufs1, out) \<Rightarrow> map_option (apsnd ((#) out)) (receiveAll es bufs1))"

lemma receiveAll_incomplete:
  assumes "asm_inv (\<lambda>_. P) s bufs" and "frag_ok P s" and "length ts = length is"
    and "asm_abs bufs k \<union> set is \<subset> {..<nfrags P s}" and "k = (w, snToU64 sn)"
    and "\<forall>t \<in> set ts. \<forall>t' \<in> set ts \<union> ctimes bufs. timeSub t t' \<le> staleFragAge"
  shows "\<exists>bufs'. receiveAll (zip ts (map (fragAt w sn P s) is)) bufs = Some (bufs', replicate (length is) None)
     \<and> asm_inv (\<lambda>_. P) s bufs' \<and> asm_abs bufs' k = asm_abs bufs k \<union> set is
     \<and> ctimes bufs' \<subseteq> set ts \<union> ctimes bufs"
  using assms
proof (induction "is" arbitrary: bufs ts)
  case Nil
  then show ?case by simp
next
  case (Cons i "is")
  from Cons.prems(3) obtain t ts' where ts: "ts = t # ts'" by (cases ts) auto
  have dist: "distinct (map fst bufs)" using Cons.prems(1) by (simp add: asm_inv_def)
  have id: "evictStale t bufs = bufs"
    using Cons.prems(6) ts by (intro evictStale_id [OF dist]) auto
  have i: "i < nfrags P s" and inc: "insert i (asm_abs bufs k) \<noteq> {..<nfrags P s}"
    using Cons.prems(4) by auto
  from receive_step [of "\<lambda>_. P", OF Cons.prems(1,2,5) i, where now = t, unfolded id] inc obtain bufs1 where
    b1: "receive t (fragAt w sn P s i) bufs = Some (bufs1, None)" "asm_inv (\<lambda>_. P) s bufs1"
      "asm_abs bufs1 k = insert i (asm_abs bufs k)" "ctimes bufs1 \<subseteq> insert t (ctimes bufs)"
    by auto
  have "\<exists>bufs'. receiveAll (zip ts' (map (fragAt w sn P s) is)) bufs1 = Some (bufs', replicate (length is) None)
     \<and> asm_inv (\<lambda>_. P) s bufs' \<and> asm_abs bufs' k = asm_abs bufs1 k \<union> set is
     \<and> ctimes bufs' \<subseteq> set ts' \<union> ctimes bufs1"
    using Cons.prems b1 ts by (intro Cons.IH) auto
  then obtain bufs' where b': "receiveAll (zip ts' (map (fragAt w sn P s) is)) bufs1
      = Some (bufs', replicate (length is) None)" "asm_inv (\<lambda>_. P) s bufs'"
      "asm_abs bufs' k = asm_abs bufs1 k \<union> set is" "ctimes bufs' \<subseteq> set ts' \<union> ctimes bufs1"
    by blast
  have "ctimes bufs' \<subseteq> set ts \<union> ctimes bufs" using b'(4) b1(4) ts by fastforce
  then show ?case using b1 b' ts by auto
qed

text \<open>
  C23: receiving a genuine fragment implements the abstract reassembly step: the fragment's
  index joins the set received for its writer and sequence number, whatever arrived before,
  duplicates and other messages' fragments included. The payload is handed over exactly when
  the set becomes complete, equal to the one sent; otherwise nothing is, and no other message's
  progress changes. Messages whose first fragment is more than five seconds old are forgotten
  first. The call never panics on such fragments.
\<close>

theorem receive_refines_reassembly:
  assumes "asm_inv msg s bufs" and "frag_ok (msg k) s" and "k = (w, snToU64 sn)"
    and "i < nfrags (msg k) s" and "S = insert i (asm_abs (evictStale now bufs) k)"
  shows "\<exists>bufs'. receive now (fragAt w sn (msg k) s i) bufs
      = Some (bufs', if S = {..<nfrags (msg k) s} then Some (msg k) else None)
    \<and> asm_inv msg s bufs'
    \<and> asm_abs bufs' = (asm_abs (evictStale now bufs))(k := if S = {..<nfrags (msg k) s} then {} else S)"
  using receive_step [OF assms(1-4), of now] assms(5) by blast

theorem receive_refines_reassembly_witness:
  "\<exists>bufs'. receive 0 (fragAt [0,0,1,3] \<lparr>High = 0, Low = 1\<rparr> [1, 2, 3] 2 1) [] = Some (bufs', None)
    \<and> asm_abs bufs' ([0,0,1,3], 1) = {1}"
proof -
  have n: "nfrags [1, 2, 3 :: byte] 2 = 2" by (simp add: nfrags_def)
  have k: "([0,0,1,3], 1) = ([0,0,1,3 :: byte], snToU64 \<lparr>High = 0, Low = 1\<rparr>)" by (simp add: snToU64_def)
  have ne: "{Suc 0} \<noteq> {..<2}" by (simp add: lessThan_Suc numeral_2_eq_2)
  have "\<exists>bufs'. receive 0 (fragAt [0,0,1,3] \<lparr>High = 0, Low = 1\<rparr> [1, 2, 3] 2 1) []
      = Some (bufs', if {1} = {..<nfrags [1, 2, 3 :: byte] 2} then Some [1, 2, 3] else None)
    \<and> asm_inv (\<lambda>_. [1, 2, 3]) 2 bufs' \<and> asm_abs bufs' = (asm_abs (evictStale 0 []))
        (([0,0,1,3], 1) := if {1} = {..<nfrags [1, 2, 3 :: byte] 2} then {} else {1})"
    by (rule receive_refines_reassembly [OF _ _ k])
      (simp_all add: asm_inv_def frag_ok_def n evictStale_def asm_abs_def)
  then show ?thesis using ne by (auto simp: n)
qed

text \<open>
  C8: a payload split by the writer is reassembled by the receiver whatever the order in
  which its fragments arrive and however often each is repeated: no fragment before the last
  missing one yields anything, and that one yields the payload, provided the first and last
  arrive within five seconds.
\<close>

theorem fragments_roundtrip:
  assumes "frag_ok P s" and "splitIntoFragmentsN w sn P (int s) = Some frs"
    and "set is = {..<length frs} - {i}" and "i < length frs" and "length ts = Suc (length is)"
    and "\<forall>t \<in> set ts. \<forall>t' \<in> set ts. timeSub t t' \<le> staleFragAge"
  shows "\<exists>bufs'. receiveAll (zip ts (map ((!) frs) (is @ [i]))) []
     = Some (bufs', replicate (length is) None @ [Some P])"
proof -
  have s: "0 < s" "s < 65536" using assms(1) by (auto simp: frag_ok_def)
  have frs: "frs = map (fragAt w sn P s) [0..<nfrags P s]"
    using assms(2) splitIntoFragmentsN_eq [OF s] by simp
  then have nth: "map ((!) frs) js = map (fragAt w sn P s) js" if "set js \<subseteq> {..<nfrags P s}" for js
    using that by auto
  have len: "length frs = nfrags P s" by (simp add: frs)
  obtain ts' t where ts: "ts = ts' @ [t]" "length ts' = length is"
    using assms(5) by (cases ts rule: rev_cases) auto
  define k where "k = (w, snToU64 sn)"
  have "\<exists>bufs. receiveAll (zip ts' (map (fragAt w sn P s) is)) [] = Some (bufs, replicate (length is) None)
     \<and> asm_inv (\<lambda>_. P) s bufs \<and> asm_abs bufs k = asm_abs [] k \<union> set is \<and> ctimes bufs \<subseteq> set ts' \<union> ctimes []"
    using assms ts len by (intro receiveAll_incomplete [OF _ assms(1)])
      (auto simp: asm_inv_def asm_abs_def ctimes_def k_def)
  then obtain bufs where b: "receiveAll (zip ts' (map (fragAt w sn P s) is)) [] = Some (bufs, replicate (length is) None)"
    "asm_inv (\<lambda>_. P) s bufs" "asm_abs bufs k = set is" "ctimes bufs \<subseteq> set ts'"
    by (auto simp: asm_abs_def ctimes_def)
  have id: "evictStale t bufs = bufs"
    using b(2,4) assms(6) ts(1) by (intro evictStale_id) (auto simp: asm_inv_def)
  have "insert i (asm_abs bufs k) = {..<nfrags P s}" using assms(3,4) b(3) len by auto
  with receive_step [of "\<lambda>_. P", OF b(2) assms(1) k_def, of i t] assms(4) len id
  obtain bufs' where last: "receive t (fragAt w sn P s i) bufs = Some (bufs', Some P)" by auto
  have app: "receiveAll (es @ [e]) b0 = Some (b2, outs @ [out])"
    if "receiveAll es b0 = Some (b1, outs)" "receive (fst e) (snd e) b1 = Some (b2, out)" for es e b0 b1 b2 outs out
    using that by (induction es arbitrary: b0 outs) (auto split: option.splits prod.splits)
  have "map ((!) frs) (is @ [i]) = map (fragAt w sn P s) (is @ [i])"
    using assms(3,4) len by (intro nth) auto
  moreover have "zip ts (map (fragAt w sn P s) (is @ [i]))
      = zip ts' (map (fragAt w sn P s) is) @ [(t, fragAt w sn P s i)]" using ts by simp
  ultimately have "receiveAll (zip ts (map ((!) frs) (is @ [i]))) []
      = Some (bufs', replicate (length is) None @ [Some P])"
    using app [OF b(1), of "(t, fragAt w sn P s i)"] last by (simp only: fst_conv snd_conv)
  then show ?thesis by blast
qed

theorem fragments_roundtrip_witness:
  "\<exists>frs bufs'. splitIntoFragmentsN [0,0,1,3] \<lparr>High = 0, Low = 1\<rparr> [1, 2, 3] 2 = Some frs
    \<and> receiveAll (zip [0, 1, 2] (map ((!) frs) ([1, 1] @ [0]))) [] = Some (bufs', [None, None, Some [1, 2, 3]])"
proof -
  obtain frs where f: "splitIntoFragmentsN [0,0,1,3] \<lparr>High = 0, Low = 1\<rparr> [1, 2, 3] (int 2) = Some frs"
    "length frs = 2"
    using splitIntoFragmentsN_eq [of 2] by (simp add: nfrags_def)
  have "{Suc 0} = {..<2} - {0 :: nat}" by auto
  with f(2) have "\<exists>bufs'. receiveAll (zip [0, 1, 2] (map ((!) frs) ([1, 1] @ [0]))) []
     = Some (bufs', replicate (length [1, 1 :: nat]) None @ [Some [1, 2, 3]])"
    by (intro fragments_roundtrip [OF _ f(1)]) (auto simp: frag_ok_def timeSub_def staleFragAge_def second_def)
  with f(1) show ?thesis by (auto simp: numeral_2_eq_2)
qed

text \<open>
  A submessage that claims two fragments but carries less than one makes the copy loop slice
  out of order: the receiver panics.
\<close>

lemma short_submessage_panics:
  "receive 0 \<lparr>dfWriter = EntityIdUnknown, dfReader = EntityIdUnknown, dfSeqNum = \<lparr>High = 0, Low = 1\<rparr>,
     FragmentStartingNum = 1, FragmentsInSubmsg = 2, FragmentSize = 4, DataSize = 8,
     dfPayload = [1, 2]\<rparr> [] = None"
  by code_simp

end
