(* ===== verification/Rtps_Locator.thy ===== *)
theory Rtps_Locator
  imports Dds_Prelude
begin

text \<open>
  Transport addresses (\<^verbatim>\<open>src/rtps/locator.go\<close>): the 24-byte locator, its conversions to and from
  socket addresses, and the port mapping of a domain. \<^verbatim>\<open>net.IP\<close> is a byte list with the standard
  library's \<^verbatim>\<open>To4\<close>, \<^verbatim>\<open>To16\<close> and \<^verbatim>\<open>String\<close>; an unset address is the empty list.
\<close>

section \<open>Definitions\<close>

subsection \<open>Socket addresses\<close>

type_synonym IP = bytes

record UDPAddr =
  udpIP :: IP
  udpPort :: int

definition v4InV6Prefix :: bytes where
  "v4InV6Prefix = replicate 10 0 @ [0xff, 0xff]"

definition To4 :: "IP \<Rightarrow> IP option" where
  "To4 ip =
     (if length ip = 4 then Some ip
      else if length ip = 16 \<and> take 12 ip = v4InV6Prefix then Some (drop 12 ip)
      else None)"

definition To16 :: "IP \<Rightarrow> IP option" where
  "To16 ip = (if length ip = 4 then Some (v4InV6Prefix @ ip) else if length ip = 16 then Some ip else None)"

text \<open>\<^verbatim>\<open>strconv.Itoa\<close> on a non-negative number.\<close>

fun Itoa :: "nat \<Rightarrow> string" where
  "Itoa n = (if n < 10 then [char_of (48 + n)] else Itoa (n div 10) @ [char_of (48 + n mod 10)])"

declare Itoa.simps [simp del]

text \<open>\<^verbatim>\<open>IP.String\<close> of a four-byte address and \<^verbatim>\<open>net.JoinHostPort\<close> of it with a port.\<close>

fun dotted :: "bytes \<Rightarrow> string" where
  "dotted [] = ''''"
| "dotted [b] = Itoa (unat b)"
| "dotted (b # bs) = Itoa (unat b) @ CHR ''.'' # dotted bs"

definition JoinHostPort :: "string \<Rightarrow> string \<Rightarrow> string" where
  "JoinHostPort host port =
     (if CHR '':'' \<in> set host then ''['' @ host @ '']:'' @ port else host @ CHR '':'' # port)"

subsection \<open>Locators\<close>

record Locator =
  Kind :: int32
  Port :: uint32
  Address :: bytes

definition wf_locator :: "Locator \<Rightarrow> bool" where
  "wf_locator l \<longleftrightarrow> length (Address l) = 16"

definition LocatorKindInvalid :: int32 where "LocatorKindInvalid = - 1"
definition LocatorKindUDPv4 :: int32 where "LocatorKindUDPv4 = 1"
definition LocatorKindUDPv6 :: int32 where "LocatorKindUDPv6 = 2"
definition LocatorKindTCPv4 :: int32 where "LocatorKindTCPv4 = 4"
definition LocatorKindQUICv4 :: int32 where "LocatorKindQUICv4 = 5"
definition LocatorKindWSv4 :: int32 where "LocatorKindWSv4 = 6"

lemmas locator_kind_defs = LocatorKindInvalid_def LocatorKindUDPv4_def LocatorKindUDPv6_def
  LocatorKindTCPv4_def LocatorKindQUICv4_def LocatorKindWSv4_def

definition ip4OrZero :: "IP \<Rightarrow> bytes" where
  "ip4OrZero ip = (case To4 ip of Some b \<Rightarrow> b | None \<Rightarrow> replicate 4 0)"

definition locatorFromUDPv6 :: "UDPAddr \<Rightarrow> int \<Rightarrow> Locator" where
  "locatorFromUDPv6 addr port =
     \<lparr>Kind = LocatorKindUDPv6, Port = word_of_int port,
      Address = (case To16 (udpIP addr) of Some b \<Rightarrow> b | None \<Rightarrow> replicate 16 0)\<rparr>"

definition locatorFromUDP :: "UDPAddr \<Rightarrow> int \<Rightarrow> Locator" where
  "locatorFromUDP addr port =
     (if To16 (udpIP addr) \<noteq> None \<and> To4 (udpIP addr) = None then locatorFromUDPv6 addr port
      else \<lparr>Kind = LocatorKindUDPv4, Port = word_of_int port,
            Address = replicate 12 0 @ ip4OrZero (udpIP addr)\<rparr>)"

definition udpAddr :: "Locator \<Rightarrow> UDPAddr option" where
  "udpAddr l =
     (if Kind l = LocatorKindUDPv4 then Some \<lparr>udpIP = slice 12 16 (Address l), udpPort = uint (Port l)\<rparr>
      else if Kind l = LocatorKindUDPv6 then Some \<lparr>udpIP = Address l, udpPort = uint (Port l)\<rparr>
      else None)"

definition locatorFromTCP :: "IP \<Rightarrow> int \<Rightarrow> Locator" where
  "locatorFromTCP ip port =
     \<lparr>Kind = LocatorKindTCPv4, Port = word_of_int port, Address = replicate 12 0 @ ip4OrZero ip\<rparr>"

definition locatorFromQUIC :: "IP \<Rightarrow> int \<Rightarrow> Locator" where
  "locatorFromQUIC ip port =
     \<lparr>Kind = LocatorKindQUICv4, Port = word_of_int port, Address = replicate 12 0 @ ip4OrZero ip\<rparr>"

definition locatorFromWS :: "IP \<Rightarrow> int \<Rightarrow> Locator" where
  "locatorFromWS ip port =
     \<lparr>Kind = LocatorKindWSv4, Port = word_of_int port, Address = replicate 12 0 @ ip4OrZero ip\<rparr>"

definition hostPort4 :: "Locator \<Rightarrow> string" where
  "hostPort4 l = JoinHostPort (dotted (slice 12 16 (Address l))) (Itoa (unat (Port l)))"

definition tcpHostPort :: "Locator \<Rightarrow> string option" where
  "tcpHostPort l = (if Kind l \<noteq> LocatorKindTCPv4 then None else Some (hostPort4 l))"

definition quicHostPort :: "Locator \<Rightarrow> string option" where
  "quicHostPort l = (if Kind l \<noteq> LocatorKindQUICv4 then None else Some (hostPort4 l))"

definition wsHostPort :: "Locator \<Rightarrow> string option" where
  "wsHostPort l = (if Kind l \<noteq> LocatorKindWSv4 then None else Some (hostPort4 l))"

definition marshalLocator :: "Locator \<Rightarrow> bytes" where
  "marshalLocator l = PutUint32 (Kind l) @ PutUint32 (Port l) @ Address l"

definition unmarshalLocator :: "bytes \<Rightarrow> Locator option" where
  "unmarshalLocator b =
     (if length b < 24 then None
      else Some \<lparr>Kind = Uint32 b, Port = Uint32 (drop 4 b), Address = slice 8 24 b\<rparr>)"

subsection \<open>Ports of a domain\<close>

definition spdpMulticastAddr :: IP where "spdpMulticastAddr = v4InV6Prefix @ [239, 255, 0, 1]"
definition spdpMulticastAddrV6 :: IP where "spdpMulticastAddrV6 = [0xFF, 3] @ replicate 13 0 @ [1]"
definition userDataMulticastAddr :: IP where "userDataMulticastAddr = v4InV6Prefix @ [239, 255, 0, 2]"

definition portBase :: int where "portBase = 7400"
definition domainGain :: int where "domainGain = 250"
definition participantGain :: int where "participantGain = 2"

lemmas port_defs = portBase_def domainGain_def participantGain_def

definition userMulticastPort :: "int \<Rightarrow> int" where
  "userMulticastPort domain = portBase + domainGain * domain + 1"

definition metaMulticastPort :: "int \<Rightarrow> int" where
  "metaMulticastPort domain = portBase + domainGain * domain"

definition metaUnicastPort :: "int \<Rightarrow> int \<Rightarrow> int" where
  "metaUnicastPort domain participantIdx = portBase + domainGain * domain + 10 + participantGain * participantIdx"

definition userUnicastPort :: "int \<Rightarrow> int \<Rightarrow> int" where
  "userUnicastPort domain participantIdx = portBase + domainGain * domain + 11 + participantGain * participantIdx"

section \<open>Lemmas\<close>

lemma unmarshal_marshal [simp]: "wf_locator l \<Longrightarrow> unmarshalLocator (marshalLocator l @ rest) = Some l"
  by (cases l) (simp add: wf_locator_def unmarshalLocator_def marshalLocator_def)

lemma length_marshalLocator [simp]: "wf_locator l \<Longrightarrow> length (marshalLocator l) = 24"
  by (simp add: wf_locator_def marshalLocator_def)

lemma length_To4: "To4 ip = Some b \<Longrightarrow> length b = 4"
  by (auto simp: To4_def split: if_splits)

lemma length_To16: "To16 ip = Some b \<Longrightarrow> length b = 16"
  by (auto simp: To16_def v4InV6Prefix_def split: if_splits)

lemma length_ip4OrZero [simp]: "length (ip4OrZero ip) = 4"
  by (auto simp: ip4OrZero_def dest: length_To4 split: option.splits)

lemma wf_locatorFrom [simp]:
  "wf_locator (locatorFromUDP addr port)" "wf_locator (locatorFromTCP ip port)"
  "wf_locator (locatorFromQUIC ip port)" "wf_locator (locatorFromWS ip port)"
  by (auto simp: wf_locator_def locatorFromUDP_def locatorFromUDPv6_def locatorFromTCP_def
      locatorFromQUIC_def locatorFromWS_def dest: length_To16 split: option.splits)

text \<open>
  C30: an address put on the wire as a locator is read back as the same endpoint: a four-byte
  or IPv4-mapped address as its four bytes, a sixteen-byte IPv6 address unchanged, and the
  port as it was.
\<close>

theorem locator_roundtrip:
  assumes "0 \<le> port" and "port < 2 ^ 32" and "length (udpIP addr) \<in> {4, 16}"
  shows "\<exists>l. unmarshalLocator (marshalLocator (locatorFromUDP addr port)) = Some l
     \<and> udpAddr l = Some \<lparr>udpIP = (case To4 (udpIP addr) of Some b \<Rightarrow> b | None \<Rightarrow> udpIP addr), udpPort = port\<rparr>"
proof -
  have port: "uint (word_of_int port :: uint32) = port"
    using assms(1,2) by (simp add: uint_word_of_int)
  have "unmarshalLocator (marshalLocator (locatorFromUDP addr port)) = Some (locatorFromUDP addr port)"
    using unmarshal_marshal [of "locatorFromUDP addr port" "[]"] by simp
  moreover have "udpAddr (locatorFromUDP addr port)
      = Some \<lparr>udpIP = (case To4 (udpIP addr) of Some b \<Rightarrow> b | None \<Rightarrow> udpIP addr), udpPort = port\<rparr>"
    using assms(3)
    by (auto simp: locatorFromUDP_def locatorFromUDPv6_def udpAddr_def port locator_kind_defs ip4OrZero_def
        To16_def To4_def slice_def split: option.splits if_splits)
  ultimately show ?thesis by blast
qed

theorem locator_roundtrip_witness:
  "\<exists>l. unmarshalLocator (marshalLocator (locatorFromUDP \<lparr>udpIP = v4InV6Prefix @ [10, 0, 0, 7], udpPort = 0\<rparr> 7411))
      = Some l \<and> udpAddr l = Some \<lparr>udpIP = [10, 0, 0, 7], udpPort = 7411\<rparr>"
  using locator_roundtrip [of 7411 "\<lparr>udpIP = v4InV6Prefix @ [10, 0, 0, 7], udpPort = 0\<rparr>"]
  by (simp add: v4InV6Prefix_def To4_def)

text \<open>
  The port mapping gives every socket its own port: for domains numbered from 0 and fewer
  than 120 participants each, no two of the multicast and unicast ports of any domains and
  participants coincide, and with at most 232 domains and 62 participants all lie below 65536.
\<close>

lemma ports_distinct:
  assumes "0 \<le> i" and "i < 120" and "0 \<le> j" and "j < 120" and "0 \<le> d" and "0 \<le> e"
  shows "(metaUnicastPort d i = metaUnicastPort e j \<longleftrightarrow> d = e \<and> i = j)
    \<and> (userUnicastPort d i = userUnicastPort e j \<longleftrightarrow> d = e \<and> i = j)
    \<and> metaUnicastPort d i \<noteq> userUnicastPort e j
    \<and> metaMulticastPort d \<notin> {userMulticastPort e, metaUnicastPort e j, userUnicastPort e j}
    \<and> userMulticastPort d \<notin> {metaUnicastPort e j, userUnicastPort e j}
    \<and> (d \<le> 232 \<and> i < 62 \<longrightarrow> userUnicastPort d i < 65536)"
proof -
  have key: "250 * d + a = 250 * e + b \<Longrightarrow> \<bar>a - b\<bar> < 250 \<Longrightarrow> d = e" for a b by arith
  have uu: "d = e \<and> i = j" if "250 * d + 2 * i = 250 * e + 2 * j"
  proof -
    have "\<bar>2 * i - 2 * j\<bar> < 250" using assms by arith
    then have "d = e" using key [of "2 * i" "2 * j"] that by blast
    then show ?thesis using that by simp
  qed
  have mu: "250 * d + 10 + 2 * i \<noteq> 250 * e + 11 + 2 * j"
    by presburger
  have mm: "250 * d + a \<noteq> 250 * e + b" if "0 \<le> a" "a < 10" "0 \<le> b" "b < 250" "a \<noteq> b" for a b
  proof
    assume eq: "250 * d + a = 250 * e + b"
    have "\<bar>a - b\<bar> < 250" using that by arith
    then show False using key [OF eq] eq that(5) by simp
  qed
  show ?thesis
    using assms uu mu mm [of 0 1] mm [of 0 "10 + 2 * j"] mm [of 0 "11 + 2 * j"] mm [of 1 "10 + 2 * j"]
      mm [of 1 "11 + 2 * j"]
    unfolding metaUnicastPort_def userUnicastPort_def metaMulticastPort_def userMulticastPort_def port_defs
    by (simp add: algebra_simps) linarith
qed

end
