(* ===== verification/Rtps_Cdr.thy ===== *)
theory Rtps_Cdr
  imports Rtps_Message Rtps_Locator
begin

text \<open>
  Discovery parameter lists (\<^verbatim>\<open>src/rtps/cdr.go\<close>): the PL\_CDR encoder and decoder and the codecs
  of the values they carry. Strings are the byte lists of Go strings.

  The encoder's buffer is its state; each \<^verbatim>\<open>add\<close> method extends it. The decoder's state is the
  part of its buffer from the cursor on: the cursor never passes the end, so this loses nothing.
\<close>

section \<open>Definitions\<close>

type_synonym gostring = bytes

definition pidPad :: uint16 where "pidPad = 0x0000"
definition pidSentinel :: uint16 where "pidSentinel = 0x0001"
definition pidTopicName :: uint16 where "pidTopicName = 0x0005"
definition pidTypeName :: uint16 where "pidTypeName = 0x0007"
definition pidProtocolVersion :: uint16 where "pidProtocolVersion = 0x0015"
definition pidVendorId :: uint16 where "pidVendorId = 0x0016"
definition pidMetatrafficUnicastLocator :: uint16 where "pidMetatrafficUnicastLocator = 0x0032"
definition pidMetatrafficMulticastLocator :: uint16 where "pidMetatrafficMulticastLocator = 0x0033"
definition pidDefaultUnicastLocator :: uint16 where "pidDefaultUnicastLocator = 0x002f"
definition pidDefaultMulticastLocator :: uint16 where "pidDefaultMulticastLocator = 0x0030"
definition pidParticipantLeaseDuration :: uint16 where "pidParticipantLeaseDuration = 0x0002"
definition pidParticipantGUID :: uint16 where "pidParticipantGUID = 0x0050"
definition pidEndpointGUID :: uint16 where "pidEndpointGUID = 0x005A"
definition pidBuiltinEndpointSet :: uint16 where "pidBuiltinEndpointSet = 0x0058"
definition pidUserData :: uint16 where "pidUserData = 0x002C"
definition pidDiscoveryToken :: uint16 where "pidDiscoveryToken = 0x8001"
definition pidEndpointToken :: uint16 where "pidEndpointToken = 0x8002"
definition pidTCPLocator :: uint16 where "pidTCPLocator = 0x8003"
definition pidPartition :: uint16 where "pidPartition = 0x8004"
definition pidOwnership :: uint16 where "pidOwnership = 0x8005"
definition pidOwnershipStrength :: uint16 where "pidOwnershipStrength = 0x8006"
definition pidLivelinessLeaseDuration :: uint16 where "pidLivelinessLeaseDuration = 0x8007"
definition pidRelayID :: uint16 where "pidRelayID = 0x8008"
definition pidContentFilterExpr :: uint16 where "pidContentFilterExpr = 0x8009"
definition pidContentFilterParam :: uint16 where "pidContentFilterParam = 0x800A"
definition pidQUICLocator :: uint16 where "pidQUICLocator = 0x800B"
definition pidWSLocator :: uint16 where "pidWSLocator = 0x800C"

lemmas pid_defs = pidPad_def pidSentinel_def pidTopicName_def pidTypeName_def pidProtocolVersion_def
  pidVendorId_def pidMetatrafficUnicastLocator_def pidMetatrafficMulticastLocator_def
  pidDefaultUnicastLocator_def pidDefaultMulticastLocator_def pidParticipantLeaseDuration_def
  pidParticipantGUID_def pidEndpointGUID_def pidBuiltinEndpointSet_def pidUserData_def
  pidDiscoveryToken_def pidEndpointToken_def pidTCPLocator_def pidPartition_def pidOwnership_def
  pidOwnershipStrength_def pidLivelinessLeaseDuration_def pidRelayID_def pidContentFilterExpr_def
  pidContentFilterParam_def pidQUICLocator_def pidWSLocator_def

subsection \<open>Encoder\<close>

type_synonym plCDREncoder = bytes

definition newPLCDREncoder :: plCDREncoder where
  "newPLCDREncoder = PutUint16BE plCDRLE @ [0, 0]"

definition padLen :: "nat \<Rightarrow> nat" where
  "padLen n = (n + 3) div 4 * 4"

definition addParam :: "uint16 \<Rightarrow> bytes \<Rightarrow> plCDREncoder \<Rightarrow> plCDREncoder" where
  "addParam pid value e =
     e @ PutUint16 pid @ PutUint16 (word_of_nat (padLen (length value)))
       @ value @ replicate (padLen (length value) - length value) 0"

definition addUint32 :: "uint16 \<Rightarrow> uint32 \<Rightarrow> plCDREncoder \<Rightarrow> plCDREncoder" where
  "addUint32 pid v e = addParam pid (PutUint32 v) e"

definition addInt64 :: "uint16 \<Rightarrow> int64 \<Rightarrow> plCDREncoder \<Rightarrow> plCDREncoder" where
  "addInt64 pid v e = addParam pid (PutUint64 v) e"

definition addLocator :: "uint16 \<Rightarrow> Locator \<Rightarrow> plCDREncoder \<Rightarrow> plCDREncoder" where
  "addLocator pid l e = addParam pid (marshalLocator l) e"

definition guidBytes :: "GUID \<Rightarrow> bytes" where
  "guidBytes g = Prefix g @ Entity g"

definition addGUID :: "uint16 \<Rightarrow> GUID \<Rightarrow> plCDREncoder \<Rightarrow> plCDREncoder" where
  "addGUID pid g e = addParam pid (guidBytes g) e"

definition stringBytes :: "gostring \<Rightarrow> bytes" where
  "stringBytes s = PutUint32 (word_of_nat (length s + 1)) @ s @ [0]"

definition addString :: "uint16 \<Rightarrow> gostring \<Rightarrow> plCDREncoder \<Rightarrow> plCDREncoder" where
  "addString pid s e = addParam pid (stringBytes s) e"

definition addBytes :: "uint16 \<Rightarrow> bytes \<Rightarrow> plCDREncoder \<Rightarrow> plCDREncoder" where
  "addBytes pid v e = addParam pid v e"

definition finish :: "plCDREncoder \<Rightarrow> bytes" where
  "finish e = e @ [ucast pidSentinel, ucast (drop_bit 8 pidSentinel), 0, 0]"

subsection \<open>Decoder\<close>

type_synonym plCDRDecoder = bytes
type_synonym param = "uint16 \<times> bytes"

definition newPLCDRDecoder :: "bytes \<Rightarrow> plCDRDecoder option" where
  "newPLCDRDecoder b =
     (if length b < 4 then None
      else if Uint16BE b \<noteq> plCDRLE then None
      else Some (drop 4 b))"

function nextParam :: "plCDRDecoder \<Rightarrow> param option \<times> plCDRDecoder" where
  "nextParam d =
     (if length d < 4 then (None, d)
      else
        let pid = Uint16 d; len = unat (Uint16 (drop 2 d)); d1 = drop 4 d in
        if pid = pidSentinel then (None, d1)
        else if pid = pidPad then nextParam d1
        else if length d1 < len then (None, d1)
        else (Some (pid, take len d1), drop len d1))"
  by pat_completeness auto
termination
  by (relation "measure length") auto

declare nextParam.simps [simp del]

lemma nextParam_shrinks: "nextParam d = (Some p, d') \<Longrightarrow> length d' < length d"
proof (induction d rule: nextParam.induct)
  case (1 d)
  show ?case
  proof (cases "length d < 4 \<or> Uint16 d \<noteq> pidPad")
    case True
    then show ?thesis using 1(2)
      by (subst (asm) nextParam.simps) (auto simp: Let_def split: if_splits)
  next
    case False
    then have "nextParam (drop 4 d) = (Some p, d')"
      using 1(2) by (subst (asm) nextParam.simps) (auto simp: Let_def pid_defs)
    then show ?thesis using 1(1) False by (force simp: pid_defs)
  qed
qed

text \<open>The loop every client runs: parameters until the decoder reports the end.\<close>

function params :: "plCDRDecoder \<Rightarrow> param list" where
  "params d = (case nextParam d of (None, d') \<Rightarrow> [] | (Some p, d') \<Rightarrow> p # params d')"
  by pat_completeness auto
termination
  by (relation "measure length") (auto dest: nextParam_shrinks [OF sym] nextParam_shrinks)

declare params.simps [simp del]

definition decodeString :: "bytes \<Rightarrow> gostring option" where
  "decodeString b =
     (if length b < 4 then None
      else
        let n = unat (Uint32 b) in
        if length b < 4 + n then None
        else let s = slice 4 (4 + n) b in
          Some (if 0 < length s \<and> last s = 0 then butlast s else s))"

definition decodeGUID :: "bytes \<Rightarrow> GUID option" where
  "decodeGUID b = (if length b < 16 then None else Some (GUID (slice 0 12 b) (slice 12 16 b)))"

definition decodeUint32 :: "bytes \<Rightarrow> uint32 option" where
  "decodeUint32 b = (if length b < 4 then None else Some (Uint32 b))"

definition decodeInt64 :: "bytes \<Rightarrow> int64 option" where
  "decodeInt64 b = (if length b < 8 then None else Some (Uint64 b))"

section \<open>Parameter lists\<close>

definition padded :: "bytes \<Rightarrow> bytes" where
  "padded v = v @ replicate (padLen (length v) - length v) 0"

definition paramBytes :: "uint16 \<Rightarrow> bytes \<Rightarrow> bytes" where
  "paramBytes pid v = PutUint16 pid @ PutUint16 (word_of_nat (padLen (length v))) @ padded v"

definition wf_param :: "param \<Rightarrow> bool" where
  "wf_param p \<longleftrightarrow> fst p \<noteq> pidPad \<and> fst p \<noteq> pidSentinel \<and> length (snd p) \<le> 65532"

lemma padLen_ge: "n \<le> padLen n"
  by (simp add: padLen_def)

lemma padLen_mod: "padLen n mod 4 = 0"
  by (simp add: padLen_def)

lemma length_padded [simp]: "length (padded v) = padLen (length v)"
  using padLen_ge [of "length v"] by (simp add: padded_def)

lemma addParam_eq: "addParam pid v e = e @ paramBytes pid v"
  by (simp add: addParam_def paramBytes_def padded_def)

lemma nextParam_paramBytes:
  assumes "wf_param (pid, v)"
  shows "nextParam (paramBytes pid v @ rest) = (Some (pid, padded v), rest)"
proof -
  have "padLen (length v) < 2 ^ 16"
    using assms less_mult_imp_div_less [of "length v + 3" 16384 4] by (auto simp: wf_param_def padLen_def)
  then have "unat (word_of_nat (padLen (length v)) :: uint16) = padLen (length v)"
    by (simp add: unat_of_nat take_bit_nat_eq_self)
  then show ?thesis
    using assms by (subst nextParam.simps) (simp add: paramBytes_def wf_param_def Let_def)
qed

lemma params_paramBytes [simp]:
  "wf_param (pid, v) \<Longrightarrow> params (paramBytes pid v @ rest) = (pid, padded v) # params rest"
  by (subst params.simps) (simp add: nextParam_paramBytes)

definition sentinel :: bytes where
  "sentinel = [ucast pidSentinel, ucast (drop_bit 8 pidSentinel), 0, 0]"

lemma params_sentinel [simp]: "params sentinel = []"
  by (subst params.simps, subst nextParam.simps)
    (simp add: sentinel_def pid_defs get_defs Let_def)

lemma finish_eq: "finish e = e @ sentinel"
  by (simp add: finish_def sentinel_def)

lemma newDecoder_encoder [simp]: "newPLCDRDecoder (newPLCDREncoder @ rest) = Some rest"
  by (simp add: newPLCDRDecoder_def newPLCDREncoder_def)

lemma params_concat:
  "list_all wf_param ps \<Longrightarrow>
     params (concat (map (\<lambda>(pid, v). paramBytes pid v) ps) @ rest) = map (apsnd padded) ps @ params rest"
  by (induction ps) auto

text \<open>
  What a value codec of a parameter promises: decoding survives the zero padding that the
  parameter list adds after the value.
\<close>

locale param_codec =
  fixes enc :: "'a \<Rightarrow> bytes" and dec :: "bytes \<Rightarrow> 'a option" and wf :: "'a \<Rightarrow> bool"
  assumes dec_enc: "wf x \<Longrightarrow> dec (enc x @ replicate k 0) = Some x"
begin

lemma dec_padded: "wf x \<Longrightarrow> dec (padded (enc x)) = Some x"
  by (simp add: padded_def dec_enc)

lemma first_param:
  assumes "wf x" and "wf_param (pid, enc x)"
  shows "\<exists>v rest'. nextParam (paramBytes pid (enc x) @ rest) = (Some (pid, v), rest') \<and> dec v = Some x \<and> rest' = rest"
  using nextParam_paramBytes [OF assms(2)] dec_padded [OF assms(1)] by blast

end

interpretation stringp: param_codec stringBytes decodeString "\<lambda>s. length s < 2 ^ 32 - 1"
proof (unfold_locales, goal_cases)
  case (1 s k)
  then have "unat (word_of_nat (length s + 1) :: uint32) = length s + 1"
    using unat_of_nat32 [of "length s + 1"] by simp
  then show ?case by (simp add: decodeString_def stringBytes_def slice_def Let_def del: of_nat_add of_nat_Suc)
qed

interpretation guidp: param_codec guidBytes decodeGUID wf_guid
proof (unfold_locales, goal_cases)
  case (1 g k)
  then show ?case
    by (cases g) (simp add: decodeGUID_def guidBytes_def wf_guid_def wf_prefix_def wf_eid_def)
qed

interpretation uint32p: param_codec PutUint32 decodeUint32 "\<lambda>_. True"
  by unfold_locales (simp add: decodeUint32_def)

interpretation int64p: param_codec PutUint64 decodeInt64 "\<lambda>_. True"
  by unfold_locales (simp add: decodeInt64_def)

interpretation locatorp: param_codec marshalLocator unmarshalLocator wf_locator
  by unfold_locales simp

lemmas dec_padded [simp] = stringp.dec_padded guidp.dec_padded uint32p.dec_padded int64p.dec_padded
  locatorp.dec_padded

text \<open>
  C26: any parameter list written by the encoder is read back by the decoder: the parameters
  in order under their identifiers, each value followed by at most three zero bytes of
  padding, and the loop ends at the sentinel.
\<close>

theorem param_list_roundtrip:
  assumes "list_all wf_param ps"
  shows "\<exists>d. newPLCDRDecoder (finish (fold (\<lambda>(pid, v). addParam pid v) ps newPLCDREncoder)) = Some d
     \<and> params d = map (apsnd padded) ps
     \<and> (\<forall>(pid, v) \<in> set ps. \<exists>k < 4. padded v = v @ replicate k 0)"
proof -
  have "fold (\<lambda>(pid, v). addParam pid v) ps e = e @ concat (map (\<lambda>(pid, v). paramBytes pid v) ps)" for e
    by (induction ps arbitrary: e) (auto simp: addParam_eq)
  moreover have "padLen (length v) - length v < 4" for v :: bytes
    unfolding padLen_def by linarith
  ultimately show ?thesis
    using params_concat [OF assms, of sentinel] by (auto simp: finish_eq padded_def)
qed

theorem param_list_roundtrip_witness:
  "\<exists>d. newPLCDRDecoder (finish (fold (\<lambda>(pid, v). addParam pid v)
        [(pidTopicName, stringBytes [97]), (pidOwnership, [1, 0, 0, 0])] newPLCDREncoder)) = Some d
     \<and> params d = [(pidTopicName, [2, 0, 0, 0, 97, 0, 0, 0]), (pidOwnership, [1, 0, 0, 0])]"
proof -
  have r2: "replicate 2 (0 :: byte) = [0, 0]" by (simp add: numeral_2_eq_2)
  show ?thesis
    using param_list_roundtrip [of "[(pidTopicName, stringBytes [97]), (pidOwnership, [1, 0, 0, 0])]"]
    by (simp add: wf_param_def pid_defs stringBytes_def padded_def padLen_def put_defs r2)
qed

text \<open>
  Every value a discovery announcement carries is recovered from its padded parameter:
  strings, GUIDs, 32-bit and 64-bit integers and locators.
\<close>

lemma param_values_roundtrip:
  "(length s < 2 ^ 32 - 1 \<longrightarrow> decodeString (padded (stringBytes s)) = Some s)
   \<and> (wf_guid g \<longrightarrow> decodeGUID (padded (guidBytes g)) = Some g)
   \<and> decodeUint32 (padded (PutUint32 v)) = Some v
   \<and> decodeInt64 (padded (PutUint64 n)) = Some n
   \<and> (wf_locator l \<longrightarrow> unmarshalLocator (padded (marshalLocator l)) = Some l)"
  by simp

end
