(* ===== verification/Topic_Match.thy ===== *)
theory Topic_Match
  imports Dds_Prelude
begin

text \<open>
  Wildcard topic subscriptions (\<^verbatim>\<open>src/rtps/wildcard.go\<close>): a pattern and a topic are split at
  slashes and matched level by level. The recursive matcher is shown equal to a declarative
  reading of the rules.
\<close>

section \<open>Definitions\<close>

text \<open>\<^verbatim>\<open>strings.Split(s, "/")\<close>: the levels of a topic name, at least one.\<close>

fun splitLevels :: "string \<Rightarrow> string list" where
  "splitLevels [] = [[]]"
| "splitLevels (c # cs) =
     (if c = CHR ''/'' then [] # splitLevels cs
      else case splitLevels cs of [] \<Rightarrow> [[c]] | l # ls \<Rightarrow> (c # l) # ls)"

fun matchSlices :: "string list \<Rightarrow> string list \<Rightarrow> bool" where
  "matchSlices [] tSegs = (tSegs = [])"
| "matchSlices (p # ps) tSegs =
     (if p = ''#'' then True
      else case tSegs of
             [] \<Rightarrow> False
           | t # ts \<Rightarrow> if p = ''+'' \<or> p = t then matchSlices ps ts else False)"

definition TopicMatches :: "string \<Rightarrow> string \<Rightarrow> bool" where
  "TopicMatches pattern topic = matchSlices (splitLevels pattern) (splitLevels topic)"

text \<open>A topic name, a byte string, as the string the matcher reads.\<close>

definition topicString :: "bytes \<Rightarrow> string" where
  "topicString = map (\<lambda>b. char_of (unat b))"

section \<open>The rules, declaratively\<close>

text \<open>One level against one level, and the inverse of splitting.\<close>

definition levelOk :: "string \<Rightarrow> string \<Rightarrow> bool" where
  "levelOk p t \<longleftrightarrow> p = ''+'' \<or> p = t"

fun joinLevels :: "string list \<Rightarrow> string" where
  "joinLevels [] = []"
| "joinLevels [l] = l"
| "joinLevels (l # m # ls) = l @ CHR ''/'' # joinLevels (m # ls)"

lemma splitLevels_neq_Nil [simp]: "splitLevels s \<noteq> []"
  by (cases s) (auto split: list.split)

lemma joinLevels_splitLevels [simp]: "joinLevels (splitLevels s) = s"
proof (induction s)
  case Nil
  then show ?case by simp
next
  case (Cons c cs)
  then show ?case by (cases "splitLevels cs"; cases "tl (splitLevels cs)") auto
qed

lemma splitLevels_inj: "splitLevels s = splitLevels t \<longleftrightarrow> s = t"
  by (metis joinLevels_splitLevels)

lemma matchSlices_plain:
  "''#'' \<notin> set ps \<Longrightarrow> matchSlices ps ts \<longleftrightarrow> list_all2 levelOk ps ts"
  by (induction ps ts rule: matchSlices.induct) (auto simp: levelOk_def split: list.splits)

lemma matchSlices_hash:
  "''#'' \<notin> set ps \<Longrightarrow> matchSlices (ps @ ''#'' # qs) ts
     \<longleftrightarrow> length ps \<le> length ts \<and> list_all2 levelOk ps (take (length ps) ts)"
proof (induction ps arbitrary: ts)
  case Nil
  then show ?case by simp
next
  case (Cons p ps)
  then show ?case by (cases ts) (auto simp: levelOk_def)
qed

lemma list_all2_literal:
  "''+'' \<notin> set ps \<Longrightarrow> list_all2 levelOk ps ts \<longleftrightarrow> ts = ps"
proof (induction ps arbitrary: ts)
  case Nil
  then show ?case by simp
next
  case (Cons p ps)
  then show ?case by (cases ts) (auto simp: levelOk_def)
qed



end
