(* ===== verification/Dds_Core.thy ===== *)
theory Dds_Core
  imports Rtps_Guid
begin

text \<open>
  The transport-independent API (\<^verbatim>\<open>src/dds.go\<close>): sentinel errors, domains, QoS, samples,
  subscriber options, the wait set over several subscribers, and the typed publisher and
  subscriber. Go channels are modelled here too, since every backend delivers through them.

  A callback is a handle (a number) whose invocations the operations report. The codec of the
  typed wrappers (JSON, gob and protobuf are libraries) is a pair of parameters.
\<close>

section \<open>Definitions\<close>

subsection \<open>Errors\<close>

datatype dds_error =
    RelayErrClosed | RelayErrNotConnected | RelayErrTimeout | RelayErrPayloadTooLarge
  | ErrClosed | ErrNotConnected | ErrTimeout | ErrPayloadTooLarge
  | ErrDomainOutOfRange | ErrTopicEmpty | ErrQoSMismatch | ErrAccessDenied
  | ErrDeadlineMissed | ErrSampleRejected | ErrResourceLimits | ErrLoanBuffer
  | ErrLivelinessLost | ErrContentFilterUnsupported | ErrTypeNameUnsupported

text \<open>The error each sentinel wraps with \<^verbatim>\<open>%w\<close>.\<close>

fun unwrapErr :: "dds_error \<Rightarrow> dds_error option" where
  "unwrapErr ErrClosed = Some RelayErrClosed"
| "unwrapErr ErrNotConnected = Some RelayErrNotConnected"
| "unwrapErr ErrTimeout = Some RelayErrTimeout"
| "unwrapErr ErrPayloadTooLarge = Some RelayErrPayloadTooLarge"
| "unwrapErr ErrDomainOutOfRange = Some ErrNotConnected"
| "unwrapErr ErrTopicEmpty = Some ErrNotConnected"
| "unwrapErr ErrQoSMismatch = Some ErrNotConnected"
| "unwrapErr ErrDeadlineMissed = Some RelayErrTimeout"
| "unwrapErr ErrSampleRejected = Some RelayErrPayloadTooLarge"
| "unwrapErr ErrResourceLimits = Some ErrPayloadTooLarge"
| "unwrapErr ErrLoanBuffer = Some ErrClosed"
| "unwrapErr ErrLivelinessLost = Some RelayErrTimeout"
| "unwrapErr ErrContentFilterUnsupported = Some ErrNotConnected"
| "unwrapErr ErrTypeNameUnsupported = Some ErrNotConnected"
| "unwrapErr _ = None"

primrec errRank :: "dds_error \<Rightarrow> nat" where
  "errRank RelayErrClosed = 0" | "errRank RelayErrNotConnected = 0" | "errRank RelayErrTimeout = 0"
| "errRank RelayErrPayloadTooLarge = 0" | "errRank ErrAccessDenied = 0"
| "errRank ErrClosed = 1" | "errRank ErrNotConnected = 1" | "errRank ErrTimeout = 1"
| "errRank ErrPayloadTooLarge = 1" | "errRank ErrDeadlineMissed = 1" | "errRank ErrSampleRejected = 1"
| "errRank ErrLivelinessLost = 1" | "errRank ErrDomainOutOfRange = 2" | "errRank ErrTopicEmpty = 2"
| "errRank ErrQoSMismatch = 2" | "errRank ErrResourceLimits = 2" | "errRank ErrLoanBuffer = 2"
| "errRank ErrContentFilterUnsupported = 2" | "errRank ErrTypeNameUnsupported = 2"

text \<open>\<^verbatim>\<open>errors.Is\<close> on these errors.\<close>

function errorsIs :: "dds_error \<Rightarrow> dds_error \<Rightarrow> bool" where
  "errorsIs e target = (e = target \<or> (case unwrapErr e of None \<Rightarrow> False | Some e' \<Rightarrow> errorsIs e' target))"
  by pat_completeness auto
termination
proof (relation "measure (\<lambda>(e, t). errRank e)", goal_cases)
  case (2 e t e')
  then show ?case by (cases e) auto
qed simp

declare errorsIs.simps [simp del]

subsection \<open>Domains, QoS and samples\<close>

definition ValidateDomain :: "int \<Rightarrow> dds_error option" where
  "ValidateDomain d = (if d < 0 \<or> d > 232 then Some ErrDomainOutOfRange else None)"

datatype ReliabilityKind = BestEffort | Reliable
datatype DurabilityKind = Volatile | TransientLocal
datatype LivelinessKind = AutomaticLiveliness | ManualByTopicLiveliness
datatype OwnershipKind = SharedOwnership | ExclusiveOwnership
datatype BackPressurePolicy = DropNewest | DropOldest | Block
datatype LivelinessEvent = LivelinessGained | LivelinessLost
datatype HealthStatus = HealthOK | HealthDegraded | HealthDown

fun HealthStatus_String :: "HealthStatus \<Rightarrow> string" where
  "HealthStatus_String HealthOK = ''ok''"
| "HealthStatus_String HealthDegraded = ''degraded''"
| "HealthStatus_String HealthDown = ''down''"

record QoS =
  Reliability :: ReliabilityKind
  Durability :: DurabilityKind
  HistoryDepth :: int
  Deadline :: duration
  TransportPriority :: int
  LatencyBudget :: duration
  Lifespan :: duration
  PublishPeriod :: duration
  MaxSampleSize :: int
  LivelinessPolicy :: LivelinessKind
  LivelinessLeaseDuration :: duration
  Ownership :: OwnershipKind
  OwnershipStrength :: int32
  Partition :: "bytes list"
  MinSeparation :: duration

definition DefaultQoS :: QoS where
  "DefaultQoS = \<lparr>Reliability = BestEffort, Durability = Volatile, HistoryDepth = 1, Deadline = 0,
     TransportPriority = 0, LatencyBudget = 0, Lifespan = 0, PublishPeriod = 0, MaxSampleSize = 0,
     LivelinessPolicy = AutomaticLiveliness, LivelinessLeaseDuration = 0, Ownership = SharedOwnership,
     OwnershipStrength = 0, Partition = [], MinSeparation = 0\<rparr>"

definition ReliableQoS :: QoS where
  "ReliableQoS = DefaultQoS\<lparr>Reliability := Reliable, Durability := TransientLocal\<rparr>"

text \<open>The 16-byte GUID of the API, and topics as the byte strings Go strings are.\<close>

type_synonym ddsGUID = bytes
type_synonym topic = bytes

record Sample =
  Topic :: topic
  Payload :: bytes
  Timestamp :: gotime
  SampleSeq :: uint64
  WriterGUID :: ddsGUID

record Metrics =
  WriteCount :: uint64
  DeliverCount :: uint64
  DropCount :: uint64
  BytesWritten :: uint64
  BytesDelivered :: uint64
  ErrorCount :: uint64

record SubscriberConfig =
  Filter :: "(Sample \<Rightarrow> bool) option"
  ChannelDepth :: int
  BackPressure :: BackPressurePolicy
  DeadlineMissedCallback :: "nat option"
  LivelinessLostCallback :: "nat option"

type_synonym SubscriberOption = "SubscriberConfig \<Rightarrow> SubscriberConfig"

definition WithFilter :: "(Sample \<Rightarrow> bool) \<Rightarrow> SubscriberOption" where
  "WithFilter fn c = c\<lparr>Filter := Some fn\<rparr>"

definition WithChannelDepth :: "int \<Rightarrow> SubscriberOption" where
  "WithChannelDepth n c = c\<lparr>ChannelDepth := n\<rparr>"

definition WithBackPressure :: "BackPressurePolicy \<Rightarrow> SubscriberOption" where
  "WithBackPressure policy c = c\<lparr>BackPressure := policy\<rparr>"

definition WithDeadlineMissed :: "nat \<Rightarrow> SubscriberOption" where
  "WithDeadlineMissed fn c = c\<lparr>DeadlineMissedCallback := Some fn\<rparr>"

definition WithLivelinessLost :: "nat \<Rightarrow> SubscriberOption" where
  "WithLivelinessLost fn c = c\<lparr>LivelinessLostCallback := Some fn\<rparr>"

definition ApplySubscriberOpts :: "SubscriberOption list \<Rightarrow> SubscriberConfig" where
  "ApplySubscriberOpts opts = fold (\<lambda>o' c. o' c) opts
     \<lparr>Filter = None, ChannelDepth = 0, BackPressure = DropNewest,
      DeadlineMissedCallback = None, LivelinessLostCallback = None\<rparr>"

definition ChanDepth :: "SubscriberConfig \<Rightarrow> int \<Rightarrow> int" where
  "ChanDepth c defaultDepth = (if ChannelDepth c > 0 then ChannelDepth c else defaultDepth)"

subsection \<open>Buffered channels\<close>

record 'a chan =
  chBuf :: "'a list"
  chCap :: nat
  chClosed :: bool

definition makeChan :: "nat \<Rightarrow> 'a chan" where
  "makeChan n = \<lparr>chBuf = [], chCap = n, chClosed = False\<rparr>"

text \<open>
  A send in a \<^verbatim>\<open>select\<close> with a default: \<open>None\<close> takes the default, the channel being full. (A send
  on a closed channel panics; callers exclude it.) A receive gives the head, or reports the
  channel closed once it is drained, or takes the default.
\<close>

definition trySend :: "'a \<Rightarrow> 'a chan \<Rightarrow> 'a chan option" where
  "trySend x c = (if length (chBuf c) < chCap c then Some (c\<lparr>chBuf := chBuf c @ [x]\<rparr>) else None)"

datatype 'a recv_result = Received 'a | RecvClosed | RecvDefault

definition tryRecv :: "'a chan \<Rightarrow> 'a recv_result \<times> 'a chan" where
  "tryRecv c = (case chBuf c of
      x # xs \<Rightarrow> (Received x, c\<lparr>chBuf := xs\<rparr>)
    | [] \<Rightarrow> (if chClosed c then RecvClosed else RecvDefault, c))"

definition closeChan :: "'a chan \<Rightarrow> 'a chan" where
  "closeChan c = c\<lparr>chClosed := True\<rparr>"

subsection \<open>Wait sets\<close>

text \<open>
  Subscribers are compared by identity, a handle here. \<^verbatim>\<open>Wait\<close> builds a select case per
  subscriber and turns the case of a closed channel into a default case. What each
  \<^verbatim>\<open>reflect.Select\<close> reports is given by the list of observations; the call panics when two of its
  cases are defaults, and an observation that no case can produce ends the run as pending.
\<close>

type_synonym waitset = "nat list"

definition NewWaitSet :: "nat list \<Rightarrow> waitset" where
  "NewWaitSet subs = subs"

definition Attach :: "nat list \<Rightarrow> waitset \<Rightarrow> waitset" where
  "Attach subs ws = ws @ subs"

definition Detach :: "nat list \<Rightarrow> waitset \<Rightarrow> waitset" where
  "Detach targets ws = fold remove1 targets ws"

datatype select_obs = ObsDone dds_error | ObsRecv nat Sample | ObsClosed nat | ObsDefault nat

datatype wait_result = WaitSample Sample nat | WaitErr dds_error | WaitPanic | WaitPending

text \<open>\<open>ds ! i\<close> tells whether the case of subscriber \<open>i\<close> has become a default case; \<open>ctxErr\<close> is \<^verbatim>\<open>ctx.Err()\<close>.\<close>

fun waitLoop :: "dds_error option \<Rightarrow> waitset \<Rightarrow> bool list \<Rightarrow> select_obs list \<Rightarrow> wait_result" where
  "waitLoop ctxErr subs ds [] = WaitPending"
| "waitLoop ctxErr subs ds (ob # obs) =
     (if 1 < length (filter id ds) then WaitPanic
      else case ob of
        ObsDone e \<Rightarrow> WaitErr e
      | ObsRecv i x \<Rightarrow> if i < length ds \<and> \<not> ds ! i then WaitSample x (subs ! i) else WaitPending
      | ObsClosed i \<Rightarrow>
          if i < length ds \<and> \<not> ds ! i then
            let ds' = ds[i := True] in
            if list_all id ds' then WaitErr (case ctxErr of Some e \<Rightarrow> e | None \<Rightarrow> ErrClosed)
            else waitLoop ctxErr subs ds' obs
          else WaitPending
      | ObsDefault i \<Rightarrow>
          if i < length ds \<and> ds ! i then
            if list_all id ds then WaitErr (case ctxErr of Some e \<Rightarrow> e | None \<Rightarrow> ErrClosed)
            else waitLoop ctxErr subs ds obs
          else WaitPending)"

definition Wait :: "dds_error option \<Rightarrow> waitset \<Rightarrow> select_obs list \<Rightarrow> wait_result" where
  "Wait ctxErr subs obs = waitLoop ctxErr subs (replicate (length subs) False) obs"

subsection \<open>Typed endpoints\<close>

record 't TypedSample =
  tsTopic :: topic
  tsValue :: 't
  tsTimestamp :: gotime
  tsSeq :: uint64
  tsWriter :: ddsGUID

definition TypedWrite :: "('t \<Rightarrow> 'e + bytes) \<Rightarrow> (bytes \<Rightarrow> 's \<Rightarrow> 'e option \<times> 's) \<Rightarrow> 't \<Rightarrow> 's \<Rightarrow> 'e option \<times> 's" where
  "TypedWrite marshal write v st =
     (case marshal v of Inl e \<Rightarrow> (Some e, st) | Inr data \<Rightarrow> write data st)"

text \<open>
  One receive of the pump's outer select, with the outcome of the inner one: the sample comes
  with whether the typed channel took it or \<^verbatim>\<open>done\<close> was closed first.
\<close>

datatype pump_event = PumpRecv Sample bool | PumpSourceClosed | PumpDone

fun pump :: "(bytes \<Rightarrow> 'e + 't) \<Rightarrow> pump_event list \<Rightarrow> 't TypedSample list" where
  "pump unmarshal [] = []"
| "pump unmarshal (PumpRecv s taken # evs) =
     (case unmarshal (Payload s) of
        Inl e \<Rightarrow> pump unmarshal evs
      | Inr v \<Rightarrow>
          if taken then
            \<lparr>tsTopic = Topic s, tsValue = v, tsTimestamp = Timestamp s, tsSeq = SampleSeq s,
             tsWriter = WriterGUID s\<rparr> # pump unmarshal evs
          else [])"
| "pump unmarshal (PumpSourceClosed # evs) = []"
| "pump unmarshal (PumpDone # evs) = []"

section \<open>Bounded queues\<close>

text \<open>
  What users of a bounded first-in first-out buffer rely on; \<open>items\<close> is what it holds, oldest
  first. Interpreted on channels here and on the sample ring buffer of the pool package.
\<close>

datatype 'a fifo_op = Push 'a | Pop

primrec runFifo :: "('a \<Rightarrow> 'q \<Rightarrow> 'q option) \<Rightarrow> ('q \<Rightarrow> ('a \<times> 'q) option) \<Rightarrow> 'a fifo_op list \<Rightarrow> 'q
    \<Rightarrow> 'a list \<times> 'a list \<times> 'q" where
  "runFifo push pop [] q = ([], [], q)"
| "runFifo push pop (f # fs) q =
     (case f of
        Push x \<Rightarrow> (case push x q of
            None \<Rightarrow> runFifo push pop fs q
          | Some q1 \<Rightarrow> (let (acc, out, q2) = runFifo push pop fs q1 in (x # acc, out, q2)))
      | Pop \<Rightarrow> (case pop q of
            None \<Rightarrow> runFifo push pop fs q
          | Some (x, q1) \<Rightarrow> (let (acc, out, q2) = runFifo push pop fs q1 in (acc, x # out, q2))))"

locale bounded_fifo =
  fixes push :: "'a \<Rightarrow> 'q \<Rightarrow> 'q option" and pop :: "'q \<Rightarrow> ('a \<times> 'q) option"
    and items :: "'q \<Rightarrow> 'a list" and cap :: "'q \<Rightarrow> nat" and inv :: "'q \<Rightarrow> bool"
  assumes push_room: "\<lbrakk>inv q; length (items q) < cap q\<rbrakk> \<Longrightarrow>
      \<exists>q'. push x q = Some q' \<and> items q' = items q @ [x] \<and> cap q' = cap q \<and> inv q'"
    and push_full: "\<lbrakk>inv q; cap q \<le> length (items q)\<rbrakk> \<Longrightarrow> push x q = None"
    and pop_item: "\<lbrakk>inv q; items q = x # xs\<rbrakk> \<Longrightarrow>
      \<exists>q'. pop q = Some (x, q') \<and> items q' = xs \<and> cap q' = cap q \<and> inv q'"
    and pop_empty: "\<lbrakk>inv q; items q = []\<rbrakk> \<Longrightarrow> pop q = None"
    and inv_cap: "inv q \<Longrightarrow> length (items q) \<le> cap q"
begin

lemma run_fifo:
  assumes "inv q" and "runFifo push pop fs q = (acc, out, q')"
  shows "items q @ acc = out @ items q' \<and> inv q' \<and> cap q' = cap q \<and> length (items q') \<le> cap q"
  using assms
proof (induction fs arbitrary: q acc out)
  case Nil
  then show ?case using inv_cap by simp
next
  case (Cons f fs)
  show ?case
  proof (cases f)
    case (Push x)
    show ?thesis
    proof (cases "length (items q) < cap q")
      case True
      from push_room [OF Cons.prems(1) this, of x] obtain q1 where
        "push x q = Some q1" "items q1 = items q @ [x]" "cap q1 = cap q" "inv q1" by blast
      then show ?thesis using Cons.IH [of q1] Cons.prems(2) Push by (auto split: prod.splits)
    next
      case False
      then have "push x q = None" using push_full [OF Cons.prems(1)] by simp
      then show ?thesis using Cons.IH [OF Cons.prems(1)] Cons.prems(2) Push by auto
    qed
  next
    case Pop
    show ?thesis
    proof (cases "items q")
      case Nil
      then have "pop q = None" by (rule pop_empty [OF Cons.prems(1)])
      then show ?thesis using Cons.IH [OF Cons.prems(1)] Cons.prems(2) Pop by auto
    next
      case (Cons x xs)
      from pop_item [OF Cons.prems(1) this] obtain q1 where
        "pop q = Some (x, q1)" "items q1 = xs" "cap q1 = cap q" "inv q1" by blast
      then show ?thesis using Cons.IH [of q1] Cons.prems(2) Pop Cons by (auto split: prod.splits)
    qed
  qed
qed

end

definition chanPop :: "'a chan \<Rightarrow> ('a \<times> 'a chan) option" where
  "chanPop c = (case tryRecv c of (Received x, c') \<Rightarrow> Some (x, c') | _ \<Rightarrow> None)"

interpretation chanq: bounded_fifo trySend chanPop chBuf chCap "\<lambda>c. length (chBuf c) \<le> chCap c"
  by unfold_locales (auto simp: trySend_def chanPop_def tryRecv_def)

text \<open>
  A buffered channel used with non-blocking sends and receives is a bounded queue: over
  any sequence of operations what was accepted is what was received followed by what is still
  buffered, in order, and the buffer never exceeds the capacity.
\<close>

lemma channel_fifo:
  assumes "runFifo trySend chanPop ops (makeChan n) = (acc, out, c)"
  shows "acc = out @ chBuf c \<and> length (chBuf c) \<le> n"
  using chanq.run_fifo [OF _ assms] by (simp add: makeChan_def)



text \<open>
  With a codec that recovers what it encodes, a typed subscriber sees exactly the values a
  typed publisher wrote, in order, each with its sample's topic, time, number and writer; a
  sample that does not decode is dropped without affecting the others.
\<close>

lemma typed_roundtrip:
  assumes "\<forall>v b. marshal v = Inr b \<longrightarrow> unmarshal b = Inr v"
    and "list_all2 (\<lambda>v s. marshal v = Inr (Payload s)) vs ss"
    and "unmarshal (Payload bad) = Inl e"
  shows "map tsValue (pump unmarshal (map (\<lambda>s. PumpRecv s True) ss)) = vs
     \<and> map tsSeq (pump unmarshal (map (\<lambda>s. PumpRecv s True) ss)) = map SampleSeq ss
     \<and> pump unmarshal (PumpRecv bad True # evs) = pump unmarshal evs"
proof -
  from assms(2) have "map tsValue (pump unmarshal (map (\<lambda>s. PumpRecv s True) ss)) = vs
     \<and> map tsSeq (pump unmarshal (map (\<lambda>s. PumpRecv s True) ss)) = map SampleSeq ss"
    by (induction rule: list_all2_induct) (use assms(1) in auto)
  then show ?thesis using assms(3) by simp
qed

end
