(* ===== verification/Qos_Enforce.thy ===== *)
theory Qos_Enforce
  imports Dds_Core
begin

text \<open>
  Active QoS policies (\<^verbatim>\<open>src/rtps/qos_enforce.go\<close>): partition matching, ownership arbitration,
  liveliness leases on the reader side and the time-based filter. The parts of \<^verbatim>\<open>rtpsReader\<close>
  these use are the records \<open>liveliness_state\<close> and \<open>tbf_state\<close>. A Go map that is ranged over is
  an association list with distinct keys, whose order stands for the iteration order; results
  are shown not to depend on it.
\<close>

section \<open>Definitions\<close>

subsection \<open>Partition\<close>

definition partitionsMatch :: "bytes list \<Rightarrow> bytes list \<Rightarrow> bool" where
  "partitionsMatch a b =
     (let an = (if a = [] then [[]] else a); bn = (if b = [] then [[]] else b)
      in list_ex (\<lambda>x. list_ex (\<lambda>y. x = y) bn) an)"

subsection \<open>Ownership\<close>

record ownershipState =
  strengths :: "(GUID \<times> int32) list"
  active :: GUID

definition newOwnership :: ownershipState where
  "newOwnership = \<lparr>strengths = [], active = zeroGUID\<rparr>"

text \<open>The body of the scan in \<^verbatim>\<open>recomputeLocked\<close>; \<open>None\<close> is \<^verbatim>\<open>have == false\<close>.\<close>

definition betterOwner :: "GUID \<times> int32 \<Rightarrow> (GUID \<times> int32) option \<Rightarrow> (GUID \<times> int32) option" where
  "betterOwner gs best =
     (case best of
        None \<Rightarrow> Some gs
      | Some (b, bs) \<Rightarrow>
          if sint (snd gs) > sint bs \<or> (snd gs = bs \<and> guidLess (fst gs) b) then Some gs else best)"

definition recomputeLocked :: "ownershipState \<Rightarrow> ownershipState" where
  "recomputeLocked os =
     os\<lparr>active := (case fold betterOwner (strengths os) None of Some (b, _) \<Rightarrow> b | None \<Rightarrow> zeroGUID)\<rparr>"

definition register :: "GUID \<Rightarrow> int32 \<Rightarrow> ownershipState \<Rightarrow> ownershipState" where
  "register g strength os = recomputeLocked (os\<lparr>strengths := AList.update g strength (strengths os)\<rparr>)"

definition unregister :: "GUID \<Rightarrow> ownershipState \<Rightarrow> ownershipState" where
  "unregister g os = recomputeLocked (os\<lparr>strengths := AList.delete g (strengths os)\<rparr>)"

definition allows :: "ownershipState \<Rightarrow> GUID \<Rightarrow> bool" where
  "allows os g = (if length (strengths os) = 0 then True else g = active os)"

text \<open>The participant's \<^verbatim>\<open>ownership\<close> map, by topic.\<close>

type_synonym ownership_map = "topic \<Rightarrow> ownershipState option"

definition ownershipStateFor :: "topic \<Rightarrow> ownership_map \<Rightarrow> ownershipState" where
  "ownershipStateFor topic om = (case om topic of Some os \<Rightarrow> os | None \<Rightarrow> newOwnership)"

definition ownershipAllows :: "ownership_map \<Rightarrow> topic \<Rightarrow> GUID \<Rightarrow> bool" where
  "ownershipAllows om topic source = (case om topic of None \<Rightarrow> True | Some os \<Rightarrow> allows os source)"

subsection \<open>Liveliness\<close>

definition minLivelinessAssertPeriod :: duration where
  "minLivelinessAssertPeriod = 10 * millisecond"

text \<open>The ticker period of \<^verbatim>\<open>livelinessLoop\<close>; the lease of a writer that runs it is positive.\<close>

definition livelinessPeriod :: "duration \<Rightarrow> duration" where
  "livelinessPeriod lease =
     (let period = lease div 3
      in if period < minLivelinessAssertPeriod then minLivelinessAssertPeriod else period)"

definition livelinessPollInterval :: duration where
  "livelinessPollInterval = 100 * millisecond"

record liveliness_state =
  writerLease :: "(GUID \<times> duration) list"
  lastSeenAlive :: "GUID \<Rightarrow> gotime"
  livelinessFired :: "GUID \<Rightarrow> bool"

definition newLiveliness :: liveliness_state where
  "newLiveliness = \<lparr>writerLease = [], lastSeenAlive = (\<lambda>_. zeroTime), livelinessFired = (\<lambda>_. False)\<rparr>"

definition registerWriterLease :: "gotime \<Rightarrow> GUID \<Rightarrow> duration \<Rightarrow> liveliness_state \<Rightarrow> liveliness_state" where
  "registerWriterLease now g lease ls =
     ls\<lparr>writerLease := AList.update g lease (writerLease ls),
        lastSeenAlive := (lastSeenAlive ls)(g := now), livelinessFired := (livelinessFired ls)(g := False)\<rparr>"

definition touchLiveliness :: "gotime \<Rightarrow> GUID \<Rightarrow> liveliness_state \<Rightarrow> liveliness_state" where
  "touchLiveliness now g ls =
     (if map_of (writerLease ls) g = None then ls
      else ls\<lparr>lastSeenAlive := (lastSeenAlive ls)(g := now),
              livelinessFired := (livelinessFired ls)(g := False)\<rparr>)"

text \<open>The scan of \<^verbatim>\<open>checkLiveliness\<close>, and the GUIDs it passes to the callback.\<close>

definition scanLease :: "gotime \<Rightarrow> GUID \<times> duration \<Rightarrow> GUID list \<times> liveliness_state \<Rightarrow> GUID list \<times> liveliness_state" where
  "scanLease now gl acc =
     (case acc of (lost, ls) \<Rightarrow>
        if livelinessFired ls (fst gl) then (lost, ls)
        else if timeSub now (lastSeenAlive ls (fst gl)) > snd gl
        then (lost @ [fst gl], ls\<lparr>livelinessFired := (livelinessFired ls)(fst gl := True)\<rparr>)
        else (lost, ls))"

definition toDdsGUID :: "GUID \<Rightarrow> ddsGUID" where
  "toDdsGUID g = Prefix g @ Entity g"

definition scanLeases :: "gotime \<Rightarrow> liveliness_state \<Rightarrow> GUID list \<times> liveliness_state" where
  "scanLeases now ls = fold (scanLease now) (writerLease ls) ([], ls)"

definition checkLiveliness :: "gotime \<Rightarrow> nat option \<Rightarrow> liveliness_state \<Rightarrow> (nat \<times> ddsGUID) list \<times> liveliness_state" where
  "checkLiveliness now cb ls =
     (let (lost, ls') = scanLeases now ls
      in case cb of
           None \<Rightarrow> ([], ls')
         | Some f \<Rightarrow> (map (\<lambda>g. (f, toDdsGUID g)) lost, ls'))"

subsection \<open>Time-based filter\<close>

record tbf_state =
  minSeparation :: duration
  lastDelivered :: "GUID \<Rightarrow> gotime option"

definition passesTimeBasedFilter :: "GUID \<Rightarrow> gotime \<Rightarrow> tbf_state \<Rightarrow> bool \<times> tbf_state" where
  "passesTimeBasedFilter source now tb =
     (if minSeparation tb \<le> 0 then (True, tb)
      else if (case lastDelivered tb source of Some prev \<Rightarrow> timeSub now prev < minSeparation tb | None \<Rightarrow> False)
      then (False, tb)
      else (True, tb\<lparr>lastDelivered := (lastDelivered tb)(source \<mapsto> now)\<rparr>))"

section \<open>Ownership arbitration\<close>

text \<open>The writer that owns a topic: the strongest registered one, the least GUID among equals.\<close>

definition topOwner :: "(GUID \<rightharpoonup> int32) \<Rightarrow> GUID \<Rightarrow> bool" where
  "topOwner m g \<longleftrightarrow> (\<exists>s. m g = Some s \<and>
     (\<forall>g' s'. m g' = Some s' \<and> g' \<noteq> g \<longrightarrow> sint s' < sint s \<or> (s' = s \<and> g < g')))"

definition beats :: "GUID \<times> int32 \<Rightarrow> GUID \<times> int32 \<Rightarrow> bool" where
  "beats x y \<longleftrightarrow> sint (snd x) > sint (snd y) \<or> (snd x = snd y \<and> fst x < fst y)"

lemma beats_alt:
  "beats x y \<longleftrightarrow> sint (snd x) > sint (snd y) \<or> (sint (snd x) = sint (snd y) \<and> fst x < fst y)"
proof -
  have "sint (snd x) = sint (snd y) \<longleftrightarrow> snd x = snd y" by (auto intro: signed_word_eqI)
  then show ?thesis by (auto simp: beats_def)
qed

lemma not_beats_trans: "\<not> beats x y \<Longrightarrow> \<not> beats y z \<Longrightarrow> \<not> beats x z"
  unfolding beats_alt by (auto simp: not_less)

lemma beats_total: "fst x \<noteq> fst y \<Longrightarrow> beats x y \<or> beats y x"
  unfolding beats_alt by (auto simp: not_less)

lemma beats_asym: "beats x y \<Longrightarrow> \<not> beats y x"
  unfolding beats_alt by auto

lemma betterOwner_Some: "betterOwner x (Some y) = Some (if beats x y then x else y)"
  by (cases y) (auto simp: betterOwner_def beats_def less_GUID_def)

lemma fold_betterOwner:
  "\<exists>m. fold betterOwner xs (Some a) = Some m \<and> m \<in> insert a (set xs)
     \<and> (\<forall>y \<in> insert a (set xs). \<not> beats y m)"
proof (induction xs arbitrary: a)
  case Nil
  then show ?case by (auto simp: beats_def)
next
  case (Cons x xs)
  define b where "b = (if beats x a then x else a)"
  from Cons [of b] obtain m where m: "fold betterOwner xs (Some b) = Some m" "m \<in> insert b (set xs)"
    "\<forall>y \<in> insert b (set xs). \<not> beats y m" by blast
  have "\<not> beats a m" "\<not> beats x m"
    using m(3) not_beats_trans [of x a m] not_beats_trans [of a x m] beats_asym [of x a]
    by (auto simp: b_def split: if_splits)
  then show ?case using m by (auto simp: betterOwner_Some b_def split: if_splits)
qed

definition ownership_inv :: "ownershipState \<Rightarrow> bool" where
  "ownership_inv os \<longleftrightarrow> distinct (map fst (strengths os))
     \<and> (strengths os \<noteq> [] \<longrightarrow> topOwner (map_of (strengths os)) (active os))"

lemma topOwner_unique: "topOwner m g \<Longrightarrow> topOwner m h \<Longrightarrow> g = h"
  unfolding topOwner_def by (metis less_irrefl less_trans)

lemma recompute_inv:
  assumes "distinct (map fst (strengths os))"
  shows "ownership_inv (recomputeLocked os)"
proof (cases "strengths os")
  case Nil
  then show ?thesis by (simp add: ownership_inv_def recomputeLocked_def)
next
  case (Cons a xs)
  from fold_betterOwner [of xs a] obtain g s where
    m: "fold betterOwner (strengths os) None = Some (g, s)" "(g, s) \<in> set (strengths os)"
      "\<And>y. y \<in> set (strengths os) \<Longrightarrow> \<not> beats y (g, s)"
    by (auto simp: Cons betterOwner_def)
  have "sint s' < sint s \<or> (s' = s \<and> g < g')"
    if "map_of (strengths os) g' = Some s'" "g' \<noteq> g" for g' s'
    using m(3) [OF map_of_SomeD [OF that(1)]] beats_total [of "(g, s)" "(g', s')"] that(2)
    by (auto simp: beats_def)
  moreover have "map_of (strengths os) g = Some s" using assms m(2) by simp
  ultimately have "topOwner (map_of (strengths os)) g" unfolding topOwner_def by blast
  then show ?thesis using assms m(1) by (simp add: ownership_inv_def recomputeLocked_def)
qed

lemma register_inv: "ownership_inv os \<Longrightarrow> ownership_inv (register g s os)"
  unfolding register_def by (rule recompute_inv) (simp add: ownership_inv_def distinct_update)

lemma unregister_inv: "ownership_inv os \<Longrightarrow> ownership_inv (unregister g os)"
  unfolding unregister_def by (rule recompute_inv) (simp add: ownership_inv_def distinct_delete)

lemma allows_iff:
  assumes "ownership_inv os"
  shows "allows os g \<longleftrightarrow> map_of (strengths os) = Map.empty \<or> topOwner (map_of (strengths os)) g"
  using assms topOwner_unique by (auto simp: ownership_inv_def allows_def)

datatype owner_op = Register GUID int32 | Unregister GUID

fun runOwner :: "owner_op list \<Rightarrow> ownershipState \<Rightarrow> ownershipState" where
  "runOwner [] os = os"
| "runOwner (Register g s # ops) os = runOwner ops (register g s os)"
| "runOwner (Unregister g # ops) os = runOwner ops (unregister g os)"

fun ownerMap :: "owner_op list \<Rightarrow> (GUID \<rightharpoonup> int32) \<Rightarrow> (GUID \<rightharpoonup> int32)" where
  "ownerMap [] m = m"
| "ownerMap (Register g s # ops) m = ownerMap ops (m(g \<mapsto> s))"
| "ownerMap (Unregister g # ops) m = ownerMap ops (m(g := None))"

lemma strengths_register: "map_of (strengths (register g s os)) = (map_of (strengths os))(g \<mapsto> s)"
  by (rule ext) (simp add: register_def recomputeLocked_def)

lemma strengths_unregister: "map_of (strengths (unregister g os)) = (map_of (strengths os))(g := None)"
  by (rule ext) (simp add: unregister_def recomputeLocked_def)

lemma runOwner_inv:
  "ownership_inv os \<Longrightarrow> ownership_inv (runOwner ops os)
     \<and> map_of (strengths (runOwner ops os)) = ownerMap ops (map_of (strengths os))"
  by (induction ops os rule: runOwner.induct)
    (simp_all add: register_inv unregister_inv strengths_register strengths_unregister)

text \<open>
  C9: whatever exclusive writers register, re-register and leave, and whatever the map's
  iteration order, a topic delivers the samples of the strongest registered writer and of no
  other, the least GUID winning ties; with none registered every writer is delivered. So
  participants that know the same writers agree on the owner, however they learnt of them.
\<close>

theorem ownership_arbitration:
  "allows (runOwner ops newOwnership) g
     \<longleftrightarrow> ownerMap ops Map.empty = Map.empty \<or> topOwner (ownerMap ops Map.empty) g"
proof -
  have "ownership_inv newOwnership" by (simp add: ownership_inv_def newOwnership_def)
  from runOwner_inv [OF this, of ops] allows_iff [of "runOwner ops newOwnership" g]
  show ?thesis by (simp add: newOwnership_def)
qed

section \<open>Partitions\<close>

definition partitionSet :: "bytes list \<Rightarrow> bytes set" where
  "partitionSet a = (if a = [] then {[]} else set a)"

lemma partitionsMatch_iff: "partitionsMatch a b \<longleftrightarrow> partitionSet a \<inter> partitionSet b \<noteq> {}"
  by (auto simp: partitionsMatch_def partitionSet_def Let_def list_ex_iff)

lemma partitionsMatch_sym: "partitionsMatch a b = partitionsMatch b a"
  by (auto simp: partitionsMatch_iff)

section \<open>Liveliness\<close>

definition overdue :: "gotime \<Rightarrow> liveliness_state \<Rightarrow> GUID \<times> duration \<Rightarrow> bool" where
  "overdue now ls gl \<longleftrightarrow> \<not> livelinessFired ls (fst gl) \<and> timeSub now (lastSeenAlive ls (fst gl)) > snd gl"

lemma fold_scanLease:
  assumes "distinct (map fst gls)"
  shows "fold (scanLease now) gls (lost, ls)
    = (lost @ map fst (filter (overdue now ls) gls),
       ls\<lparr>livelinessFired := (\<lambda>g. livelinessFired ls g \<or> g \<in> fst ` set (filter (overdue now ls) gls))\<rparr>)"
  using assms
proof (induction gls arbitrary: lost ls)
  case Nil
  then show ?case by simp
next
  case (Cons gl gls)
  define ls' where "ls' = (if overdue now ls gl
      then ls\<lparr>livelinessFired := (livelinessFired ls)(fst gl := True)\<rparr> else ls)"
  have step: "scanLease now gl (lost, ls) = (if overdue now ls gl then lost @ [fst gl] else lost, ls')"
    by (auto simp: scanLease_def overdue_def ls'_def)
  have "overdue now ls' x = overdue now ls x" if "x \<in> set gls" for x
    using Cons.prems that by (auto simp: ls'_def overdue_def image_iff)
  then have same: "filter (overdue now ls') gls = filter (overdue now ls) gls" by (rule filter_cong [OF refl])
  show ?case using Cons
    by (simp add: step same del: set_filter) (auto simp: ls'_def simp del: set_filter intro!: arg_cong [where f = "\<lambda>f. livelinessFired_update f ls"])
qed

lemma scanLeases_eq:
  assumes "distinct (map fst (writerLease ls))"
  shows "scanLeases now ls = (map fst (filter (overdue now ls) (writerLease ls)),
     ls\<lparr>livelinessFired := (\<lambda>g. livelinessFired ls g
        \<or> g \<in> fst ` set (filter (overdue now ls) (writerLease ls)))\<rparr>)"
  using fold_scanLease [OF assms] by (simp add: scanLeases_def)

datatype live_op = LiveRegister gotime GUID duration | LiveTouch gotime GUID | LiveCheck gotime

text \<open>The writers reported lost by each check of a run.\<close>

fun runLive :: "live_op list \<Rightarrow> liveliness_state \<Rightarrow> GUID list list" where
  "runLive [] ls = []"
| "runLive (LiveRegister now g lease # ops) ls = runLive ops (registerWriterLease now g lease ls)"
| "runLive (LiveTouch now g # ops) ls = runLive ops (touchLiveliness now g ls)"
| "runLive (LiveCheck now # ops) ls = (let (lost, ls') = scanLeases now ls in lost # runLive ops ls')"

fun hears :: "GUID \<Rightarrow> live_op \<Rightarrow> bool" where
  "hears g (LiveRegister now g' lease) = (g' = g)"
| "hears g (LiveTouch now g') = (g' = g)"
| "hears g (LiveCheck now) = False"

lemma fired_stays_silent:
  assumes "distinct (map fst (writerLease ls))" and "livelinessFired ls g" and "\<forall>f \<in> set ops. \<not> hears g f"
  shows "\<forall>lost \<in> set (runLive ops ls). g \<notin> set lost"
  using assms
proof (induction ops ls rule: runLive.induct)
  case (2 now h lease ops ls)
  then show ?case by (auto simp: registerWriterLease_def distinct_update)
next
  case (3 now h ops ls)
  then show ?case by (auto simp: touchLiveliness_def split: if_splits)
next
  case (4 now ops ls)
  then show ?case by (auto simp: scanLeases_eq overdue_def)
qed simp



section \<open>Time-based filter\<close>

fun runTbf :: "(GUID \<times> gotime) list \<Rightarrow> tbf_state \<Rightarrow> (GUID \<times> gotime) list" where
  "runTbf [] tb = []"
| "runTbf ((g, now) # xs) tb =
     (let (pass, tb') = passesTimeBasedFilter g now tb in if pass then (g, now) # runTbf xs tb' else runTbf xs tb')"

lemma runTbf_own_samples:
  assumes "lastDelivered tb g = lastDelivered tb' g" and "minSeparation tb = minSeparation tb'"
  shows "filter (\<lambda>x. fst x = g) (runTbf xs tb) = runTbf (filter (\<lambda>x. fst x = g) xs) tb'"
  using assms
proof (induction xs tb arbitrary: tb' rule: runTbf.induct)
  case (2 h now xs tb)
  show ?case
  proof (cases "h = g")
    case True
    then show ?thesis
      using 2 by (auto simp: passesTimeBasedFilter_def Let_def split: prod.splits option.splits if_splits)
  next
    case False
    then show ?thesis
      using 2 by (auto simp: passesTimeBasedFilter_def Let_def split: prod.splits option.splits if_splits)
  qed
qed simp

lemma runTbf_separated:
  assumes "0 < minSeparation tb" and "\<forall>x \<in> set xs. fst x = g"
  shows "successively (\<lambda>t t'. minSeparation tb \<le> timeSub t' t) (map snd (runTbf xs tb))
     \<and> (\<forall>t. lastDelivered tb g = Some t \<and> runTbf xs tb \<noteq> [] \<longrightarrow>
           minSeparation tb \<le> timeSub (snd (hd (runTbf xs tb))) t)"
  using assms
proof (induction xs arbitrary: tb)
  case Nil
  then show ?case by simp
next
  case (Cons x xs)
  obtain now where x: "x = (g, now)" using Cons.prems(2) by (cases x) auto
  define tb' where "tb' = tb\<lparr>lastDelivered := (lastDelivered tb)(g \<mapsto> now)\<rparr>"
  consider (drop) t where "lastDelivered tb g = Some t" "timeSub now t < minSeparation tb"
    | (pass) "case lastDelivered tb g of None \<Rightarrow> True | Some t \<Rightarrow> minSeparation tb \<le> timeSub now t"
    by (cases "lastDelivered tb g") (auto simp: not_less [symmetric])
  then show ?case
  proof cases
    case drop
    then have "runTbf (x # xs) tb = runTbf xs tb"
      using Cons.prems(1) by (simp add: x passesTimeBasedFilter_def)
    then show ?thesis using Cons.IH [of tb] Cons.prems by simp
  next
    case pass
    then have "runTbf (x # xs) tb = (g, now) # runTbf xs tb'"
      using Cons.prems(1) by (auto simp: x passesTimeBasedFilter_def tb'_def split: option.splits)
    moreover have "successively (\<lambda>t t'. minSeparation tb \<le> timeSub t' t) (map snd (runTbf xs tb'))"
      "runTbf xs tb' \<noteq> [] \<Longrightarrow> minSeparation tb \<le> timeSub (snd (hd (runTbf xs tb'))) now"
      using Cons.IH [of tb'] Cons.prems by (auto simp: tb'_def)
    ultimately show ?thesis
      using pass by (cases "runTbf xs tb'") (auto simp: successively_Cons split: option.splits)
  qed
qed

text \<open>
  C25: with a positive minimum separation, two successive samples of a writer that a reader
  delivers are at least that far apart, and which of a writer's samples pass depends on that
  writer's samples alone.
\<close>

theorem tbf_separation:
  assumes "0 < minSeparation tb"
  shows "successively (\<lambda>t t'. minSeparation tb \<le> timeSub t' t)
        (map snd (filter (\<lambda>x. fst x = g) (runTbf xs tb)))
    \<and> filter (\<lambda>x. fst x = g) (runTbf xs tb) = runTbf (filter (\<lambda>x. fst x = g) xs) tb"
  using runTbf_own_samples [of tb g tb xs] runTbf_separated [OF assms, of "filter (\<lambda>x. fst x = g) xs" g] by simp

theorem tbf_separation_witness:
  "successively (\<lambda>t t'. 10 \<le> timeSub t' t) (map snd (filter (\<lambda>x. fst x = zeroGUID)
      (runTbf [(zeroGUID, 0), (zeroGUID, 4), (zeroGUID, 12)] \<lparr>minSeparation = 10, lastDelivered = (\<lambda>_. None)\<rparr>)))"
proof -
  have "0 < minSeparation \<lparr>minSeparation = 10, lastDelivered = (\<lambda>_. None)\<rparr>" by simp
  from tbf_separation [OF this, of zeroGUID "[(zeroGUID, 0), (zeroGUID, 4), (zeroGUID, 12)]", THEN conjunct1]
  show ?thesis by (simp only: tbf_state.select_convs)
qed

end
