(* ===== verification/Rtps_State.thy ===== *)
theory Rtps_State
  imports Rtps_Reliable Rtps_Fragment Rtps_Cdr Topic_Match Qos_Enforce
begin

text \<open>
  The state of an RTPS participant (\<^verbatim>\<open>rtps/participant.go\<close>, with the service structs of
  \<^verbatim>\<open>rtps/spdp.go\<close> and \<^verbatim>\<open>rtps/sedp.go\<close>): its configuration, its endpoints, the discovery
  tables, and the choice of transport for a unicast message.

  Go maps that the code ranges over are association lists, so that every theorem, being about
  an arbitrary list with distinct keys, covers every iteration order; maps that are only looked
  up are functions to option. Mutexes are not modelled: each method is one atomic step.
  Everything the participant hands to a socket or to an application callback is an element of
  an output list. Whether a connection-oriented transport accepts a message is a parameter
  \<open>net\<close> of the operations that send, and the time is a parameter \<open>now\<close>.
\<close>

section \<open>Plug-in interfaces\<close>

text \<open>
  The interfaces a user may plug in. A plug-in method is a function of its arguments; the
  anti-replay checker carries its own state.
\<close>

record SecurityPlugin =
  Seal :: "bytes \<Rightarrow> bytes option"
  Open :: "bytes \<Rightarrow> bytes option"

record DiscoveryPlugin =
  SignDiscovery :: "bytes \<Rightarrow> bytes"
  VerifyDiscovery :: "bytes \<Rightarrow> bytes \<Rightarrow> bool"

record EndpointPlugin =
  SignEndpoint :: "bytes \<Rightarrow> gostring \<Rightarrow> bytes"
  VerifyEndpoint :: "bytes \<Rightarrow> gostring \<Rightarrow> bytes \<Rightarrow> bool"

record AccessController =
  CanRead :: "topic \<Rightarrow> bool"
  CanWrite :: "topic \<Rightarrow> bool"

record TSNParams =
  Priority :: byte
  DSCP :: byte
  Interval :: duration
  TxOffset :: duration
  MaxFragPayload :: int

section \<open>Discovery records\<close>

record participantProxy =
  px_guid :: GUID
  metatrafficUnicast :: Locator
  defaultUnicast :: Locator
  builtinEndpoints :: uint32
  leaseDuration :: duration
  lastSeen :: gotime
  tcpUnicast :: string
  quicUnicast :: string
  wsUnicast :: string
  relayID :: gostring

text \<open>A compiled content filter; \<open>cf_expr\<close> is the predicate its expression evaluates to.\<close>

record contentFilterSpec =
  cf_expr :: "(bytes \<Rightarrow> bool) option"
  cf_text :: gostring
  cf_params :: "gostring list"

definition cfEval :: "contentFilterSpec option \<Rightarrow> bytes \<Rightarrow> bool" where
  "cfEval c payload =
     (case c of None \<Rightarrow> True
      | Some c \<Rightarrow> (case cf_expr c of None \<Rightarrow> True | Some f \<Rightarrow> f payload))"

record endpointInfo =
  ei_guid :: GUID
  topicName :: topic
  typeName :: gostring
  isWriter :: bool
  partitions :: "bytes list"
  ownershipExclusive :: bool
  ownershipStrength :: int32
  livelinessLease :: duration
  contentFilter :: "contentFilterSpec option"

record spdpService =
  peers :: "(GuidPrefix \<times> participantProxy) list"
  announcesSent :: uint64
  announcesReceived :: uint64
  peerEvictions :: uint64

record sedpService =
  localWriters :: "(EntityId \<times> endpointInfo) list"
  localReaders :: "(EntityId \<times> endpointInfo) list"
  remoteWriters :: "(GUID \<times> endpointInfo) list"
  remoteReaders :: "(GUID \<times> endpointInfo) list"
  remoteReaderLocs :: "GUID \<Rightarrow> Locator option"
  endpointMatches :: uint64

definition newSPDPService :: spdpService where
  "newSPDPService = \<lparr>peers = [], announcesSent = 0, announcesReceived = 0, peerEvictions = 0\<rparr>"

definition newSEDPService :: sedpService where
  "newSEDPService = \<lparr>localWriters = [], localReaders = [], remoteWriters = [], remoteReaders = [],
     remoteReaderLocs = (\<lambda>_. None), endpointMatches = 0\<rparr>"

section \<open>Endpoints\<close>

text \<open>
  A writer. \<open>drainCh\<close> is \<open>None\<close> for the nil channel and \<open>Some closed\<close> otherwise; a channel
  that stops a goroutine is the flag that the goroutine runs; \<open>tsnSock\<close> is the key of the
  traffic-class socket; \<open>w_deadlineTimer\<close> is \<open>None\<close> for the nil timer, \<open>Some None\<close> for one that has
  fired and \<open>Some (Some t)\<close> for one that fires at \<open>t\<close>.
\<close>

record rtpsWriter =
  w_topic :: topic
  w_eid :: EntityId
  w_qos :: QoS
  w_closed :: bool
  w_seq :: uint64
  acked :: uint64
  w_reliable :: bool
  w_history :: sendHistory
  hbRunning :: bool
  drainCh :: "bool option"
  w_deadlineTimer :: "gotime option option"
  hbPeriod :: duration
  tsnStream :: "TSNParams option"
  tsnSock :: "byte option"
  w_partitions :: "bytes list"
  ownershipRegistered :: bool
  livelinessRunning :: bool
  livelinessSeq :: uint32

text \<open>A reader; \<open>sources\<close> is a set, represented by a list, that is only ever added to.\<close>

record rtpsReader =
  r_topic :: topic
  r_eid :: EntityId
  r_ch :: "Sample chan"
  sources :: "GUID list"
  trackers :: "GUID \<Rightarrow> recvTracker option"
  r_reliable :: bool
  r_filter :: "(Sample \<Rightarrow> bool) option"
  backPressure :: BackPressurePolicy
  r_contentFilter :: "contentFilterSpec option"
  unsubDone :: bool
  r_closed :: bool
  deadlinePeriod :: "duration option"
  r_deadlineDue :: "gotime option"
  r_partitions :: "bytes list"
  r_tbf :: tbf_state
  livelinessLostCb :: "nat option"
  monitorRunning :: bool
  r_live :: liveliness_state

section \<open>Participant\<close>

record topicCounter =
  writes :: uint64
  delivers :: uint64
  drops :: uint64
  bytesW :: uint64
  bytesD :: uint64

definition zeroCounter :: topicCounter where
  "zeroCounter = \<lparr>writes = 0, delivers = 0, drops = 0, bytesW = 0, bytesD = 0\<rparr>"

text \<open>
  The fields set when the participant is created. A socket that only matters by being there is
  a flag, one whose port is advertised is its port. A statically configured DTLS peer comes
  with the IP address its host part denotes, if it denotes one.
\<close>

record pconfig =
  domain :: int
  guidPrefix :: GuidPrefix
  metaPort :: int
  dataPort :: int
  dataMcastSock :: bool
  udpMulticastAvailable :: bool
  tcpSock :: "int option"
  tcpPeers :: "string list"
  dtlsSock :: bool
  dtlsPeers :: "(IP option \<times> string) list"
  quicSock :: "int option"
  quicPeers :: "string list"
  wsSock :: "int option"
  wsPeers :: "string list"
  relaySock :: "gostring option"
  relayPeers :: "gostring list"
  hasLivelinessCb :: bool
  hasDeadlineCb :: bool
  persistDir :: bool
  heartbeatPeriodOverride :: duration
  tsnConfig :: "(topic \<Rightarrow> TSNParams option) option"
  security :: "SecurityPlugin option"
  accessControl :: "AccessController option"
  discoveryPlugin :: "DiscoveryPlugin option"
  endpointPlugin :: "EndpointPlugin option"

text \<open>
  The mutable part. \<open>'r\<close> is the state of the anti-replay checker, paired with its check.
  \<open>files\<close> are the persistence files by name, and \<open>wsConns\<close> the open WebSocket connection to an
  address, if any.
\<close>

record 'r participant =
  cfg :: pconfig
  p_closed :: bool
  writers :: "(EntityId \<times> rtpsWriter) list"
  readers :: "(EntityId \<times> rtpsReader) list"
  writerLocators :: "GUID \<Rightarrow> Locator option"
  entityCounter :: uint32
  lastSample :: "topic \<Rightarrow> Sample option"
  metrics :: Metrics
  topicMetrics :: "(topic \<times> topicCounter) list"
  ownership :: ownership_map
  tsnSocks :: "byte list"
  spdp :: spdpService
  sedp :: sedpService
  antiReplay :: "('r \<times> (uint64 \<Rightarrow> gotime \<Rightarrow> 'r \<Rightarrow> bool \<times> 'r)) option"
  files :: "gostring \<Rightarrow> bytes option"
  wsConns :: "IP \<Rightarrow> string"
  seqCounter :: uint32

abbreviation ownPrefix :: "'r participant \<Rightarrow> GuidPrefix" where
  "ownPrefix p \<equiv> guidPrefix (cfg p)"

definition effectiveHeartbeatPeriod :: "'r participant \<Rightarrow> duration" where
  "effectiveHeartbeatPeriod p =
     (if heartbeatPeriodOverride (cfg p) > 0 then heartbeatPeriodOverride (cfg p) else heartbeatPeriod)"

definition topicCounterFor :: "topic \<Rightarrow> 'r participant \<Rightarrow> topicCounter" where
  "topicCounterFor t p = (case map_of (topicMetrics p) t of Some c \<Rightarrow> c | None \<Rightarrow> zeroCounter)"

text \<open>Looking a counter up creates it, so the update stores it whether or not it existed.\<close>

definition updTopicCounter :: "topic \<Rightarrow> (topicCounter \<Rightarrow> topicCounter) \<Rightarrow> 'r participant \<Rightarrow> 'r participant" where
  "updTopicCounter t f p = p\<lparr>topicMetrics := AList.update t (f (topicCounterFor t p)) (topicMetrics p)\<rparr>"

definition nextSeqNum :: "'r participant \<Rightarrow> uint32 \<times> 'r participant" where
  "nextSeqNum p = (seqCounter p + 1, p\<lparr>seqCounter := seqCounter p + 1\<rparr>)"

text \<open>The state of a participant that has just been created.\<close>

definition initParticipant ::
  "pconfig \<Rightarrow> ('r \<times> (uint64 \<Rightarrow> gotime \<Rightarrow> 'r \<Rightarrow> bool \<times> 'r)) option \<Rightarrow> 'r participant"
where
  "initParticipant c ar =
     \<lparr>cfg = c, p_closed = False, writers = [], readers = [], writerLocators = (\<lambda>_. None), entityCounter = 0,
      lastSample = (\<lambda>_. None),
      metrics = \<lparr>WriteCount = 0, DeliverCount = 0, DropCount = 0, BytesWritten = 0, BytesDelivered = 0, ErrorCount = 0\<rparr>,
      topicMetrics = [], ownership = (\<lambda>_. None), tsnSocks = [], spdp = newSPDPService, sedp = newSEDPService,
      antiReplay = ar, files = (\<lambda>_. None), wsConns = (\<lambda>_. ''''), seqCounter = 0\<rparr>"

text \<open>The configuration without options, at a participant index of a domain.\<close>

definition plainConfig :: "int \<Rightarrow> int \<Rightarrow> GuidPrefix \<Rightarrow> pconfig" where
  "plainConfig d idx prefix =
     \<lparr>domain = d, guidPrefix = prefix, metaPort = metaUnicastPort d idx, dataPort = userUnicastPort d idx,
      dataMcastSock = True, udpMulticastAvailable = True, tcpSock = None, tcpPeers = [], dtlsSock = False,
      dtlsPeers = [], quicSock = None, quicPeers = [], wsSock = None, wsPeers = [], relaySock = None,
      relayPeers = [], hasLivelinessCb = False, hasDeadlineCb = False, persistDir = False,
      heartbeatPeriodOverride = 0, tsnConfig = None, security = None, accessControl = None,
      discoveryPlugin = None, endpointPlugin = None\<rparr>"

section \<open>Outputs and the choice of transport\<close>

datatype sockid = MetaSock | DataSock | TsnSock byte

datatype out =
    UdpSend sockid UDPAddr bytes
  | TxTimeSend sockid UDPAddr bytes uint64
  | TcpSend string bytes
  | DtlsSend string bytes
  | QuicSend string bytes bool
  | WsSend string bytes
  | RelaySend gostring bytes
  | LivelinessCb ddsGUID LivelinessEvent
  | DeadlineCb topic

type_synonym net = "out \<Rightarrow> bool"

definition ipEqual :: "IP \<Rightarrow> IP \<Rightarrow> bool" where
  "ipEqual a b =
     (if length a = length b then a = b
      else if length a = 4 \<and> length b = 16 then b = v4InV6Prefix @ a
      else if length a = 16 \<and> length b = 4 then a = v4InV6Prefix @ b
      else False)"

definition allPeers :: "spdpService \<Rightarrow> participantProxy list" where
  "allPeers s = map snd (peers s)"

definition peerByPrefix :: "GuidPrefix \<Rightarrow> spdpService \<Rightarrow> participantProxy option" where
  "peerByPrefix g s = map_of (peers s) g"

definition locatorAt :: "Locator \<Rightarrow> IP \<Rightarrow> bool" where
  "locatorAt l ip = (case udpAddr l of Some a \<Rightarrow> ipEqual (udpIP a) ip | None \<Rightarrow> False)"

text \<open>
  The common loop of \<^verbatim>\<open>tcpLocatorForIP\<close>, \<^verbatim>\<open>quicLocatorForIP\<close> and \<^verbatim>\<open>wsLocatorForIP\<close>: the first
  peer that advertised an address of this transport and is reachable at \<open>ip\<close>.
\<close>

fun locatorForIP :: "(participantProxy \<Rightarrow> string) \<Rightarrow> IP \<Rightarrow> participantProxy list \<Rightarrow> string" where
  "locatorForIP f ip [] = ''''"
| "locatorForIP f ip (proxy # ps) =
     (if f proxy = '''' then locatorForIP f ip ps
      else if locatorAt (metatrafficUnicast proxy) ip then f proxy
      else if locatorAt (defaultUnicast proxy) ip then f proxy
      else locatorForIP f ip ps)"

definition tcpLocatorForIP :: "IP \<Rightarrow> 'r participant \<Rightarrow> string" where
  "tcpLocatorForIP ip p = locatorForIP tcpUnicast ip (allPeers (spdp p))"

definition quicLocatorForIP :: "IP \<Rightarrow> 'r participant \<Rightarrow> string" where
  "quicLocatorForIP ip p = locatorForIP quicUnicast ip (allPeers (spdp p))"

definition wsLocatorForIP :: "IP \<Rightarrow> 'r participant \<Rightarrow> string" where
  "wsLocatorForIP ip p =
     (let a = locatorForIP wsUnicast ip (allPeers (spdp p)) in
      if a \<noteq> '''' then a
      else if wsSock (cfg p) \<noteq> None then wsConns p ip
      else '''')"

fun dtlsLocatorFrom :: "IP \<Rightarrow> (IP option \<times> string) list \<Rightarrow> string" where
  "dtlsLocatorFrom ip [] = ''''"
| "dtlsLocatorFrom ip ((h, addr) # ps) =
     (case h of
        Some peerIP \<Rightarrow> if ipEqual peerIP ip then addr else dtlsLocatorFrom ip ps
      | None \<Rightarrow> dtlsLocatorFrom ip ps)"

definition dtlsLocatorForIP :: "IP \<Rightarrow> 'r participant \<Rightarrow> string" where
  "dtlsLocatorForIP ip p = dtlsLocatorFrom ip (dtlsPeers (cfg p))"

definition relayIDForPrefix :: "GuidPrefix \<Rightarrow> 'r participant \<Rightarrow> gostring" where
  "relayIDForPrefix g p = (case peerByPrefix g (spdp p) of None \<Rightarrow> [] | Some proxy \<Rightarrow> relayID proxy)"

definition preferTCP :: "'r participant \<Rightarrow> bool" where
  "preferTCP p \<longleftrightarrow> tcpSock (cfg p) \<noteq> None \<and> \<not> udpMulticastAvailable (cfg p)"

text \<open>
  \<^verbatim>\<open>sendUnicast\<close>: the transports in order of preference, each tried only when it has an address
  for the destination and left for the next when its send fails, with UDP last. The result is
  the message handed over.
\<close>

definition sendUnicast :: "net \<Rightarrow> sockid \<Rightarrow> UDPAddr \<Rightarrow> GuidPrefix \<Rightarrow> bytes \<Rightarrow> bool \<Rightarrow> 'r participant \<Rightarrow> out" where
  "sendUnicast net sock dst prefix msg reliable p =
     (let eligible = (sock = DataSock \<or> sock = MetaSock);
          dtls = dtlsLocatorForIP (udpIP dst) p;
          quic = quicLocatorForIP (udpIP dst) p;
          ws = wsLocatorForIP (udpIP dst) p;
          tcp = tcpLocatorForIP (udpIP dst) p;
          relay = relayIDForPrefix prefix p
      in if eligible \<and> dtlsSock (cfg p) \<and> dtls \<noteq> '''' \<and> net (DtlsSend dtls msg) then DtlsSend dtls msg
         else if eligible \<and> quicSock (cfg p) \<noteq> None \<and> quic \<noteq> '''' \<and> net (QuicSend quic msg reliable)
           then QuicSend quic msg reliable
         else if eligible \<and> wsSock (cfg p) \<noteq> None \<and> ws \<noteq> '''' \<and> net (WsSend ws msg) then WsSend ws msg
         else if eligible \<and> preferTCP p \<and> tcp \<noteq> '''' \<and> net (TcpSend tcp msg) then TcpSend tcp msg
         else if eligible \<and> relaySock (cfg p) \<noteq> None \<and> prefix \<noteq> zeroPrefix \<and> relay \<noteq> []
                 \<and> net (RelaySend relay msg)
           then RelaySend relay msg
         else UdpSend sock dst msg)"

text \<open>
  The specification of the choice: the connection-oriented transports that have an address for
  the destination, in order of preference.
\<close>

definition candidates :: "sockid \<Rightarrow> UDPAddr \<Rightarrow> GuidPrefix \<Rightarrow> bytes \<Rightarrow> bool \<Rightarrow> 'r participant \<Rightarrow> out list" where
  "candidates sock dst prefix msg reliable p =
     (if sock \<in> {DataSock, MetaSock} then
        (let a = dtlsLocatorForIP (udpIP dst) p in if dtlsSock (cfg p) \<and> a \<noteq> '''' then [DtlsSend a msg] else [])
        @ (let a = quicLocatorForIP (udpIP dst) p in
           if quicSock (cfg p) \<noteq> None \<and> a \<noteq> '''' then [QuicSend a msg reliable] else [])
        @ (let a = wsLocatorForIP (udpIP dst) p in if wsSock (cfg p) \<noteq> None \<and> a \<noteq> '''' then [WsSend a msg] else [])
        @ (let a = tcpLocatorForIP (udpIP dst) p in if preferTCP p \<and> a \<noteq> '''' then [TcpSend a msg] else [])
        @ (let a = relayIDForPrefix prefix p in
           if relaySock (cfg p) \<noteq> None \<and> prefix \<noteq> zeroPrefix \<and> a \<noteq> [] then [RelaySend a msg] else [])
      else [])"

text \<open>The first candidate that accepts, or the fallback.\<close>

definition firstOf :: "net \<Rightarrow> out list \<Rightarrow> out \<Rightarrow> out" where
  "firstOf net outs d = (case List.find net outs of Some out \<Rightarrow> out | None \<Rightarrow> d)"

lemma firstOf_append: "firstOf net (xs @ ys) d = firstOf net xs (firstOf net ys d)"
  by (induction xs) (auto simp: firstOf_def)

lemma firstOf_if: "firstOf net (if c then [x] else []) d = (if c \<and> net x then x else d)"
  by (simp add: firstOf_def)

text \<open>
  A unicast message leaves over exactly one transport: the first of DTLS, QUIC, WebSocket,
  TCP and relay that is configured, has an address for the destination and accepts the message,
  and plain UDP when none does. A message on a traffic-class socket always leaves over UDP.
\<close>

lemma transport_preference:
  "sendUnicast net sock dst prefix msg reliable p =
     firstOf net (candidates sock dst prefix msg reliable p) (UdpSend sock dst msg)
   \<and> sendUnicast net (TsnSock c) dst prefix msg reliable p = UdpSend (TsnSock c) dst msg"
proof
  show "sendUnicast net (TsnSock c) dst prefix msg reliable p = UdpSend (TsnSock c) dst msg"
    by (simp add: sendUnicast_def Let_def)
  show "sendUnicast net sock dst prefix msg reliable p =
      firstOf net (candidates sock dst prefix msg reliable p) (UdpSend sock dst msg)"
  proof (cases "sock \<in> {DataSock, MetaSock}")
    case True
    then have e: "(sock = DataSock \<or> sock = MetaSock) = True" by simp
    show ?thesis
      unfolding sendUnicast_def candidates_def Let_def e if_P [OF True] firstOf_append firstOf_if
      by (simp only: simp_thms conj_assoc)
  next
    case False
    then show ?thesis by (simp add: sendUnicast_def candidates_def firstOf_def Let_def)
  qed
qed

lemma locatorForIP_sound:
  "locatorForIP f ip ps \<noteq> '''' \<Longrightarrow>
     \<exists>px \<in> set ps. f px = locatorForIP f ip ps
       \<and> (locatorAt (metatrafficUnicast px) ip \<or> locatorAt (defaultUnicast px) ip)"
  by (induction ps) (auto split: if_splits)

end
