(* ===== verification/Rtps_Sedp.thy ===== *)
theory Rtps_Sedp
  imports Rtps_State
begin

text \<open>
  Endpoint discovery (\<^verbatim>\<open>rtps/sedp.go\<close>) and the list of remote readers a writer sends to
  (\<^verbatim>\<open>matchedReaderLocators\<close> in \<^verbatim>\<open>rtps/participant.go\<close>). The compiler of content-filter
  expressions is a parameter \<open>parse\<close> of the operations that receive announcements.
\<close>

section \<open>Announcing local endpoints\<close>

definition defaultTypeName :: gostring where
  "defaultTypeName = [67, 68, 82, 95, 66, 76, 79, 66]"

definition ipv4zero :: IP where
  "ipv4zero = v4InV6Prefix @ [0, 0, 0, 0]"

definition buildEndpointData :: "endpointInfo \<Rightarrow> 'r participant \<Rightarrow> bytes" where
  "buildEndpointData info p =
     (let e1 = addGUID pidEndpointGUID (ei_guid info) newPLCDREncoder;
          e2 = addString pidTopicName (topicName info) e1;
          e3 = addString pidTypeName (if typeName info = [] then defaultTypeName else typeName info) e2;
          e4 = addLocator pidDefaultUnicastLocator
                 (locatorFromUDP \<lparr>udpIP = ipv4zero, udpPort = 0\<rparr> (dataPort (cfg p))) e3;
          e5 = fold (addString pidPartition) (partitions info) e4;
          e6 = (case contentFilter info of
                  None \<Rightarrow> e5
                | Some c \<Rightarrow> fold (addString pidContentFilterParam) (cf_params c)
                             (addString pidContentFilterExpr (cf_text c) e5));
          e7 = (if isWriter info \<and> ownershipExclusive info
                then addUint32 pidOwnershipStrength (ownershipStrength info) (addUint32 pidOwnership 1 e6)
                else e6);
          e8 = (if isWriter info \<and> livelinessLease info > 0
                then addInt64 pidLivelinessLeaseDuration (word_of_int (livelinessLease info)) e7
                else e7);
          e9 = (case endpointPlugin (cfg p) of
                  None \<Rightarrow> e8
                | Some ep \<Rightarrow> addBytes pidEndpointToken (SignEndpoint ep (ownPrefix p) (topicName info)) e8)
      in finish e9)"

definition sendTo :: "net \<Rightarrow> bytes \<Rightarrow> participantProxy \<Rightarrow> 'r participant \<Rightarrow> out list" where
  "sendTo net msg peer p =
     (case udpAddr (metatrafficUnicast peer) of
        None \<Rightarrow> []
      | Some dst \<Rightarrow> [sendUnicast net MetaSock dst (Prefix (px_guid peer)) msg True p])"

definition broadcast :: "net \<Rightarrow> bytes \<Rightarrow> participantProxy option \<Rightarrow> 'r participant \<Rightarrow> out list" where
  "broadcast net msg onlyTo p =
     (case onlyTo of
        Some peer \<Rightarrow> sendTo net msg peer p
      | None \<Rightarrow> concat (map (\<lambda>peer. sendTo net msg peer p) (allPeers (spdp p))))"

text \<open>The common body of \<^verbatim>\<open>announceWriter\<close> and \<^verbatim>\<open>announceReader\<close>, which differ in the entity ids.\<close>

definition announceEndpoint ::
  "net \<Rightarrow> EntityId \<Rightarrow> EntityId \<Rightarrow> endpointInfo \<Rightarrow> participantProxy option \<Rightarrow> 'r participant \<Rightarrow> 'r participant \<times> out list"
where
  "announceEndpoint net wid rid info proxy p =
     (let (n, p') = nextSeqNum p;
          submsg = marshalDataSubmessage wid rid \<lparr>High = 0, Low = n\<rparr> (buildEndpointData info p)
      in (p', broadcast net (wrapInRTPSMessage (ownPrefix p) submsg) proxy p'))"

definition announceWriter :: "net \<Rightarrow> endpointInfo \<Rightarrow> participantProxy option \<Rightarrow> 'r participant \<Rightarrow> 'r participant \<times> out list" where
  "announceWriter net = announceEndpoint net EntityIdSEDPPubWriter EntityIdSEDPPubReader"

definition announceReader :: "net \<Rightarrow> endpointInfo \<Rightarrow> participantProxy option \<Rightarrow> 'r participant \<Rightarrow> 'r participant \<times> out list" where
  "announceReader net = announceEndpoint net EntityIdSEDPSubWriter EntityIdSEDPSubReader"

text \<open>Runs an operation for each element of a list, collecting the outputs in order.\<close>

primrec seqOps :: "('a \<Rightarrow> 's \<Rightarrow> 's \<times> 'o list) \<Rightarrow> 'a list \<Rightarrow> 's \<Rightarrow> 's \<times> 'o list" where
  "seqOps f [] s = (s, [])"
| "seqOps f (x # xs) s = (let (s1, o1) = f x s; (s2, o2) = seqOps f xs s1 in (s2, o1 @ o2))"

definition onNewPeer :: "net \<Rightarrow> participantProxy \<Rightarrow> 'r participant \<Rightarrow> 'r participant \<times> out list" where
  "onNewPeer net proxy p =
     (let ws = map snd (localWriters (sedp p)); rs = map snd (localReaders (sedp p));
          (p1, o1) = seqOps (\<lambda>w. announceWriter net w (Some proxy)) ws p;
          (p2, o2) = seqOps (\<lambda>r. announceReader net r (Some proxy)) rs p1
      in (p2, o1 @ o2))"

section \<open>Local registration\<close>

definition updSedp :: "(sedpService \<Rightarrow> sedpService) \<Rightarrow> 'r participant \<Rightarrow> 'r participant" where
  "updSedp f p = p\<lparr>sedp := f (sedp p)\<rparr>"

definition registerWriter ::
  "net \<Rightarrow> EntityId \<Rightarrow> topic \<Rightarrow> gostring \<Rightarrow> QoS \<Rightarrow> 'r participant \<Rightarrow> 'r participant \<times> out list"
where
  "registerWriter net eid t tn qos p =
     (let info = \<lparr>ei_guid = GUID (ownPrefix p) eid, topicName = t, typeName = tn, isWriter = True,
                  partitions = Partition qos, ownershipExclusive = (Ownership qos = ExclusiveOwnership),
                  ownershipStrength = OwnershipStrength qos, livelinessLease = LivelinessLeaseDuration qos,
                  contentFilter = None\<rparr>
      in announceWriter net info None
           (updSedp (\<lambda>s. s\<lparr>localWriters := AList.update eid info (localWriters s)\<rparr>) p))"

definition addSourceGUID :: "GUID \<Rightarrow> rtpsReader \<Rightarrow> rtpsReader" where
  "addSourceGUID g r = r\<lparr>sources := List.insert g (sources r)\<rparr>"

text \<open>The link from a reader to one matched remote writer.\<close>

definition linkWriter :: "gotime \<Rightarrow> GUID \<Rightarrow> duration \<Rightarrow> rtpsReader \<Rightarrow> rtpsReader" where
  "linkWriter now g lease r =
     (let r1 = addSourceGUID g r in
      if lease > 0 then r1\<lparr>r_live := registerWriterLease now g lease (r_live r1)\<rparr> else r1)"

definition registerReader ::
  "net \<Rightarrow> gotime \<Rightarrow> EntityId \<Rightarrow> topic \<Rightarrow> gostring \<Rightarrow> QoS \<Rightarrow> rtpsReader \<Rightarrow> contentFilterSpec option
   \<Rightarrow> 'r participant \<Rightarrow> rtpsReader \<times> 'r participant \<times> out list"
where
  "registerReader net now eid t tn qos r cf p =
     (let info = \<lparr>ei_guid = GUID (ownPrefix p) eid, topicName = t, typeName = tn, isWriter = False,
                  partitions = Partition qos, ownershipExclusive = False, ownershipStrength = 0,
                  livelinessLease = 0, contentFilter = cf\<rparr>;
          p1 = updSedp (\<lambda>s. s\<lparr>localReaders := AList.update eid info (localReaders s)\<rparr>) p;
          matched = filter (\<lambda>rw. topicName rw = t \<and> partitionsMatch (partitions rw) (Partition qos))
                      (map snd (remoteWriters (sedp p)));
          r1 = fold (\<lambda>rw. linkWriter now (ei_guid rw) (livelinessLease rw)) matched
                 (r\<lparr>r_contentFilter := cf\<rparr>)
      in (r1, announceReader net info None p1))"

section \<open>Remote announcements\<close>

definition readerByEID :: "EntityId \<Rightarrow> (rtpsReader \<Rightarrow> rtpsReader) \<Rightarrow> 'r participant \<Rightarrow> 'r participant" where
  "readerByEID eid f p =
     (case map_of (readers p) eid of
        None \<Rightarrow> p
      | Some r \<Rightarrow> p\<lparr>readers := AList.update eid (f r) (readers p)\<rparr>)"

definition addWriterLocator :: "GUID \<Rightarrow> Locator \<Rightarrow> 'r participant \<Rightarrow> 'r participant" where
  "addWriterLocator g l p = p\<lparr>writerLocators := (writerLocators p)(g \<mapsto> l)\<rparr>"

definition onRemoteWriter :: "gotime \<Rightarrow> endpointInfo \<Rightarrow> Locator \<Rightarrow> 'r participant \<Rightarrow> 'r participant" where
  "onRemoteWriter now info loc p =
     (let p1 = updSedp (\<lambda>s. s\<lparr>remoteWriters := AList.update (ei_guid info) info (remoteWriters s)\<rparr>) p;
          p2 = (if ownershipExclusive info
                then p1\<lparr>ownership := (ownership p1)(topicName info \<mapsto>
                       register (ei_guid info) (ownershipStrength info)
                         (ownershipStateFor (topicName info) (ownership p1)))\<rparr>
                else p1);
          matched = map (\<lambda>lr. Entity (ei_guid lr))
                      (filter (\<lambda>lr. topicName lr = topicName info \<and> partitionsMatch (partitions lr) (partitions info))
                        (map snd (localReaders (sedp p2))));
          p3 = updSedp (\<lambda>s. s\<lparr>endpointMatches := endpointMatches s + word_of_nat (length matched)\<rparr>) p2;
          p4 = fold (\<lambda>eid. readerByEID eid (linkWriter now (ei_guid info) (livelinessLease info))) matched p3
      in if matched \<noteq> [] then addWriterLocator (ei_guid info) loc p4 else p4)"

definition onRemoteReader :: "endpointInfo \<Rightarrow> Locator \<Rightarrow> 'r participant \<Rightarrow> 'r participant" where
  "onRemoteReader info loc =
     updSedp (\<lambda>s. s\<lparr>remoteReaders := AList.update (ei_guid info) info (remoteReaders s),
                    remoteReaderLocs := (remoteReaderLocs s)(ei_guid info \<mapsto> loc)\<rparr>)"

text \<open>A locator with the all-zero address is completed with the sender's IPv4 address.\<close>

definition fillAddress :: "UDPAddr \<Rightarrow> Locator \<Rightarrow> Locator" where
  "fillAddress from l =
     (if Address l = replicate 16 0 then
        (case To4 (udpIP from) of Some ip4 \<Rightarrow> l\<lparr>Address := take 12 (Address l) @ ip4\<rparr> | None \<Rightarrow> l)
      else l)"

text \<open>What the decoding loop of \<^verbatim>\<open>handleEndpointAnnounce\<close> accumulates.\<close>

record announceAcc =
  an_info :: endpointInfo
  dataLocator :: Locator
  endpointTag :: bytes
  cfExpr :: gostring
  cfParams :: "gostring list"

definition zeroLocator :: Locator where
  "zeroLocator = \<lparr>Kind = 0, Port = 0, Address = replicate 16 0\<rparr>"

definition announceInit :: "GuidPrefix \<Rightarrow> bool \<Rightarrow> announceAcc" where
  "announceInit remotePrefix w =
     \<lparr>an_info = \<lparr>ei_guid = GUID remotePrefix (replicate 4 0), topicName = [], typeName = [], isWriter = w,
                 partitions = [], ownershipExclusive = False, ownershipStrength = 0,
                 livelinessLease = 0, contentFilter = None\<rparr>,
      dataLocator = zeroLocator, endpointTag = [], cfExpr = [], cfParams = []\<rparr>"

definition updInfo :: "(endpointInfo \<Rightarrow> endpointInfo) \<Rightarrow> announceAcc \<Rightarrow> announceAcc" where
  "updInfo f a = a\<lparr>an_info := f (an_info a)\<rparr>"

definition withSome :: "'a option \<Rightarrow> ('a \<Rightarrow> 's \<Rightarrow> 's) \<Rightarrow> 's \<Rightarrow> 's" where
  "withSome x f s = (case x of Some v \<Rightarrow> f v s | None \<Rightarrow> s)"

definition announceStep :: "UDPAddr \<Rightarrow> param \<Rightarrow> announceAcc \<Rightarrow> announceAcc" where
  "announceStep from pv a =
     (let pid = fst pv; v = snd pv in
      if pid = pidEndpointGUID then withSome (decodeGUID v) (\<lambda>g. updInfo (\<lambda>i. i\<lparr>ei_guid := g\<rparr>)) a
      else if pid = pidTopicName then withSome (decodeString v) (\<lambda>t. updInfo (\<lambda>i. i\<lparr>topicName := t\<rparr>)) a
      else if pid = pidTypeName then withSome (decodeString v) (\<lambda>t. updInfo (\<lambda>i. i\<lparr>typeName := t\<rparr>)) a
      else if pid = pidDefaultUnicastLocator then
        withSome (unmarshalLocator v) (\<lambda>l a. a\<lparr>dataLocator := fillAddress from l\<rparr>) a
      else if pid = pidEndpointToken then a\<lparr>endpointTag := v\<rparr>
      else if pid = pidPartition then
        withSome (decodeString v) (\<lambda>t. updInfo (\<lambda>i. i\<lparr>partitions := partitions i @ [t]\<rparr>)) a
      else if pid = pidOwnership then
        withSome (decodeUint32 v) (\<lambda>n a. if n \<noteq> 0 then updInfo (\<lambda>i. i\<lparr>ownershipExclusive := True\<rparr>) a else a) a
      else if pid = pidOwnershipStrength then
        withSome (decodeUint32 v) (\<lambda>n. updInfo (\<lambda>i. i\<lparr>ownershipStrength := n\<rparr>)) a
      else if pid = pidLivelinessLeaseDuration then
        withSome (decodeInt64 v) (\<lambda>n. updInfo (\<lambda>i. i\<lparr>livelinessLease := sint n\<rparr>)) a
      else if pid = pidContentFilterExpr then withSome (decodeString v) (\<lambda>e a. a\<lparr>cfExpr := e\<rparr>) a
      else if pid = pidContentFilterParam then
        withSome (decodeString v) (\<lambda>e a. a\<lparr>cfParams := cfParams a @ [e]\<rparr>) a
      else a)"

text \<open>The decoding half of \<^verbatim>\<open>handleEndpointAnnounce\<close>, up to the check of the topic name.\<close>

definition decodeAnnounce :: "GuidPrefix \<Rightarrow> bytes \<Rightarrow> bool \<Rightarrow> UDPAddr \<Rightarrow> announceAcc option" where
  "decodeAnnounce remotePrefix payload w from =
     (case newPLCDRDecoder payload of
        None \<Rightarrow> None
      | Some dec \<Rightarrow>
          let a = fold (announceStep from) (params dec) (announceInit remotePrefix w)
          in if topicName (an_info a) = [] then None else Some a)"

definition compileFilter ::
  "(gostring \<Rightarrow> gostring list \<Rightarrow> (bytes \<Rightarrow> bool) option) \<Rightarrow> announceAcc \<Rightarrow> endpointInfo"
where
  "compileFilter parse a =
     (if cfExpr a = [] then an_info a
      else
        (case parse (cfExpr a) (cfParams a) of
           Some e \<Rightarrow> (an_info a)\<lparr>contentFilter :=
                       Some \<lparr>cf_expr = Some e, cf_text = cfExpr a, cf_params = cfParams a\<rparr>\<rparr>
         | None \<Rightarrow> an_info a))"

definition handleEndpointAnnounce ::
  "(gostring \<Rightarrow> gostring list \<Rightarrow> (bytes \<Rightarrow> bool) option) \<Rightarrow> gotime \<Rightarrow> GuidPrefix \<Rightarrow> bytes \<Rightarrow> bool \<Rightarrow> UDPAddr
   \<Rightarrow> 'r participant \<Rightarrow> 'r participant"
where
  "handleEndpointAnnounce parse now remotePrefix payload w from p =
     (case decodeAnnounce remotePrefix payload w from of
        None \<Rightarrow> p
      | Some a \<Rightarrow>
          let info = compileFilter parse a in
          if (case endpointPlugin (cfg p) of
                Some ep \<Rightarrow> \<not> VerifyEndpoint ep remotePrefix (topicName info) (endpointTag a)
              | None \<Rightarrow> False) then p
          else if w then onRemoteWriter now info (dataLocator a) p
          else onRemoteReader info (dataLocator a) p)"

text \<open>The callback of \<^verbatim>\<open>handlePacket\<close>, which never fails, and the handler itself.\<close>

definition sedpSubmsg ::
  "(gostring \<Rightarrow> gostring list \<Rightarrow> (bytes \<Rightarrow> bool) option) \<Rightarrow> gotime \<Rightarrow> GuidPrefix \<Rightarrow> UDPAddr
   \<Rightarrow> byte \<Rightarrow> byte \<Rightarrow> bytes \<Rightarrow> 'r participant \<Rightarrow> 'r participant \<times> unit option"
where
  "sedpSubmsg parse now prefix from sid flags body p =
     ((if sid \<noteq> submsgDATA then p
       else
         (case parseDataSubmessage (flagEndianness OR flagData) body of
            None \<Rightarrow> p
          | Some ds \<Rightarrow>
              (case dsPayload ds of
                 None \<Rightarrow> p
               | Some payload \<Rightarrow>
                   if dsWriter ds = EntityIdSEDPPubWriter
                   then handleEndpointAnnounce parse now prefix payload True from p
                   else if dsWriter ds = EntityIdSEDPSubWriter
                   then handleEndpointAnnounce parse now prefix payload False from p
                   else p))), None)"

definition sedpHandlePacket ::
  "(gostring \<Rightarrow> gostring list \<Rightarrow> (bytes \<Rightarrow> bool) option) \<Rightarrow> gotime \<Rightarrow> bytes \<Rightarrow> UDPAddr
   \<Rightarrow> 'r participant \<Rightarrow> 'r participant"
where
  "sedpHandlePacket parse now data from p =
     (case parseHeader data of
        None \<Rightarrow> p
      | Some hdr \<Rightarrow>
          if hdrPrefix hdr = ownPrefix p then p
          else fst (parseSubmessages (sedpSubmsg parse now (hdrPrefix hdr) from) (drop 20 data) p))"

text \<open>The removal of an evicted participant's endpoints.\<close>

definition onPeerEvicted :: "GuidPrefix \<Rightarrow> 'r participant \<Rightarrow> 'r participant" where
  "onPeerEvicted prefix p =
     (let gone = filter (\<lambda>(g, i). Prefix g = prefix) (remoteWriters (sedp p));
          own = fold (\<lambda>(g, i) om. if ownershipExclusive i
                  then om(topicName i \<mapsto> unregister g (ownershipStateFor (topicName i) om)) else om)
                  gone (ownership p);
          p1 = updSedp (\<lambda>s. s\<lparr>remoteWriters := filter (\<lambda>(g, i). Prefix g \<noteq> prefix) (remoteWriters s),
                 remoteReaderLocs := (\<lambda>g. if Prefix g = prefix \<and> g \<in> fst ` set (remoteReaders s)
                                          then None else remoteReaderLocs s g),
                 remoteReaders := filter (\<lambda>(g, i). Prefix g \<noteq> prefix) (remoteReaders s)\<rparr>) p
      in p1\<lparr>ownership := own,
            writerLocators := (\<lambda>g. if Prefix g = prefix then None else writerLocators p1 g)\<rparr>)"

section \<open>Matched remote readers\<close>

record readerLocator =
  Loc :: Locator
  rlPrefix :: GuidPrefix
  ContentFilters :: "contentFilterSpec list"

definition matches :: "readerLocator \<Rightarrow> bytes \<Rightarrow> bool" where
  "matches rl payload \<longleftrightarrow> ContentFilters rl = [] \<or> list_ex (\<lambda>cf. cfEval (Some cf) payload) (ContentFilters rl)"

text \<open>
  Adds one remote reader: a locator already listed is updated in place (any unfiltered reader
  makes it unconditional), a new one is appended. The empty list of filters is the nil slice.
\<close>

fun mergeLocator :: "GuidPrefix \<Rightarrow> Locator \<Rightarrow> contentFilterSpec option \<Rightarrow> readerLocator list \<Rightarrow> readerLocator list" where
  "mergeLocator g loc cf [] =
     [\<lparr>Loc = loc, rlPrefix = g, ContentFilters = (case cf of None \<Rightarrow> [] | Some c \<Rightarrow> [c])\<rparr>]"
| "mergeLocator g loc cf (rl # rls) =
     (if Loc rl = loc then
        (case cf of
           None \<Rightarrow> rl\<lparr>ContentFilters := []\<rparr>
         | Some c \<Rightarrow> if ContentFilters rl \<noteq> [] then rl\<lparr>ContentFilters := ContentFilters rl @ [c]\<rparr> else rl) # rls
      else rl # mergeLocator g loc cf rls)"

definition matchReader ::
  "topic \<Rightarrow> bytes list \<Rightarrow> (GUID \<Rightarrow> Locator option) \<Rightarrow> GUID \<times> endpointInfo \<Rightarrow> readerLocator list \<Rightarrow> readerLocator list"
where
  "matchReader t parts locs gi rls =
     (if topicName (snd gi) \<noteq> t then rls
      else if \<not> partitionsMatch parts (partitions (snd gi)) then rls
      else
        (case locs (fst gi) of
           None \<Rightarrow> rls
         | Some loc \<Rightarrow>
             if Kind loc = LocatorKindInvalid then rls
             else mergeLocator (Prefix (fst gi)) loc (contentFilter (snd gi)) rls))"

definition matchedReaderLocators :: "topic \<Rightarrow> bytes list \<Rightarrow> 'r participant \<Rightarrow> readerLocator list" where
  "matchedReaderLocators t parts p =
     fold (matchReader t parts (remoteReaderLocs (sedp p))) (remoteReaders (sedp p)) []"

text \<open>The loop that sends one message to every matched reader that has an address.\<close>

definition sendToMatched :: "net \<Rightarrow> sockid \<Rightarrow> bytes \<Rightarrow> topic \<Rightarrow> bytes list \<Rightarrow> 'r participant \<Rightarrow> out list" where
  "sendToMatched net sock msg t parts p =
     concat (map (\<lambda>lm. case udpAddr (Loc lm) of
                         None \<Rightarrow> []
                       | Some dst \<Rightarrow> [sendUnicast net sock dst (rlPrefix lm) msg True p])
               (matchedReaderLocators t parts p))"

section \<open>Announcements round trip\<close>

text \<open>The parameters an announcement carries, in order.\<close>

definition strParams :: "uint16 \<Rightarrow> gostring list \<Rightarrow> param list" where
  "strParams pid ss = map (\<lambda>s. (pid, stringBytes s)) ss"

definition endpointParams :: "endpointInfo \<Rightarrow> 'r participant \<Rightarrow> param list" where
  "endpointParams info p =
     [(pidEndpointGUID, guidBytes (ei_guid info)), (pidTopicName, stringBytes (topicName info)),
      (pidTypeName, stringBytes (if typeName info = [] then defaultTypeName else typeName info)),
      (pidDefaultUnicastLocator,
         marshalLocator (locatorFromUDP \<lparr>udpIP = ipv4zero, udpPort = 0\<rparr> (dataPort (cfg p))))]
     @ strParams pidPartition (partitions info)
     @ (case contentFilter info of None \<Rightarrow> []
        | Some c \<Rightarrow> (pidContentFilterExpr, stringBytes (cf_text c)) # strParams pidContentFilterParam (cf_params c))
     @ (if isWriter info \<and> ownershipExclusive info
        then [(pidOwnership, PutUint32 1), (pidOwnershipStrength, PutUint32 (ownershipStrength info))] else [])
     @ (if isWriter info \<and> livelinessLease info > 0
        then [(pidLivelinessLeaseDuration, PutUint64 (word_of_int (livelinessLease info)))] else [])
     @ (case endpointPlugin (cfg p) of None \<Rightarrow> []
        | Some ep \<Rightarrow> [(pidEndpointToken, SignEndpoint ep (ownPrefix p) (topicName info))])"

abbreviation encodeParams :: "param list \<Rightarrow> bytes" where
  "encodeParams ps \<equiv> concat (map (\<lambda>(pid, v). paramBytes pid v) ps)"

lemma fold_addString: "fold (addString pid) ss e = e @ encodeParams (strParams pid ss)"
  by (induction ss arbitrary: e) (simp_all add: addString_def addParam_eq strParams_def)

lemmas add_defs = addString_def addGUID_def addLocator_def addUint32_def addInt64_def addBytes_def

lemma buildEndpointData_eq:
  "buildEndpointData info p = finish (newPLCDREncoder @ encodeParams (endpointParams info p))"
  unfolding buildEndpointData_def endpointParams_def Let_def
  by (simp add: fold_addString addParam_eq add_defs
           split: option.split)

lemma announceStep_simps [simp]:
  assumes "length str < 2 ^ 32 - 1"
  shows "announceStep from (pidTopicName, padded (stringBytes str)) a = updInfo (\<lambda>i. i\<lparr>topicName := str\<rparr>) a"
    and "announceStep from (pidTypeName, padded (stringBytes str)) a = updInfo (\<lambda>i. i\<lparr>typeName := str\<rparr>) a"
    and "announceStep from (pidPartition, padded (stringBytes str)) a
           = updInfo (\<lambda>i. i\<lparr>partitions := partitions i @ [str]\<rparr>) a"
    and "announceStep from (pidContentFilterExpr, padded (stringBytes str)) a = a\<lparr>cfExpr := str\<rparr>"
    and "announceStep from (pidContentFilterParam, padded (stringBytes str)) a = a\<lparr>cfParams := cfParams a @ [str]\<rparr>"
  using assms by (simp_all add: announceStep_def withSome_def pid_defs)

lemma announceStep_simps2 [simp]:
  "wf_guid g \<Longrightarrow> announceStep from (pidEndpointGUID, padded (guidBytes g)) a = updInfo (\<lambda>i. i\<lparr>ei_guid := g\<rparr>) a"
  "wf_locator l \<Longrightarrow> announceStep from (pidDefaultUnicastLocator, padded (marshalLocator l)) a
     = a\<lparr>dataLocator := fillAddress from l\<rparr>"
  "announceStep from (pidEndpointToken, v) a = a\<lparr>endpointTag := v\<rparr>"
  "announceStep from (pidOwnership, padded (PutUint32 1)) a = updInfo (\<lambda>i. i\<lparr>ownershipExclusive := True\<rparr>) a"
  "announceStep from (pidOwnershipStrength, padded (PutUint32 n)) a = updInfo (\<lambda>i. i\<lparr>ownershipStrength := n\<rparr>) a"
  "announceStep from (pidLivelinessLeaseDuration, padded (PutUint64 d)) a
     = updInfo (\<lambda>i. i\<lparr>livelinessLease := sint d\<rparr>) a"
  by (simp_all add: announceStep_def withSome_def pid_defs)

abbreviation shortStr :: "gostring \<Rightarrow> bool" where
  "shortStr s \<equiv> length s \<le> 65000"

lemma fold_partitions [simp]:
  "list_all shortStr ss \<Longrightarrow>
     fold (announceStep from) (map (apsnd padded) (strParams pidPartition ss)) a
       = updInfo (\<lambda>i. i\<lparr>partitions := partitions i @ ss\<rparr>) a"
  by (induction ss arbitrary: a) (simp_all add: strParams_def updInfo_def)

lemma fold_cfParams [simp]:
  "list_all shortStr ss \<Longrightarrow>
     fold (announceStep from) (map (apsnd padded) (strParams pidContentFilterParam ss)) a
       = a\<lparr>cfParams := cfParams a @ ss\<rparr>"
  by (induction ss arbitrary: a) (simp_all add: strParams_def)

text \<open>What can be announced: names of ordinary length, a lease that fits 64 bits, a filter on readers only.\<close>

definition announceable :: "endpointInfo \<Rightarrow> 'r participant \<Rightarrow> bool" where
  "announceable info p \<longleftrightarrow>
     wf_guid (ei_guid info) \<and> topicName info \<noteq> [] \<and> shortStr (topicName info) \<and> shortStr (typeName info)
     \<and> list_all shortStr (partitions info) \<and> livelinessLease info < 2 ^ 63
     \<and> (case contentFilter info of None \<Rightarrow> True
        | Some c \<Rightarrow> \<not> isWriter info \<and> cf_text c \<noteq> [] \<and> shortStr (cf_text c) \<and> list_all shortStr (cf_params c))
     \<and> (case endpointPlugin (cfg p) of None \<Rightarrow> True
        | Some ep \<Rightarrow> shortStr (SignEndpoint ep (ownPrefix p) (topicName info)))"

text \<open>What the receiver is meant to learn of an announced endpoint.\<close>

definition announced :: "endpointInfo \<Rightarrow> endpointInfo" where
  "announced info = info\<lparr>
     typeName := (if typeName info = [] then defaultTypeName else typeName info),
     ownershipExclusive := (isWriter info \<and> ownershipExclusive info),
     ownershipStrength := (if isWriter info \<and> ownershipExclusive info then ownershipStrength info else 0),
     livelinessLease := (if isWriter info \<and> livelinessLease info > 0 then livelinessLease info else 0)\<rparr>"

text \<open>The filter of a local reader is the compiled form of its text.\<close>

definition compiled :: "(gostring \<Rightarrow> gostring list \<Rightarrow> (bytes \<Rightarrow> bool) option) \<Rightarrow> endpointInfo \<Rightarrow> bool" where
  "compiled parse info \<longleftrightarrow>
     (case contentFilter info of None \<Rightarrow> True
      | Some c \<Rightarrow> cf_expr c \<noteq> None \<and> parse (cf_text c) (cf_params c) = cf_expr c)"

abbreviation zeroAddrLocator :: "int \<Rightarrow> Locator" where
  "zeroAddrLocator port \<equiv> locatorFromUDP \<lparr>udpIP = ipv4zero, udpPort = 0\<rparr> port"

lemma zeroAddrLocator_eq:
  "zeroAddrLocator port = \<lparr>Kind = LocatorKindUDPv4, Port = word_of_int port, Address = replicate 16 0\<rparr>"
proof -
  have "replicate 12 (0 :: byte) @ [0, 0, 0, 0] = replicate 16 0" by (simp add: numeral_eq_Suc)
  then show ?thesis
    by (simp add: locatorFromUDP_def ip4OrZero_def To4_def To16_def ipv4zero_def v4InV6Prefix_def)
qed

lemma fillAddress_zero:
  assumes "To4 (udpIP from) = Some ip4"
  shows "fillAddress from (zeroAddrLocator port) = locatorFromUDP from port"
  unfolding fillAddress_def zeroAddrLocator_eq using assms by (simp add: locatorFromUDP_def ip4OrZero_def)

lemma sint_duration: "0 < d \<Longrightarrow> d < 2 ^ 63 \<Longrightarrow> sint (word_of_int d :: int64) = d"
  by (simp add: sint_sbintrunc' signed_take_bit_int_eq_self)

lemma wf_zeroAddrLocator: "wf_locator (zeroAddrLocator port)"
  by (simp add: zeroAddrLocator_eq wf_locator_def)

lemma wf_endpointParams:
  assumes "announceable info p"
  shows "list_all wf_param (endpointParams info p)"
  using assms
  by (auto simp: announceable_def endpointParams_def wf_param_def pid_defs strParams_def list_all_iff
      stringBytes_def guidBytes_def wf_guid_def wf_prefix_def wf_eid_def marshalLocator_def zeroAddrLocator_eq
      defaultTypeName_def split: option.splits)

lemma decode_build:
  assumes "announceable info p" "To4 (udpIP from) = Some ip4"
  shows "\<exists>a. decodeAnnounce pre (buildEndpointData info p) (isWriter info) from = Some a
     \<and> an_info a = (announced info)\<lparr>contentFilter := None\<rparr> \<and> dataLocator a = locatorFromUDP from (dataPort (cfg p))
     \<and> endpointTag a = (case endpointPlugin (cfg p) of None \<Rightarrow> []
          | Some ep \<Rightarrow> padded (SignEndpoint ep (ownPrefix p) (topicName info)))
     \<and> cfExpr a = (case contentFilter info of None \<Rightarrow> [] | Some c \<Rightarrow> cf_text c)
     \<and> cfParams a = (case contentFilter info of None \<Rightarrow> [] | Some c \<Rightarrow> cf_params c)"
proof -
  let ?a = "fold (announceStep from) (map (apsnd padded) (endpointParams info p)) (announceInit pre (isWriter info))"
  have ps: "params (encodeParams (endpointParams info p) @ sentinel) = map (apsnd padded) (endpointParams info p)"
    using params_concat [OF wf_endpointParams [OF assms(1)], of sentinel] by simp
  have a: "an_info ?a = (announced info)\<lparr>contentFilter := None\<rparr>
     \<and> dataLocator ?a = locatorFromUDP from (dataPort (cfg p))
     \<and> endpointTag ?a = (case endpointPlugin (cfg p) of None \<Rightarrow> []
          | Some ep \<Rightarrow> padded (SignEndpoint ep (ownPrefix p) (topicName info)))
     \<and> cfExpr ?a = (case contentFilter info of None \<Rightarrow> [] | Some c \<Rightarrow> cf_text c)
     \<and> cfParams ?a = (case contentFilter info of None \<Rightarrow> [] | Some c \<Rightarrow> cf_params c)"
    using assms
    by (cases info)
      (auto simp: announceable_def endpointParams_def announceInit_def updInfo_def announced_def
        wf_zeroAddrLocator fillAddress_zero defaultTypeName_def sint_duration split: option.splits)
  have "newPLCDRDecoder (buildEndpointData info p) = Some (encodeParams (endpointParams info p) @ sentinel)"
    by (simp add: buildEndpointData_eq finish_eq)
  moreover have "topicName (an_info ?a) \<noteq> []" using a assms(1) by (simp add: announced_def announceable_def)
  ultimately have "decodeAnnounce pre (buildEndpointData info p) (isWriter info) from = Some ?a"
    by (simp add: decodeAnnounce_def ps Let_def)
  with a show ?thesis by blast
qed


definition exWriterInfo :: endpointInfo where
  "exWriterInfo =
     \<lparr>ei_guid = GUID (replicate 12 7) [0, 0, 1, 2], topicName = [97], typeName = [], isWriter = True,
      partitions = [[98]], ownershipExclusive = True, ownershipStrength = 5, livelinessLease = 9,
      contentFilter = None\<rparr>"


section \<open>Matched reader locators\<close>

text \<open>The remote readers a writer on \<open>t\<close> in \<open>parts\<close> has to reach, with their locators.\<close>

definition wanted :: "topic \<Rightarrow> bytes list \<Rightarrow> (GUID \<Rightarrow> Locator option) \<Rightarrow> (GUID \<times> endpointInfo) list
   \<Rightarrow> (Locator \<times> contentFilterSpec option) list" where
  "wanted t parts locs gis =
     concat (map (\<lambda>(g, i). if topicName i = t \<and> partitionsMatch parts (partitions i)
        then (case locs g of Some l \<Rightarrow> if Kind l = LocatorKindInvalid then [] else [(l, contentFilter i)] | None \<Rightarrow> [])
        else []) gis)"

definition filters_ok :: "(Locator \<times> contentFilterSpec option) list \<Rightarrow> readerLocator \<Rightarrow> bool" where
  "filters_ok ws rl \<longleftrightarrow>
     (if (Loc rl, None) \<in> set ws then ContentFilters rl = []
      else Some ` set (ContentFilters rl) = {cf. (Loc rl, cf) \<in> set ws})"

definition rl_inv :: "(Locator \<times> contentFilterSpec option) list \<Rightarrow> readerLocator list \<Rightarrow> bool" where
  "rl_inv ws rls \<longleftrightarrow> distinct (map Loc rls) \<and> Loc ` set rls = fst ` set ws
     \<and> (\<forall>rl \<in> set rls. filters_ok ws rl)"

lemma Loc_mergeLocator [simp]:
  "Loc ` set (mergeLocator g loc cf rls) = insert loc (Loc ` set rls)"
  by (induction rls) (auto split: option.splits)

lemma distinct_mergeLocator:
  "distinct (map Loc rls) \<Longrightarrow> distinct (map Loc (mergeLocator g loc cf rls))"
proof (induction rls)
  case (Cons rl rls)
  have "Loc rl \<notin> Loc ` set (mergeLocator g loc cf rls)" if "Loc rl \<noteq> loc"
    using Cons.prems that by simp
  with Cons show ?case by (auto split: option.splits)
qed simp

lemma mergeLocator_member:
  assumes "distinct (map Loc rls)" and "rl \<in> set (mergeLocator g loc cf rls)"
  shows "(Loc rl \<noteq> loc \<and> rl \<in> set rls)
    \<or> (Loc rl = loc \<and> loc \<notin> Loc ` set rls \<and> ContentFilters rl = (case cf of None \<Rightarrow> [] | Some c \<Rightarrow> [c]))
    \<or> (Loc rl = loc \<and> (\<exists>rl' \<in> set rls. Loc rl' = loc
         \<and> ContentFilters rl = (case cf of None \<Rightarrow> [] | Some c \<Rightarrow>
              if ContentFilters rl' \<noteq> [] then ContentFilters rl' @ [c] else [])))"
  using assms
proof (induction rls)
  case (Cons rl1 rls)
  show ?case
  proof (cases "Loc rl1 = loc")
    case True
    then have "loc \<notin> Loc ` set rls" using Cons.prems(1) by auto
    then have "rl \<in> set rls \<Longrightarrow> Loc rl \<noteq> loc" by (auto simp: image_iff)
    with Cons.prems True show ?thesis by (cases cf) (auto split: if_splits)
  next
    case False
    with Cons show ?thesis by (cases "rl = rl1") auto
  qed
qed (auto split: option.splits)

lemma mergeLocator_inv:
  assumes "rl_inv ws rls"
  shows "rl_inv (ws @ [(loc, cf)]) (mergeLocator g loc cf rls)"
  unfolding rl_inv_def
proof (intro conjI ballI)
  have d: "distinct (map Loc rls)" and l: "Loc ` set rls = fst ` set ws"
    and f: "\<And>rl. rl \<in> set rls \<Longrightarrow> filters_ok ws rl"
    using assms by (auto simp: rl_inv_def)
  show "distinct (map Loc (mergeLocator g loc cf rls))" using d by (rule distinct_mergeLocator)
  show "Loc ` set (mergeLocator g loc cf rls) = fst ` set (ws @ [(loc, cf)])" using l by auto
  fix rl assume "rl \<in> set (mergeLocator g loc cf rls)"
  from mergeLocator_member [OF d this]
  show "filters_ok (ws @ [(loc, cf)]) rl"
  proof (elim disjE conjE bexE)
    assume "Loc rl \<noteq> loc" "rl \<in> set rls"
    then show ?thesis using f [of rl] by (auto simp: filters_ok_def)
  next
    assume "Loc rl = loc" "loc \<notin> Loc ` set rls"
      "ContentFilters rl = (case cf of None \<Rightarrow> [] | Some c \<Rightarrow> [c])"
    moreover from this(2) have "(loc, x) \<notin> set ws" for x unfolding l by force
    ultimately show ?thesis by (cases cf) (auto simp: filters_ok_def)
  next
    fix rl' assume r: "Loc rl = loc" "rl' \<in> set rls" "Loc rl' = loc"
      "ContentFilters rl = (case cf of None \<Rightarrow> [] | Some c \<Rightarrow>
         if ContentFilters rl' \<noteq> [] then ContentFilters rl' @ [c] else [])"
    have "loc \<in> fst ` set ws" using r(2,3) unfolding l [symmetric] by (metis imageI)
    then have "\<exists>x. (loc, x) \<in> set ws" by force
    then show ?thesis using f [OF r(2)] r by (cases cf) (auto simp: filters_ok_def split: if_splits)
  qed
qed

lemma matchedReaderLocators_inv:
  "rl_inv (wanted t parts (remoteReaderLocs (sedp p)) (remoteReaders (sedp p))) (matchedReaderLocators t parts p)"
proof -
  have "rl_inv (ws @ wanted t parts locs gis) (fold (matchReader t parts locs) gis rls)"
    if "rl_inv ws rls" for ws locs gis rls
    using that
  proof (induction gis arbitrary: ws rls)
    case (Cons gi gis)
    obtain g i where gi: "gi = (g, i)" by fastforce
    have "rl_inv (ws @ wanted t parts locs [gi]) (matchReader t parts locs gi rls)"
      using Cons.prems mergeLocator_inv [OF Cons.prems]
      by (auto simp: matchReader_def wanted_def gi split: option.split)
    from Cons.IH [OF this] show ?case by (simp add: wanted_def)
  qed (simp add: wanted_def)
  from this [of "[]" "[]"] show ?thesis by (simp add: matchedReaderLocators_def rl_inv_def)
qed

text \<open>
  C34: the list of locators a writer sends to has one entry per distinct locator, an entry for
  every remote reader matched by topic and partition, and no other; and a sample is sent to a
  locator exactly when some matched reader there wants it: one without a content filter, or one
  whose filter holds of the payload. In particular no matched reader's sample is withheld.
\<close>

theorem matched_locators_or_merge:
  assumes "rls = matchedReaderLocators t parts p"
    and "ws = wanted t parts (remoteReaderLocs (sedp p)) (remoteReaders (sedp p))"
  shows "distinct (map Loc rls) \<and> Loc ` set rls = fst ` set ws
    \<and> (\<forall>rl \<in> set rls. matches rl payload \<longleftrightarrow> (\<exists>cf. (Loc rl, cf) \<in> set ws \<and> cfEval cf payload))"
proof (intro conjI ballI)
  note inv = matchedReaderLocators_inv [of t parts p, folded assms]
  show "distinct (map Loc rls)" "Loc ` set rls = fst ` set ws" using inv by (simp_all add: rl_inv_def)
  fix rl assume rl: "rl \<in> set rls"
  then have ex: "\<exists>cf. (Loc rl, cf) \<in> set ws" using inv by (force simp: rl_inv_def)
  show "matches rl payload \<longleftrightarrow> (\<exists>cf. (Loc rl, cf) \<in> set ws \<and> cfEval cf payload)"
  proof (cases "(Loc rl, None) \<in> set ws")
    case True
    then have "ContentFilters rl = []" using inv rl by (simp add: rl_inv_def filters_ok_def)
    then show ?thesis using True by (auto simp: matches_def cfEval_def intro!: exI [of _ None])
  next
    case False
    then have "Some ` set (ContentFilters rl) = {cf. (Loc rl, cf) \<in> set ws}"
      using inv rl by (simp add: rl_inv_def filters_ok_def)
    then have cf: "(Loc rl, cf) \<in> set ws \<longleftrightarrow> cf \<in> Some ` set (ContentFilters rl)" for cf by simp
    then have "ContentFilters rl \<noteq> []" using ex by auto
    then show ?thesis by (auto simp: matches_def list_ex_iff cf)
  qed
qed

definition exReaderInfo :: "byte \<Rightarrow> contentFilterSpec option \<Rightarrow> endpointInfo" where
  "exReaderInfo n cf =
     \<lparr>ei_guid = GUID (replicate 12 n) [0, 0, 1, 7], topicName = [97], typeName = defaultTypeName, isWriter = False,
      partitions = [], ownershipExclusive = False, ownershipStrength = 0, livelinessLease = 0, contentFilter = cf\<rparr>"

definition exLoc :: Locator where
  "exLoc = \<lparr>Kind = 1, Port = 7411, Address = replicate 16 0\<rparr>"

definition exFilter :: contentFilterSpec where
  "exFilter = \<lparr>cf_expr = Some (\<lambda>b. b = [1]), cf_text = [98], cf_params = []\<rparr>"

definition exMatched :: "unit participant" where
  "exMatched = onRemoteReader (exReaderInfo 2 (Some exFilter)) exLoc
     (onRemoteReader (exReaderInfo 1 (Some exFilter)) exLoc (initParticipant (plainConfig 0 0 (replicate 12 0)) None))"

lemma exMatched_wanted:
  "wanted [97] [] (remoteReaderLocs (sedp exMatched)) (remoteReaders (sedp exMatched))
     = [(exLoc, Some exFilter), (exLoc, Some exFilter)]"
proof -
  have n: "GUID (replicate 12 (1 :: byte)) [0, 0, 1, 7] \<noteq> GUID (replicate 12 2) [0, 0, 1, 7]"
    by (simp add: numeral_eq_Suc)
  show ?thesis using n
    by (simp add: exMatched_def onRemoteReader_def updSedp_def initParticipant_def newSEDPService_def
        exReaderInfo_def wanted_def exLoc_def locator_kind_defs partitionsMatch_def)
qed

text \<open>
  At two relay-only participants, whose locators carry no address and the same port, the two
  matched readers share one entry, which names the first participant only.
\<close>

theorem matched_locators_or_merge_witness:
  "length (matchedReaderLocators [97] [] exMatched) = 1
   \<and> list_all (\<lambda>rl. matches rl [1] \<and> \<not> matches rl [2]) (matchedReaderLocators [97] [] exMatched)"
proof -
  note m = matched_locators_or_merge [OF refl refl, of "[97]" "[]" exMatched, unfolded exMatched_wanted]
  have "Loc ` set (matchedReaderLocators [97] [] exMatched) = {exLoc}" using m by auto
  moreover have "distinct (map Loc (matchedReaderLocators [97] [] exMatched))" using m by blast
  ultimately have "length (matchedReaderLocators [97] [] exMatched) = 1"
    using distinct_card [of "map Loc (matchedReaderLocators [97] [] exMatched)"] by simp
  moreover have "matches rl [1] \<and> \<not> matches rl [2]" if "rl \<in> set (matchedReaderLocators [97] [] exMatched)" for rl
    using m [of "[1]"] m [of "[2]"] that by (fastforce simp: cfEval_def exFilter_def)
  ultimately show ?thesis by (simp add: list_all_iff)
qed

section \<open>Matching\<close>

definition wmatch :: "endpointInfo \<Rightarrow> rtpsReader \<Rightarrow> bool" where
  "wmatch i r \<longleftrightarrow> topicName i = r_topic r \<and> partitionsMatch (partitions i) (r_partitions r)"

text \<open>
  The matching invariant, for the announcements \<open>A\<close> received so far: the tables are keyed by the
  GUIDs they hold, every live reader is registered under its topic and partitions, it is linked to
  every matching writer in the table, and to no writer that never announced itself as matching.
\<close>

definition reader_linked :: "'r participant \<Rightarrow> endpointInfo set \<Rightarrow> EntityId \<Rightarrow> rtpsReader \<Rightarrow> bool" where
  "reader_linked p A eid r \<longleftrightarrow>
     (\<exists>i. map_of (localReaders (sedp p)) eid = Some i \<and> topicName i = r_topic r \<and> partitions i = r_partitions r)
     \<and> (\<forall>(g, i) \<in> set (remoteWriters (sedp p)). wmatch i r \<longrightarrow> g \<in> set (sources r))
     \<and> (\<forall>g \<in> set (sources r). \<exists>i \<in> A. ei_guid i = g \<and> wmatch i r)"

definition tables_keyed :: "'r participant \<Rightarrow> endpointInfo set \<Rightarrow> bool" where
  "tables_keyed p A \<longleftrightarrow>
     distinct (map fst (localReaders (sedp p)))
     \<and> (\<forall>(k, i) \<in> set (localReaders (sedp p)). Entity (ei_guid i) = k)
     \<and> (\<forall>(g, i) \<in> set (remoteWriters (sedp p)). ei_guid i = g \<and> i \<in> A)"

definition match_inv :: "'r participant \<Rightarrow> endpointInfo set \<Rightarrow> bool" where
  "match_inv p A \<longleftrightarrow> tables_keyed p A \<and> (\<forall>eid r. map_of (readers p) eid = Some r \<longrightarrow> reader_linked p A eid r)"

lemma readerByEID_map_of:
  "map_of (readers (readerByEID eid f p)) k =
     (if k = eid then map_option f (map_of (readers p) k) else map_of (readers p) k)"
  by (simp add: readerByEID_def update_conv' split: option.split)

lemma readerByEID_sedp [simp]: "sedp (readerByEID eid f p) = sedp p"
  by (simp add: readerByEID_def split: option.split)

lemma fold_readerByEID:
  assumes "distinct eids"
  shows "map_of (readers (fold (\<lambda>eid. readerByEID eid f) eids p)) k =
     (if k \<in> set eids then map_option f (map_of (readers p) k) else map_of (readers p) k)"
    and "sedp (fold (\<lambda>eid. readerByEID eid f) eids p) = sedp p"
  using assms by (induction eids arbitrary: p) (auto simp: readerByEID_map_of)

lemma linkWriter_simps [simp]:
  "set (sources (linkWriter now g l r)) = insert g (set (sources r))"
  "r_topic (linkWriter now g l r) = r_topic r" "r_partitions (linkWriter now g l r) = r_partitions r"
  by (simp_all add: linkWriter_def addSourceGUID_def Let_def)

lemma set_update:
  "(k, v) \<in> set (AList.update k' v' al) \<Longrightarrow> (k = k' \<and> v = v') \<or> (k, v) \<in> set al"
  by (induction al) (auto split: if_splits)

lemma matched_eids:
  assumes "tables_keyed p A"
  shows "distinct (map (\<lambda>lr. Entity (ei_guid lr)) (filter Q (map snd (localReaders (sedp p)))))"
    and "map_of (localReaders (sedp p)) k = Some i \<Longrightarrow>
      k \<in> set (map (\<lambda>lr. Entity (ei_guid lr)) (filter Q (map snd (localReaders (sedp p))))) \<longleftrightarrow> Q i"
proof -
  have e: "map (\<lambda>lr. Entity (ei_guid lr)) (filter Q (map snd xs)) = map fst (filter (Q \<circ> snd) xs)"
    if "\<forall>(k, i) \<in> set xs. Entity (ei_guid i) = k" for xs :: "(EntityId \<times> endpointInfo) list"
    using that by (induction xs) auto
  have k: "\<forall>(k, i) \<in> set (localReaders (sedp p)). Entity (ei_guid i) = k" and d: "distinct (map fst (localReaders (sedp p)))"
    using assms by (auto simp: tables_keyed_def)
  show "distinct (map (\<lambda>lr. Entity (ei_guid lr)) (filter Q (map snd (localReaders (sedp p)))))"
    unfolding e [OF k] using d by (simp add: distinct_map_filter)
  show "k \<in> set (map (\<lambda>lr. Entity (ei_guid lr)) (filter Q (map snd (localReaders (sedp p))))) \<longleftrightarrow> Q i"
    if "map_of (localReaders (sedp p)) k = Some i"
  proof -
    have "(k, j) \<in> set (localReaders (sedp p)) \<longleftrightarrow> j = i" for j
      using that d by (metis map_of_SomeD map_of_is_SomeI option.inject)
    then have "k \<in> set (map fst (filter (Q \<circ> snd) (localReaders (sedp p)))) \<longleftrightarrow> Q i"
      by (force simp: image_iff)
    then show ?thesis by (simp only: e [OF k])
  qed
qed

abbreviation samePlace :: "endpointInfo \<Rightarrow> endpointInfo \<Rightarrow> bool" where
  "samePlace info lr \<equiv> topicName lr = topicName info \<and> partitionsMatch (partitions lr) (partitions info)"

abbreviation matchedEids :: "endpointInfo \<Rightarrow> 'r participant \<Rightarrow> EntityId list" where
  "matchedEids info p \<equiv> map (\<lambda>lr. Entity (ei_guid lr)) (filter (samePlace info) (map snd (localReaders (sedp p))))"

lemma onRemoteWriter_frame:
  assumes "tables_keyed p A"
  shows "map_of (readers (onRemoteWriter now info loc p)) k =
       (if k \<in> set (matchedEids info p)
        then map_option (linkWriter now (ei_guid info) (livelinessLease info)) (map_of (readers p) k)
        else map_of (readers p) k)"
    and "localReaders (sedp (onRemoteWriter now info loc p)) = localReaders (sedp p)"
    and "remoteWriters (sedp (onRemoteWriter now info loc p)) = AList.update (ei_guid info) info (remoteWriters (sedp p))"
proof -
  define q where "q = updSedp (\<lambda>s. s\<lparr>endpointMatches := endpointMatches s + word_of_nat (length (matchedEids info p))\<rparr>)
    (let p1 = updSedp (\<lambda>s. s\<lparr>remoteWriters := AList.update (ei_guid info) info (remoteWriters s)\<rparr>) p
     in if ownershipExclusive info
        then p1\<lparr>ownership := (ownership p1)(topicName info \<mapsto> register (ei_guid info) (ownershipStrength info)
                (ownershipStateFor (topicName info) (ownership p1)))\<rparr>
        else p1)"
  define f where "f = fold (\<lambda>eid. readerByEID eid (linkWriter now (ei_guid info) (livelinessLease info))) (matchedEids info p) q"
  have q: "readers q = readers p" "localReaders (sedp q) = localReaders (sedp p)"
    "remoteWriters (sedp q) = AList.update (ei_guid info) info (remoteWriters (sedp p))"
    by (simp_all add: q_def updSedp_def Let_def)
  have o: "onRemoteWriter now info loc p = (if matchedEids info p \<noteq> [] then addWriterLocator (ei_guid info) loc f else f)"
    unfolding onRemoteWriter_def f_def q_def Let_def by (simp add: updSedp_def)
  note fold = fold_readerByEID [OF matched_eids(1) [OF assms, of "samePlace info"], where p = q]
  show "map_of (readers (onRemoteWriter now info loc p)) k =
       (if k \<in> set (matchedEids info p)
        then map_option (linkWriter now (ei_guid info) (livelinessLease info)) (map_of (readers p) k)
        else map_of (readers p) k)"
    unfolding o using fold(1) [of "linkWriter now (ei_guid info) (livelinessLease info)" k]
    unfolding f_def [symmetric] q(1) by (simp add: addWriterLocator_def)
  show "localReaders (sedp (onRemoteWriter now info loc p)) = localReaders (sedp p)"
    "remoteWriters (sedp (onRemoteWriter now info loc p)) = AList.update (ei_guid info) info (remoteWriters (sedp p))"
    unfolding o using fold(2) [of "linkWriter now (ei_guid info) (livelinessLease info)"]
    unfolding f_def [symmetric] by (simp_all add: addWriterLocator_def q)
qed

lemma onRemoteWriter_readers:
  assumes "tables_keyed p A" and "map_of (localReaders (sedp p)) k = Some i"
  shows "map_of (readers (onRemoteWriter now info loc p)) k =
     (if samePlace info i
      then map_option (linkWriter now (ei_guid info) (livelinessLease info)) (map_of (readers p) k)
      else map_of (readers p) k)"
  unfolding onRemoteWriter_frame(1) [OF assms(1)] matched_eids(2) [OF assms] ..

lemmas onRemoteWriter_sedp = onRemoteWriter_frame(2,3)

lemma onRemoteWriter_match_inv:
  assumes "match_inv p A"
  shows "match_inv (onRemoteWriter now info loc p) (insert info A)"
  unfolding match_inv_def
proof (intro conjI allI impI)
  let ?q = "onRemoteWriter now info loc p"
  have k: "tables_keyed p A" using assms by (simp add: match_inv_def)
  note sedp = onRemoteWriter_sedp [OF k, of now info loc]
  show "tables_keyed ?q (insert info A)"
    using k by (auto simp: tables_keyed_def sedp dest!: set_update)
  fix eid r assume r: "map_of (readers ?q) eid = Some r"
  then obtain r0 where r0: "map_of (readers p) eid = Some r0"
    unfolding onRemoteWriter_frame(1) [OF k] by (auto split: if_splits)
  then have l: "reader_linked p A eid r0" using assms by (simp add: match_inv_def)
  then obtain i where i: "map_of (localReaders (sedp p)) eid = Some i" "topicName i = r_topic r0"
    "partitions i = r_partitions r0" by (auto simp: reader_linked_def)
  have "r = (if wmatch info r0 then linkWriter now (ei_guid info) (livelinessLease info) r0 else r0)"
    using r onRemoteWriter_readers [OF k i(1), of now info loc] r0 i(2,3)
    by (auto simp: wmatch_def partitionsMatch_sym split: if_splits)
  then show "reader_linked ?q (insert info A) eid r"
    using l i by (auto simp: reader_linked_def sedp wmatch_def dest!: set_update)
qed

lemma match_inv_cong:
  assumes "localReaders (sedp q) = localReaders (sedp p)" "remoteWriters (sedp q) = remoteWriters (sedp p)"
    "readers q = readers p"
  shows "match_inv q A = match_inv p A"
  unfolding match_inv_def tables_keyed_def reader_linked_def assms ..

lemma onRemoteReader_match_inv: "match_inv p A \<Longrightarrow> match_inv (onRemoteReader info loc p) A"
  by (subst match_inv_cong [of _ p]) (simp_all add: onRemoteReader_def updSedp_def)

lemma onPeerEvicted_match_inv: "match_inv p A \<Longrightarrow> match_inv (onPeerEvicted pre p) A"
  by (auto simp: match_inv_def tables_keyed_def reader_linked_def onPeerEvicted_def updSedp_def Let_def)

lemma announceEndpoint_frame [simp]:
  "sedp (fst (announceEndpoint net wid rid info proxy p)) = sedp p"
  "readers (fst (announceEndpoint net wid rid info proxy p)) = readers p"
  by (simp_all add: announceEndpoint_def nextSeqNum_def Let_def)

lemma fold_linkWriter:
  "set (sources (fold (\<lambda>rw. linkWriter now (ei_guid rw) (livelinessLease rw)) ws r)) = ei_guid ` set ws \<union> set (sources r)"
  "r_topic (fold (\<lambda>rw. linkWriter now (ei_guid rw) (livelinessLease rw)) ws r) = r_topic r"
  "r_partitions (fold (\<lambda>rw. linkWriter now (ei_guid rw) (livelinessLease rw)) ws r) = r_partitions r"
  by (induction ws arbitrary: r) auto

lemma registerReader_match_inv:
  assumes "match_inv p A" and "registerReader net now eid t tn qos r cf p = (r', p', outs)"
    and "sources r = []" and "r_topic r = t" and "r_partitions r = Partition qos"
    and "eid \<notin> fst ` set (localReaders (sedp p))"
  shows "match_inv (p'\<lparr>readers := AList.update eid r' (readers p')\<rparr>) A"
  unfolding match_inv_def
proof (intro conjI allI impI)
  let ?q = "p'\<lparr>readers := AList.update eid r' (readers p')\<rparr>"
  have k: "tables_keyed p A" using assms(1) by (simp add: match_inv_def)
  have p': "readers p' = readers p" "remoteWriters (sedp p') = remoteWriters (sedp p)"
    "\<exists>i. localReaders (sedp p') = AList.update eid i (localReaders (sedp p)) \<and> topicName i = t
       \<and> partitions i = Partition qos \<and> Entity (ei_guid i) = eid"
    using arg_cong [OF assms(2), of "fst \<circ> snd"]
    by (auto simp: registerReader_def Let_def announceReader_def updSedp_def)
  then obtain i where i: "localReaders (sedp p') = AList.update eid i (localReaders (sedp p))" "topicName i = t"
    "partitions i = Partition qos" "Entity (ei_guid i) = eid" by blast
  show "tables_keyed ?q A"
    using k i p' by (auto simp: tables_keyed_def distinct_update dest!: set_update)
  have r': "set (sources r') = ei_guid ` {i \<in> snd ` set (remoteWriters (sedp p)).
        topicName i = t \<and> partitionsMatch (partitions i) (Partition qos)}"
    "r_topic r' = t" "r_partitions r' = Partition qos"
    using arg_cong [OF assms(2), of fst, symmetric] assms(3-5)
    by (simp_all add: registerReader_def Let_def fold_linkWriter)
  fix e x assume "map_of (readers ?q) e = Some x"
  then consider "e = eid" "x = r'" | "e \<noteq> eid" "map_of (readers p) e = Some x"
    by (auto simp: update_conv' p' split: if_splits)
  then show "reader_linked ?q A e x"
  proof cases
    case 1
    have rw: "ei_guid j = g" "j \<in> A" if "(g, j) \<in> set (remoteWriters (sedp p))" for g j
      using k that by (auto simp: tables_keyed_def)
    have "g \<in> set (sources r')" if "(g, j) \<in> set (remoteWriters (sedp p))" "wmatch j r'" for g j
      unfolding r'(1) using that rw(1) [OF that(1)] by (force simp: wmatch_def r'(2,3))
    moreover have "\<exists>j \<in> A. ei_guid j = g \<and> wmatch j r'" if "g \<in> set (sources r')" for g
      using that unfolding r'(1) by (auto simp: wmatch_def r'(2,3) dest: rw(2))
    ultimately show ?thesis using 1 i r'(2,3) by (auto simp: reader_linked_def p' update_conv')
  next
    case 2
    then have "reader_linked p A e x" using assms(1) by (simp add: match_inv_def)
    then show ?thesis using 2 i by (simp add: reader_linked_def p' update_conv')
  qed
qed

section \<open>Liveliness leases\<close>

lemma linkWriter_live:
  "r_live (linkWriter now g l r) = (if l > 0 then registerWriterLease now g l (r_live r) else r_live r)"
  by (simp add: linkWriter_def addSourceGUID_def Let_def)

lemma registered_not_overdue:
  assumes "t \<le> now + lease" and "now \<le> t" and "lease < 2 ^ 63"
    and "distinct (map fst (writerLease ls))"
  shows "g \<notin> set (fst (scanLeases t (registerWriterLease now g lease ls)))"
proof -
  let ?ls = "registerWriterLease now g lease ls"
  have d: "distinct (map fst (writerLease ?ls))"
    using assms(4) by (simp add: registerWriterLease_def distinct_update)
  have "\<not> overdue t ?ls (g, l)" if "(g, l) \<in> set (writerLease ?ls)" for l
  proof -
    have "l = lease" using that d
      by (metis map_of_is_SomeI option.inject registerWriterLease_def liveliness_state.select_convs(1)
          liveliness_state.surjective liveliness_state.update_convs(1-3) update_conv fun_upd_same)
    then show ?thesis using assms(1-3) by (simp add: overdue_def registerWriterLease_def timeSub_def)
  qed
  then show ?thesis unfolding scanLeases_eq [OF d] by auto
qed

text \<open>
  C37: every announcement of a matched writer restarts the writer's liveliness lease at the reader:
  at no time up to a full lease after an announcement was taken in does a check report the writer,
  whether or not it wrote or asserted anything.
\<close>

theorem announcement_restarts_lease:
  assumes "match_inv p A" and "map_of (readers p) eid = Some r" and "wmatch info r"
    and "0 < livelinessLease info" and "livelinessLease info < 2 ^ 63"
    and "now \<le> t" and "t \<le> now + livelinessLease info"
    and "distinct (map fst (writerLease (r_live r)))"
  shows "\<exists>r'. map_of (readers (onRemoteWriter now info loc p)) eid = Some r'
    \<and> ei_guid info \<notin> set (fst (scanLeases t (r_live r')))"
proof -
  have k: "tables_keyed p A" and l: "reader_linked p A eid r" using assms(1,2) by (auto simp: match_inv_def)
  then obtain i where i: "map_of (localReaders (sedp p)) eid = Some i" "topicName i = r_topic r"
    "partitions i = r_partitions r" by (auto simp: reader_linked_def)
  have "samePlace info i" using assms(3) i by (simp add: wmatch_def partitionsMatch_sym)
  then have "map_of (readers (onRemoteWriter now info loc p)) eid
      = Some (linkWriter now (ei_guid info) (livelinessLease info) r)"
    using onRemoteWriter_readers [OF k i(1), of now info loc] assms(2) by simp
  then show ?thesis
    using registered_not_overdue [OF assms(7,6,5,8)] assms(4) by (simp add: linkWriter_live)
qed

definition exReader :: rtpsReader where
  "exReader =
     \<lparr>r_topic = [97], r_eid = [0, 0, 1, 7], r_ch = makeChan 64, sources = [], trackers = (\<lambda>_. None),
      r_reliable = False, r_filter = None, backPressure = DropNewest, r_contentFilter = None,
      unsubDone = False, r_closed = False, deadlinePeriod = None, r_deadlineDue = None,
      r_partitions = [[98]], r_tbf = \<lparr>minSeparation = 0, lastDelivered = (\<lambda>_. None)\<rparr>,
      livelinessLostCb = Some 0, monitorRunning = True, r_live = newLiveliness\<rparr>"

definition exSub :: "unit participant" where
  "exSub = (updSedp (\<lambda>s. s\<lparr>localReaders := [([0, 0, 1, 7], (exReaderInfo 8 None)\<lparr>partitions := [[98]]\<rparr>)]\<rparr>)
      (initParticipant (plainConfig 0 1 (replicate 12 8)) None))\<lparr>readers := [([0, 0, 1, 7], exReader)]\<rparr>"

lemma exSub_match_inv: "match_inv exSub {}"
  by (simp add: match_inv_def tables_keyed_def reader_linked_def exSub_def updSedp_def initParticipant_def
      newSEDPService_def exReader_def exReaderInfo_def)

theorem announcement_restarts_lease_witness:
  "\<exists>r'. map_of (readers (onRemoteWriter 100 exWriterInfo exLoc exSub)) [0, 0, 1, 7] = Some r'
    \<and> GUID (replicate 12 7) [0, 0, 1, 2] \<notin> set (fst (scanLeases 109 (r_live r')))"
proof -
  have "wmatch exWriterInfo exReader"
    by (simp add: wmatch_def exWriterInfo_def exReader_def partitionsMatch_def)
  moreover have "map_of (readers exSub) [0, 0, 1, 7] = Some exReader" by (simp add: exSub_def)
  moreover have "distinct (map fst (writerLease (r_live exReader)))" by (simp add: exReader_def newLiveliness_def)
  ultimately show ?thesis
    using announcement_restarts_lease [OF exSub_match_inv, of "[0, 0, 1, 7]" exReader exWriterInfo 100 109 exLoc]
    by (simp add: exWriterInfo_def)
qed

section \<open>Receiving one DATA submessage\<close>

lemma iterate_data:
  assumes "wf_eid w" "wf_eid r" "p \<noteq> []" "length p < 65516"
  shows "parseSubmessages fn (marshalDataSubmessage w r sn p @ rest) s =
     (case fn submsgDATA (flagEndianness OR flagData) (dataBody w r sn p) s of
        (s', Some e) \<Rightarrow> (s', Some (CallbackError e))
      | (s', None) \<Rightarrow> parseSubmessages fn rest s')"
  using dataf.iterate [of "\<lparr>dsReader = r, dsWriter = w, dsSeqNum = sn, dsPayload = Some p\<rparr>" fn rest s] assms
  by (simp add: wf_data_def marshalData_def dataBodyOf_def)

lemma parse_dataBody:
  assumes "wf_eid w" "wf_eid r" "p \<noteq> []"
  shows "parseDataSubmessage (flagEndianness OR flagData) (dataBody w r sn p)
     = Some \<lparr>dsReader = r, dsWriter = w, dsSeqNum = sn, dsPayload = Some p\<rparr>"
  using assms by (simp add: parseData_body msg_const_defs)

end
