(* ===== verification/Rtps_Spdp.thy ===== *)
theory Rtps_Spdp
  imports Rtps_Sedp
begin

text \<open>
  Participant discovery (\<^verbatim>\<open>rtps/spdp.go\<close>): the announcement a participant multicasts, the
  table of known peers it keeps from the announcements of others, and the lease eviction.
  The ticker goroutines are represented by the steps they take: \<open>sendAnnouncement\<close> and
  \<open>evictExpired\<close>.
\<close>

section \<open>Announcing\<close>

definition defaultLeaseDuration :: duration where
  "defaultLeaseDuration = 10 * second"

definition spdpAnnouncePeriod :: duration where
  "spdpAnnouncePeriod = 2 * second"

definition buildParticipantData :: "'r participant \<Rightarrow> bytes" where
  "buildParticipantData p =
     (let c = cfg p;
          e1 = addParam pidProtocolVersion [2, 3, 0, 0] newPLCDREncoder;
          e2 = addParam pidVendorId [goVendorId ! 0, goVendorId ! 1, 0, 0] e1;
          e3 = addGUID pidParticipantGUID (GUID (guidPrefix c) EntityIdParticipant) e2;
          e4 = addUint32 pidBuiltinEndpointSet builtinEndpointSet e3;
          e5 = addLocator pidMetatrafficUnicastLocator (zeroAddrLocator (metaPort c)) e4;
          e6 = addLocator pidDefaultUnicastLocator (zeroAddrLocator (dataPort c)) e5;
          e7 = (case tcpSock c of None \<Rightarrow> e6
                | Some port \<Rightarrow> addLocator pidTCPLocator (locatorFromTCP ipv4zero port) e6);
          e8 = (case quicSock c of None \<Rightarrow> e7
                | Some port \<Rightarrow> addLocator pidQUICLocator (locatorFromQUIC ipv4zero port) e7);
          e9 = (case wsSock c of None \<Rightarrow> e8
                | Some port \<Rightarrow> if port \<noteq> 0 then addLocator pidWSLocator (locatorFromWS ipv4zero port) e8 else e8);
          e10 = (case relaySock c of None \<Rightarrow> e9 | Some rid \<Rightarrow> addString pidRelayID rid e9);
          e11 = addParam pidParticipantLeaseDuration (PutUint32 10 @ PutUint32 0) e10;
          e12 = (case discoveryPlugin c of None \<Rightarrow> e11
                 | Some dp \<Rightarrow> addParam pidDiscoveryToken (SignDiscovery dp (guidPrefix c)) e11)
      in finish e12)"

definition buildAnnouncementMessage :: "'r participant \<Rightarrow> bytes \<times> 'r participant" where
  "buildAnnouncementMessage p =
     (let (n, p') = nextSeqNum p;
          submsg = marshalDataSubmessage EntityIdSPDPWriter EntityIdSPDPReader \<lparr>High = 0, Low = n\<rparr>
                     (buildParticipantData p)
      in (wrapInRTPSMessage (ownPrefix p) submsg, p'))"

definition updSpdp :: "(spdpService \<Rightarrow> spdpService) \<Rightarrow> 'r participant \<Rightarrow> 'r participant" where
  "updSpdp f p = p\<lparr>spdp := f (spdp p)\<rparr>"

definition sendAnnouncement :: "'r participant \<Rightarrow> 'r participant \<times> out list" where
  "sendAnnouncement p =
     (let p1 = updSpdp (\<lambda>s. s\<lparr>announcesSent := announcesSent s + 1\<rparr>) p;
          (msg, p2) = buildAnnouncementMessage p1;
          c = cfg p;
          dst = \<lparr>udpIP = spdpMulticastAddr, udpPort = metaMulticastPort (domain c)\<rparr>
      in (p2,
          [UdpSend MetaSock dst msg]
          @ (if tcpSock c \<noteq> None then map (\<lambda>a. TcpSend a msg) (tcpPeers c) else [])
          @ (if quicSock c \<noteq> None then map (\<lambda>a. QuicSend a msg True) (quicPeers c) else [])
          @ (if wsSock c \<noteq> None then map (\<lambda>a. WsSend a msg) (wsPeers c) else [])
          @ (if relaySock c \<noteq> None then map (\<lambda>i. RelaySend i msg) (relayPeers c) else [])))"

section \<open>Receiving announcements\<close>

fun firstToken :: "param list \<Rightarrow> bytes" where
  "firstToken [] = []"
| "firstToken ((pid, v) # ps) = (if pid = pidDiscoveryToken then v else firstToken ps)"

text \<open>The nil slice that stands for an absent token is the empty list.\<close>

definition extractDiscoveryToken :: "bytes \<Rightarrow> bytes" where
  "extractDiscoveryToken payload =
     (case newPLCDRDecoder payload of None \<Rightarrow> [] | Some dec \<Rightarrow> firstToken (params dec))"

definition initProxy :: "GuidPrefix \<Rightarrow> participantProxy" where
  "initProxy prefix =
     \<lparr>px_guid = GUID prefix EntityIdParticipant, metatrafficUnicast = zeroLocator, defaultUnicast = zeroLocator,
      builtinEndpoints = 0, leaseDuration = 0, lastSeen = zeroTime, tcpUnicast = [], quicUnicast = [],
      wsUnicast = [], relayID = []\<rparr>"

text \<open>A stream locator: kept only when it is of the transport's kind and gives a host and port.\<close>

definition streamAddr :: "int32 \<Rightarrow> (Locator \<Rightarrow> string option) \<Rightarrow> UDPAddr \<Rightarrow> bytes \<Rightarrow> string option" where
  "streamAddr kind hp from v =
     (case unmarshalLocator v of
        None \<Rightarrow> None
      | Some l \<Rightarrow> if Kind l = kind then hp (fillAddress from l) else None)"

definition proxyStep :: "UDPAddr \<Rightarrow> param \<Rightarrow> participantProxy \<Rightarrow> participantProxy" where
  "proxyStep from pv px =
     (let pid = fst pv; v = snd pv in
      if pid = pidMetatrafficUnicastLocator then
        withSome (unmarshalLocator v) (\<lambda>l px. px\<lparr>metatrafficUnicast := fillAddress from l\<rparr>) px
      else if pid = pidDefaultUnicastLocator then
        withSome (unmarshalLocator v) (\<lambda>l px. px\<lparr>defaultUnicast := fillAddress from l\<rparr>) px
      else if pid = pidBuiltinEndpointSet then
        (if length v \<ge> 4 then px\<lparr>builtinEndpoints := Uint32 v\<rparr> else px)
      else if pid = pidParticipantLeaseDuration then
        (if length v \<ge> 4 then
           let secs = Uint32 (slice 0 4 v) in if secs > 0 then px\<lparr>leaseDuration := uint secs * second\<rparr> else px
         else px)
      else if pid = pidParticipantGUID then withSome (decodeGUID v) (\<lambda>g px. px\<lparr>px_guid := g\<rparr>) px
      else if pid = pidTCPLocator then
        withSome (streamAddr LocatorKindTCPv4 tcpHostPort from v) (\<lambda>a px. px\<lparr>tcpUnicast := a\<rparr>) px
      else if pid = pidQUICLocator then
        withSome (streamAddr LocatorKindQUICv4 quicHostPort from v) (\<lambda>a px. px\<lparr>quicUnicast := a\<rparr>) px
      else if pid = pidWSLocator then
        withSome (streamAddr LocatorKindWSv4 wsHostPort from v) (\<lambda>a px. px\<lparr>wsUnicast := a\<rparr>) px
      else if pid = pidRelayID then
        withSome (decodeString v) (\<lambda>i px. if i \<noteq> [] then px\<lparr>relayID := i\<rparr> else px) px
      else px)"

definition parseParticipantData :: "GuidPrefix \<Rightarrow> bytes \<Rightarrow> UDPAddr \<Rightarrow> participantProxy option" where
  "parseParticipantData prefix payload from =
     (case newPLCDRDecoder payload of
        None \<Rightarrow> None
      | Some dec \<Rightarrow> Some (fold (proxyStep from) (params dec) (initProxy prefix)))"

text \<open>The built-in participant GUID passed to the liveliness callback.\<close>

definition participantGUID :: "GuidPrefix \<Rightarrow> ddsGUID" where
  "participantGUID prefix = prefix @ [0x00, 0x00, 0x01, 0xc1]"

definition storePeer :: "gotime \<Rightarrow> participantProxy \<Rightarrow> 'r participant \<Rightarrow> 'r participant \<times> out list" where
  "storePeer now proxy p =
     (let px1 = proxy\<lparr>lastSeen := now,
                  leaseDuration := (if leaseDuration proxy = 0 then defaultLeaseDuration else leaseDuration proxy)\<rparr>;
          old = map_of (peers (spdp p)) (Prefix (px_guid proxy));
          px2 = (case old of
                   Some o' \<Rightarrow> if relayID px1 = [] then px1\<lparr>relayID := relayID o'\<rparr> else px1
                 | None \<Rightarrow> px1)
      in (updSpdp (\<lambda>s. s\<lparr>announcesReceived := announcesReceived s + 1,
                         peers := AList.update (Prefix (px_guid proxy)) px2 (peers s)\<rparr>) p,
          if old = None \<and> hasLivelinessCb (cfg p)
          then [LivelinessCb (participantGUID (Prefix (px_guid proxy))) LivelinessGained] else []))"

definition recordRelayID :: "GuidPrefix \<Rightarrow> gostring \<Rightarrow> 'r participant \<Rightarrow> 'r participant" where
  "recordRelayID prefix rid p =
     (case map_of (peers (spdp p)) prefix of
        None \<Rightarrow> p
      | Some old \<Rightarrow>
          if relayID old = rid then p
          else updSpdp (\<lambda>s. s\<lparr>peers := AList.update prefix (old\<lparr>relayID := rid\<rparr>) (peers s)\<rparr>) p)"

text \<open>The callback of \<^verbatim>\<open>handlePacket\<close>; the state carries the outputs so far.\<close>

definition spdpSubmsg ::
  "net \<Rightarrow> gotime \<Rightarrow> GuidPrefix \<Rightarrow> UDPAddr \<Rightarrow> byte \<Rightarrow> byte \<Rightarrow> bytes \<Rightarrow> 'r participant \<times> out list
   \<Rightarrow> ('r participant \<times> out list) \<times> unit option"
where
  "spdpSubmsg net now prefix from sid flags body s =
     (case s of (p, outs) \<Rightarrow>
       ((if sid \<noteq> submsgDATA then (p, outs)
         else
           (case parseDataSubmessage (flagEndianness OR flagData) body of
              None \<Rightarrow> (p, outs)
            | Some ds \<Rightarrow>
                (case dsPayload ds of
                   None \<Rightarrow> (p, outs)
                 | Some payload \<Rightarrow>
                     if dsWriter ds \<noteq> EntityIdSPDPWriter then (p, outs)
                     else if (case discoveryPlugin (cfg p) of
                                Some dp \<Rightarrow> \<not> VerifyDiscovery dp prefix (extractDiscoveryToken payload)
                              | None \<Rightarrow> False) then (p, outs)
                     else
                       (case parseParticipantData prefix payload from of
                          None \<Rightarrow> (p, outs)
                        | Some proxy \<Rightarrow>
                            let (p1, o1) = storePeer now proxy p;
                                (p2, o2) = onNewPeer net
                                  (the (map_of (peers (spdp p1)) (Prefix (px_guid proxy)))) p1
                            in (p2, outs @ o1 @ o2))))), None))"

definition spdpHandlePacket :: "net \<Rightarrow> gotime \<Rightarrow> bytes \<Rightarrow> UDPAddr \<Rightarrow> 'r participant \<Rightarrow> 'r participant \<times> out list" where
  "spdpHandlePacket net now data from p =
     (case parseHeader data of
        None \<Rightarrow> (p, [])
      | Some hdr \<Rightarrow>
          if hdrPrefix hdr = ownPrefix p then (p, [])
          else fst (parseSubmessages (spdpSubmsg net now (hdrPrefix hdr) from) (drop 20 data) (p, [])))"

section \<open>Lease eviction\<close>

definition expired :: "gotime \<Rightarrow> participantProxy \<Rightarrow> bool" where
  "expired now peer \<longleftrightarrow>
     timeSub now (lastSeen peer) > (if leaseDuration peer = 0 then defaultLeaseDuration else leaseDuration peer)"

definition evictExpired :: "gotime \<Rightarrow> 'r participant \<Rightarrow> 'r participant \<times> out list" where
  "evictExpired now p =
     (let evicted = map fst (filter (\<lambda>(g, px). expired now px) (peers (spdp p)));
          p1 = updSpdp (\<lambda>s. s\<lparr>peers := filter (\<lambda>(g, px). \<not> expired now px) (peers s),
                              peerEvictions := peerEvictions s + word_of_nat (length evicted)\<rparr>) p
      in seqOps (\<lambda>g q. (onPeerEvicted g q,
                   if hasLivelinessCb (cfg q) then [LivelinessCb (participantGUID g) LivelinessLost] else []))
           evicted p1)"

section \<open>Announcements round trip\<close>

definition participantParams :: "'r participant \<Rightarrow> param list" where
  "participantParams p =
     (let c = cfg p in
      [(pidProtocolVersion, [2, 3, 0, 0]), (pidVendorId, [goVendorId ! 0, goVendorId ! 1, 0, 0]),
       (pidParticipantGUID, guidBytes (GUID (guidPrefix c) EntityIdParticipant)),
       (pidBuiltinEndpointSet, PutUint32 builtinEndpointSet),
       (pidMetatrafficUnicastLocator, marshalLocator (zeroAddrLocator (metaPort c))),
       (pidDefaultUnicastLocator, marshalLocator (zeroAddrLocator (dataPort c)))]
      @ (case tcpSock c of None \<Rightarrow> [] | Some port \<Rightarrow> [(pidTCPLocator, marshalLocator (locatorFromTCP ipv4zero port))])
      @ (case quicSock c of None \<Rightarrow> [] | Some port \<Rightarrow> [(pidQUICLocator, marshalLocator (locatorFromQUIC ipv4zero port))])
      @ (case wsSock c of None \<Rightarrow> []
         | Some port \<Rightarrow> if port \<noteq> 0 then [(pidWSLocator, marshalLocator (locatorFromWS ipv4zero port))] else [])
      @ (case relaySock c of None \<Rightarrow> [] | Some rid \<Rightarrow> [(pidRelayID, stringBytes rid)])
      @ [(pidParticipantLeaseDuration, PutUint32 10 @ PutUint32 0)]
      @ (case discoveryPlugin c of None \<Rightarrow> []
         | Some dp \<Rightarrow> [(pidDiscoveryToken, SignDiscovery dp (guidPrefix c))]))"

lemma buildParticipantData_eq:
  "buildParticipantData p = finish (newPLCDREncoder @ encodeParams (participantParams p))"
  unfolding buildParticipantData_def participantParams_def Let_def
  by (simp add: addParam_eq add_defs split: option.split)

text \<open>A participant whose announcement fits the wire format.\<close>

definition spdp_ok :: "'r participant \<Rightarrow> bool" where
  "spdp_ok p \<longleftrightarrow> wf_prefix (ownPrefix p)
     \<and> (case relaySock (cfg p) of None \<Rightarrow> True | Some rid \<Rightarrow> rid \<noteq> [] \<and> length rid \<le> 1000)
     \<and> (case discoveryPlugin (cfg p) of None \<Rightarrow> True | Some dp \<Rightarrow> length (SignDiscovery dp (ownPrefix p)) \<le> 1000)"

text \<open>What a peer is meant to learn from it, when it arrives from address \<open>from\<close>.\<close>

definition proxyOf :: "'r participant \<Rightarrow> UDPAddr \<Rightarrow> participantProxy" where
  "proxyOf p from =
     (let c = cfg p in
      \<lparr>px_guid = GUID (guidPrefix c) EntityIdParticipant, metatrafficUnicast = locatorFromUDP from (metaPort c),
       defaultUnicast = locatorFromUDP from (dataPort c), builtinEndpoints = builtinEndpointSet,
       leaseDuration = 10 * second, lastSeen = zeroTime,
       tcpUnicast = (case tcpSock c of None \<Rightarrow> [] | Some port \<Rightarrow> hostPort4 (locatorFromTCP (udpIP from) port)),
       quicUnicast = (case quicSock c of None \<Rightarrow> [] | Some port \<Rightarrow> hostPort4 (locatorFromQUIC (udpIP from) port)),
       wsUnicast = (case wsSock c of None \<Rightarrow> []
                    | Some port \<Rightarrow> if port = 0 then [] else hostPort4 (locatorFromWS (udpIP from) port)),
       relayID = (case relaySock c of None \<Rightarrow> [] | Some rid \<Rightarrow> rid)\<rparr>)"

definition tokenOf :: "'r participant \<Rightarrow> bytes" where
  "tokenOf p = (case discoveryPlugin (cfg p) of None \<Rightarrow> [] | Some dp \<Rightarrow> padded (SignDiscovery dp (ownPrefix p)))"

lemma streamLocators_zero:
  "locatorFromTCP ipv4zero port = \<lparr>Kind = LocatorKindTCPv4, Port = word_of_int port, Address = replicate 16 0\<rparr>"
  "locatorFromQUIC ipv4zero port = \<lparr>Kind = LocatorKindQUICv4, Port = word_of_int port, Address = replicate 16 0\<rparr>"
  "locatorFromWS ipv4zero port = \<lparr>Kind = LocatorKindWSv4, Port = word_of_int port, Address = replicate 16 0\<rparr>"
proof -
  have "replicate 12 (0 :: byte) @ ip4OrZero ipv4zero = replicate 16 0"
    by (simp add: ip4OrZero_def To4_def ipv4zero_def v4InV6Prefix_def numeral_eq_Suc)
  then show "locatorFromTCP ipv4zero port = \<lparr>Kind = LocatorKindTCPv4, Port = word_of_int port, Address = replicate 16 0\<rparr>"
    "locatorFromQUIC ipv4zero port = \<lparr>Kind = LocatorKindQUICv4, Port = word_of_int port, Address = replicate 16 0\<rparr>"
    "locatorFromWS ipv4zero port = \<lparr>Kind = LocatorKindWSv4, Port = word_of_int port, Address = replicate 16 0\<rparr>"
    by (simp_all add: locatorFromTCP_def locatorFromQUIC_def locatorFromWS_def)
qed

lemma streamAddr_simps:
  assumes "To4 (udpIP from) = Some ip4"
  shows "streamAddr LocatorKindTCPv4 tcpHostPort from (padded (marshalLocator (locatorFromTCP ipv4zero port)))
      = Some (hostPort4 (locatorFromTCP (udpIP from) port))"
    and "streamAddr LocatorKindQUICv4 quicHostPort from (padded (marshalLocator (locatorFromQUIC ipv4zero port)))
      = Some (hostPort4 (locatorFromQUIC (udpIP from) port))"
    and "streamAddr LocatorKindWSv4 wsHostPort from (padded (marshalLocator (locatorFromWS ipv4zero port)))
      = Some (hostPort4 (locatorFromWS (udpIP from) port))"
  unfolding streamAddr_def streamLocators_zero
  using assms
  by (simp_all add: wf_locator_def fillAddress_def tcpHostPort_def quicHostPort_def wsHostPort_def
      locatorFromTCP_def locatorFromQUIC_def locatorFromWS_def ip4OrZero_def)

lemma padded4: "length v mod 4 = 0 \<Longrightarrow> padded v = v"
  by (auto simp: padded_def padLen_def)

lemma proxyStep_simps:
  "proxyStep from (pidProtocolVersion, v) px = px"
  "proxyStep from (pidVendorId, v) px = px"
  "proxyStep from (pidDiscoveryToken, v) px = px"
  "wf_guid g \<Longrightarrow> proxyStep from (pidParticipantGUID, padded (guidBytes g)) px = px\<lparr>px_guid := g\<rparr>"
  "proxyStep from (pidBuiltinEndpointSet, PutUint32 n) px = px\<lparr>builtinEndpoints := n\<rparr>"
  "proxyStep from (pidMetatrafficUnicastLocator, padded (marshalLocator (zeroAddrLocator port))) px
     = px\<lparr>metatrafficUnicast := fillAddress from (zeroAddrLocator port)\<rparr>"
  "proxyStep from (pidDefaultUnicastLocator, padded (marshalLocator (zeroAddrLocator port))) px
     = px\<lparr>defaultUnicast := fillAddress from (zeroAddrLocator port)\<rparr>"
  "proxyStep from (pidParticipantLeaseDuration, PutUint32 10 @ PutUint32 0) px = px\<lparr>leaseDuration := 10 * second\<rparr>"
  "rid \<noteq> [] \<Longrightarrow> length rid \<le> 1000 \<Longrightarrow> proxyStep from (pidRelayID, padded (stringBytes rid)) px = px\<lparr>relayID := rid\<rparr>"
  by (simp_all add: proxyStep_def withSome_def pid_defs slice_def)

lemma proxyStep_stream:
  assumes "To4 (udpIP from) = Some ip4"
  shows "proxyStep from (pidTCPLocator, padded (marshalLocator (locatorFromTCP ipv4zero port))) px
      = px\<lparr>tcpUnicast := hostPort4 (locatorFromTCP (udpIP from) port)\<rparr>"
    and "proxyStep from (pidQUICLocator, padded (marshalLocator (locatorFromQUIC ipv4zero port))) px
      = px\<lparr>quicUnicast := hostPort4 (locatorFromQUIC (udpIP from) port)\<rparr>"
    and "proxyStep from (pidWSLocator, padded (marshalLocator (locatorFromWS ipv4zero port))) px
      = px\<lparr>wsUnicast := hostPort4 (locatorFromWS (udpIP from) port)\<rparr>"
  by (simp_all add: proxyStep_def withSome_def streamAddr_simps [OF assms] pid_defs)

lemma wf_participantParams:
  assumes "spdp_ok p"
  shows "list_all wf_param (participantParams p)"
  using assms
  by (auto simp: spdp_ok_def participantParams_def wf_param_def pid_defs Let_def stringBytes_def guidBytes_def
      wf_prefix_def wf_eid_def EntityIdParticipant_def split: option.splits)

lemma participantParams_decoded:
  assumes "spdp_ok p"
  shows "newPLCDRDecoder (buildParticipantData p) = Some (encodeParams (participantParams p) @ sentinel)"
    and "params (encodeParams (participantParams p) @ sentinel) = map (apsnd padded) (participantParams p)"
  using params_concat [OF wf_participantParams [OF assms], of sentinel]
  by (simp_all add: buildParticipantData_eq finish_eq)

text \<open>The prefix in the packet header plays no part: the payload's own GUID replaces it.\<close>

lemma parse_buildParticipantData:
  assumes "spdp_ok p" "To4 (udpIP from) = Some ip4"
  shows "parseParticipantData pre (buildParticipantData p) from = Some (proxyOf p from)"
proof -
  have g: "wf_guid (GUID (ownPrefix p) EntityIdParticipant)"
    using assms(1) by (simp add: spdp_ok_def wf_guid_def)
  have rid: "proxyStep from (pidRelayID, padded (stringBytes rid)) px = px\<lparr>relayID := rid\<rparr>"
    if "relaySock (cfg p) = Some rid" for rid px
    using assms(1) that by (simp add: spdp_ok_def proxyStep_simps)
  have "fold (proxyStep from) (map (apsnd padded) (participantParams p)) (initProxy pre) = proxyOf p from"
    unfolding participantParams_def proxyOf_def Let_def initProxy_def
    by (simp add: proxyStep_simps proxyStep_stream [OF assms(2)] rid g padded4 [of "PutUint32 _"]
        padded4 [of "PutUint32 _ @ PutUint32 _"] fillAddress_zero [OF assms(2)] split: option.split)
  then show ?thesis
    by (simp add: parseParticipantData_def participantParams_decoded [OF assms(1)])
qed

lemma extract_token:
  assumes "spdp_ok p"
  shows "extractDiscoveryToken (buildParticipantData p) = tokenOf p"
proof -
  have "firstToken (map (apsnd padded) (participantParams p)) = tokenOf p"
    unfolding participantParams_def tokenOf_def Let_def by (simp add: pid_defs split: option.split)
  then show ?thesis by (simp add: extractDiscoveryToken_def participantParams_decoded [OF assms])
qed

section \<open>The peer table\<close>

lemma announce_frame [simp]:
  "spdp (fst (announceEndpoint net wid rid info proxy p)) = spdp p"
  "cfg (fst (announceEndpoint net wid rid info proxy p)) = cfg p"
  by (simp_all add: announceEndpoint_def nextSeqNum_def Let_def)

lemma seqOps_frame:
  assumes "\<And>x s. g (fst (f x s)) = g s"
  shows "g (fst (seqOps f xs s)) = g s"
  using assms by (induction xs arbitrary: s) (auto simp: Let_def split: prod.split, metis fst_conv)

lemma onNewPeer_frame [simp]:
  "spdp (fst (onNewPeer net proxy p)) = spdp p" "cfg (fst (onNewPeer net proxy p)) = cfg p"
  "sedp (fst (onNewPeer net proxy p)) = sedp p" "readers (fst (onNewPeer net proxy p)) = readers p"
  by (auto simp: onNewPeer_def Let_def announceWriter_def announceReader_def seqOps_frame split: prod.split
      dest!: arg_cong [where f = fst] intro: seqOps_frame [THEN trans, symmetric])

lemma buildParticipantData_len:
  assumes "spdp_ok p"
  shows "buildParticipantData p \<noteq> []" and "length (buildParticipantData p) < 65516"
proof -
  have pb: "length (paramBytes pid v) \<le> length v + 7" for pid v
    unfolding paramBytes_def length_append length_padded padLen_def by (simp add: put_defs)
  have "length (encodeParams (participantParams p))
      \<le> sum_list (map (\<lambda>(pid, v). length v + 7) (participantParams p))"
    using pb by (induction "participantParams p" rule: list.induct) (auto simp: length_concat intro!: sum_list_mono)
  also have "\<dots> \<le> 3000"
    using assms by (auto simp: spdp_ok_def participantParams_def Let_def stringBytes_def guidBytes_def
        wf_prefix_def EntityIdParticipant_def split: option.splits)
  finally show "length (buildParticipantData p) < 65516"
    by (simp add: buildParticipantData_eq finish_eq sentinel_def newPLCDREncoder_def put_defs)
  show "buildParticipantData p \<noteq> []" by (simp add: buildParticipantData_eq finish_eq sentinel_def)
qed

lemma storePeer_frame [simp]:
  "cfg (fst (storePeer now proxy p)) = cfg p" "sedp (fst (storePeer now proxy p)) = sedp p"
  "readers (fst (storePeer now proxy p)) = readers p"
  by (simp_all add: storePeer_def updSpdp_def Let_def)

text \<open>The entry the table holds after an announcement; a relay id learnt earlier is kept.\<close>

definition refreshed :: "gotime \<Rightarrow> participantProxy \<Rightarrow> participantProxy option \<Rightarrow> participantProxy" where
  "refreshed now proxy old = proxy\<lparr>lastSeen := now,
     leaseDuration := (if leaseDuration proxy = 0 then defaultLeaseDuration else leaseDuration proxy),
     relayID := (case old of Some o' \<Rightarrow> if relayID proxy = [] then relayID o' else relayID proxy | None \<Rightarrow> relayID proxy)\<rparr>"

lemma storePeer_peers:
  "peers (spdp (fst (storePeer now proxy p)))
     = AList.update (Prefix (px_guid proxy)) (refreshed now proxy (map_of (peers (spdp p)) (Prefix (px_guid proxy))))
         (peers (spdp p))"
  by (auto simp: storePeer_def updSpdp_def Let_def refreshed_def split: option.split)

abbreviation token_ok :: "'r participant \<Rightarrow> 'q participant \<Rightarrow> bool" where
  "token_ok p q \<equiv> (case discoveryPlugin (cfg q) of None \<Rightarrow> True | Some dp \<Rightarrow> VerifyDiscovery dp (ownPrefix p) (tokenOf p))"

lemma handle_announcement:
  assumes "spdp_ok p" and "To4 (udpIP from) = Some ip4"
  shows "spdpHandlePacket net now (fst (buildAnnouncementMessage p)) from q =
      (if ownPrefix p \<noteq> ownPrefix q \<and> token_ok p q then
         let (q1, o1) = storePeer now (proxyOf p from) q;
             (q2, o2) = onNewPeer net (the (map_of (peers (spdp q1)) (Prefix (px_guid (proxyOf p from))))) q1
         in (q2, o1 @ o2)
       else (q, []))"
proof -
  let ?b = "buildParticipantData p"
  have pre: "wf_prefix (ownPrefix p)" using assms(1) by (simp add: spdp_ok_def)
  obtain sn where msg: "fst (buildAnnouncementMessage p)
      = wrapInRTPSMessage (ownPrefix p) (marshalDataSubmessage EntityIdSPDPWriter EntityIdSPDPReader sn ?b)"
    by (auto simp: buildAnnouncementMessage_def nextSeqNum_def Let_def)
  have it: "parseSubmessages fn (marshalDataSubmessage EntityIdSPDPWriter EntityIdSPDPReader sn ?b) s
      = (case fn submsgDATA (flagEndianness OR flagData) (dataBody EntityIdSPDPWriter EntityIdSPDPReader sn ?b) s of
           (s', Some e) \<Rightarrow> (s', Some (CallbackError e)) | (s', None) \<Rightarrow> (s', None))"
    for fn :: "byte \<Rightarrow> byte \<Rightarrow> bytes \<Rightarrow> 's \<Rightarrow> 's \<times> 'e option" and s
    using iterate_data [of EntityIdSPDPWriter EntityIdSPDPReader ?b fn sn "[]" s] buildParticipantData_len [OF assms(1)]
    by simp
  show ?thesis
    unfolding msg spdpHandlePacket_def parseHeader_wrap [OF pre] drop20_wrap [OF pre] it
    by (simp add: spdpSubmsg_def parse_dataBody buildParticipantData_len [OF assms(1)]
        parse_buildParticipantData [OF assms] extract_token [OF assms(1)] Let_def
        split: option.split prod.split)
qed

text \<open>
  C35: discovery works across the wire. When a participant takes in the announcement message
  another participant built, then, exactly if the discovery token verifies for the sender's
  prefix, its table holds the sender under the sender's GUID prefix with the announced ports at
  the address the message came from, the stream and relay addresses of the transports the sender
  has, and the lease restarted now; the application is told of a participant not known before.
  Otherwise nothing changes. A participant ignores its own announcement.
\<close>

theorem announcement_discovers:
  assumes "spdp_ok p" and "To4 (udpIP from) = Some ip4"
    and "spdpHandlePacket net now (fst (buildAnnouncementMessage p)) from q = (q', outs)"
  shows "if ownPrefix p \<noteq> ownPrefix q \<and> token_ok p q
    then peers (spdp q') = AList.update (ownPrefix p)
           (refreshed now (proxyOf p from) (peerByPrefix (ownPrefix p) (spdp q))) (peers (spdp q))
         \<and> sedp q' = sedp q \<and> readers q' = readers q
         \<and> (peerByPrefix (ownPrefix p) (spdp q) = None \<and> hasLivelinessCb (cfg q)
              \<longrightarrow> LivelinessCb (participantGUID (ownPrefix p)) LivelinessGained \<in> set outs)
    else q' = q \<and> outs = []"
proof (cases "ownPrefix p \<noteq> ownPrefix q \<and> token_ok p q")
  case True
  define q1 where "q1 = fst (storePeer now (proxyOf p from) q)"
  define o1 where "o1 = snd (storePeer now (proxyOf p from) q)"
  define px where "px = the (map_of (peers (spdp q1)) (Prefix (px_guid (proxyOf p from))))"
  have q': "q' = fst (onNewPeer net px q1)" "set o1 \<subseteq> set outs"
    using handle_announcement [OF assms(1,2), of net now q] assms(3) True
    by (auto simp: q1_def o1_def px_def Let_def split: prod.splits)
  have pre: "Prefix (px_guid (proxyOf p from)) = ownPrefix p" by (simp add: proxyOf_def Let_def)
  then have "peerByPrefix (ownPrefix p) (spdp q) = None \<and> hasLivelinessCb (cfg q)
      \<longrightarrow> LivelinessCb (participantGUID (ownPrefix p)) LivelinessGained \<in> set o1"
    by (simp add: peerByPrefix_def o1_def storePeer_def Let_def)
  then show ?thesis using True q'(2) pre by (auto simp: q'(1) q1_def storePeer_peers peerByPrefix_def)
next
  case False
  then have "spdpHandlePacket net now (fst (buildAnnouncementMessage p)) from q = (q, [])"
    unfolding handle_announcement [OF assms(1,2)] by (rule if_not_P)
  with assms(3) have "q' = q \<and> outs = []" by simp
  with False show ?thesis by (simp only: if_not_P simp_thms)
qed

theorem announcement_discovers_witness:
  "peerByPrefix (replicate 12 7)
     (spdp (fst (spdpHandlePacket (\<lambda>_. True) 5
        (fst (buildAnnouncementMessage (initParticipant (plainConfig 0 0 (replicate 12 7)) None :: unit participant)))
        \<lparr>udpIP = [10, 0, 0, 1], udpPort = 7400\<rparr> exSub)))
   = Some ((proxyOf (initParticipant (plainConfig 0 0 (replicate 12 7)) None :: unit participant)
             \<lparr>udpIP = [10, 0, 0, 1], udpPort = 7400\<rparr>)\<lparr>lastSeen := 5\<rparr>)"
proof -
  let ?p = "initParticipant (plainConfig 0 0 (replicate 12 7)) None :: unit participant"
  let ?a = "\<lparr>udpIP = [10, 0, 0, 1], udpPort = 7400\<rparr>"
  obtain q' outs where h: "spdpHandlePacket (\<lambda>_. True) 5 (fst (buildAnnouncementMessage ?p)) ?a exSub = (q', outs)"
    by fastforce
  have ok: "spdp_ok ?p" by (simp add: spdp_ok_def initParticipant_def plainConfig_def wf_prefix_def)
  have ip: "To4 (udpIP ?a) = Some [10, 0, 0, 1]" by (simp add: To4_def)
  have ne: "ownPrefix ?p \<noteq> ownPrefix exSub"
    by (simp add: exSub_def updSedp_def initParticipant_def plainConfig_def numeral_eq_Suc)
  have tok: "token_ok ?p exSub" by (simp add: exSub_def updSedp_def initParticipant_def plainConfig_def)
  have none: "peers (spdp exSub) = []" by (simp add: exSub_def updSedp_def initParticipant_def newSPDPService_def)
  have pp: "ownPrefix ?p = replicate 12 7" by (simp add: initParticipant_def plainConfig_def)
  have "peers (spdp q') = [(replicate 12 7, refreshed 5 (proxyOf ?p ?a) None)]"
    using announcement_discovers [OF ok ip h] ne tok by (simp add: none pp peerByPrefix_def)
  then show ?thesis unfolding h fst_conv
    by (simp add: peerByPrefix_def refreshed_def proxyOf_def Let_def initParticipant_def plainConfig_def second_def)
qed

section \<open>Eviction\<close>

lemma onPeerEvicted_frame [simp]:
  "cfg (onPeerEvicted g p) = cfg p" "spdp (onPeerEvicted g p) = spdp p" "readers (onPeerEvicted g p) = readers p"
  by (simp_all add: onPeerEvicted_def updSedp_def Let_def)

lemma onPeerEvicted_tables:
  "remoteWriters (sedp (onPeerEvicted pre p)) = filter (\<lambda>(g, i). Prefix g \<noteq> pre) (remoteWriters (sedp p))"
  "remoteReaders (sedp (onPeerEvicted pre p)) = filter (\<lambda>(g, i). Prefix g \<noteq> pre) (remoteReaders (sedp p))"
  "writerLocators (onPeerEvicted pre p) = (\<lambda>g. if Prefix g = pre then None else writerLocators p g)"
  by (simp_all add: onPeerEvicted_def updSedp_def Let_def cong: if_cong)

abbreviation evictStep :: "GuidPrefix \<Rightarrow> 'r participant \<Rightarrow> 'r participant \<times> out list" where
  "evictStep \<equiv> \<lambda>g q. (onPeerEvicted g q,
     if hasLivelinessCb (cfg q) then [LivelinessCb (participantGUID g) LivelinessLost] else [])"

lemma seqOps_evict:
  "cfg (fst (seqOps evictStep gs q)) = cfg q" "spdp (fst (seqOps evictStep gs q)) = spdp q"
  "readers (fst (seqOps evictStep gs q)) = readers q"
  "remoteWriters (sedp (fst (seqOps evictStep gs q))) = filter (\<lambda>(g, i). Prefix g \<notin> set gs) (remoteWriters (sedp q))"
  "remoteReaders (sedp (fst (seqOps evictStep gs q))) = filter (\<lambda>(g, i). Prefix g \<notin> set gs) (remoteReaders (sedp q))"
  "writerLocators (fst (seqOps evictStep gs q)) = (\<lambda>g. if Prefix g \<in> set gs then None else writerLocators q g)"
  "snd (seqOps evictStep gs q)
     = (if hasLivelinessCb (cfg q) then map (\<lambda>g. LivelinessCb (participantGUID g) LivelinessLost) gs else [])"
  by (induction gs arbitrary: q)
    (auto simp: Let_def split_def onPeerEvicted_tables intro!: filter_cong)

text \<open>
  C36: an eviction round removes exactly the peers whose lease has run out, together with every
  endpoint they announced: remote writers, remote readers and writer locators of an evicted
  participant are gone and those of every other participant are kept, the eviction counter grows
  by the number of evictions, and the application is told of exactly the evicted participants.
\<close>

theorem eviction_exact:
  assumes "evictExpired now p = (q, outs)"
    and "gone = map fst (filter (\<lambda>(g, px). expired now px) (peers (spdp p)))"
  shows "peers (spdp q) = filter (\<lambda>(g, px). \<not> expired now px) (peers (spdp p))
    \<and> remoteWriters (sedp q) = filter (\<lambda>(g, i). Prefix g \<notin> set gone) (remoteWriters (sedp p))
    \<and> remoteReaders (sedp q) = filter (\<lambda>(g, i). Prefix g \<notin> set gone) (remoteReaders (sedp p))
    \<and> writerLocators q = (\<lambda>g. if Prefix g \<in> set gone then None else writerLocators p g)
    \<and> peerEvictions (spdp q) = peerEvictions (spdp p) + word_of_nat (length gone)
    \<and> outs = (if hasLivelinessCb (cfg p) then map (\<lambda>g. LivelinessCb (participantGUID g) LivelinessLost) gone else [])"
proof -
  let ?p1 = "updSpdp (\<lambda>s. s\<lparr>peers := filter (\<lambda>(g, px). \<not> expired now px) (peers s),
                 peerEvictions := peerEvictions s + word_of_nat (length gone)\<rparr>) p"
  have "seqOps evictStep gone ?p1 = (q, outs)" using assms by (simp add: evictExpired_def Let_def)
  then have "q = fst (seqOps evictStep gone ?p1)" "outs = snd (seqOps evictStep gone ?p1)" by simp_all
  then show ?thesis by (simp add: seqOps_evict updSpdp_def cong: if_cong)
qed

theorem eviction_exact_witness:
  "peers (spdp (fst (evictExpired (11 * second)
      (updSpdp (\<lambda>s. s\<lparr>peers := [(replicate 12 7, initProxy (replicate 12 7)\<lparr>lastSeen := 0\<rparr>),
                              (replicate 12 9, initProxy (replicate 12 9)\<lparr>lastSeen := second\<rparr>)]\<rparr>) exMatched))))
   = [(replicate 12 9, initProxy (replicate 12 9)\<lparr>lastSeen := second\<rparr>)]"
proof -
  let ?p = "updSpdp (\<lambda>s. s\<lparr>peers := [(replicate 12 7, initProxy (replicate 12 7)\<lparr>lastSeen := 0\<rparr>),
                              (replicate 12 9, initProxy (replicate 12 9)\<lparr>lastSeen := second\<rparr>)]\<rparr>) exMatched"
  obtain q outs where e: "evictExpired (11 * second) ?p = (q, outs)" by fastforce
  show ?thesis
    using eviction_exact [OF e refl] unfolding e fst_conv
    by (simp add: updSpdp_def expired_def initProxy_def defaultLeaseDuration_def timeSub_def second_def)
qed

end
