(* ===== verification/Rtps_Reader.thy ===== *)
theory Rtps_Reader
  imports Rtps_Sedp
begin

text \<open>
  The subscribing side of a participant (\<^verbatim>\<open>rtps/participant.go\<close>): which samples a reader accepts,
  how they are delivered into its channel, how its reliability trackers answer DATA and HEARTBEAT
  submessages with ACKNACKs, and how it is unsubscribed and closed.

  A reader is addressed by its entity id in the participant's table. An operation that may not
  return, because it sends on a full channel under the \<open>Block\<close> policy or because the loop that
  collects missing sequence numbers runs forever, has an option result with \<open>None\<close> for not
  returning. The clock is read once per operation.
\<close>

section \<open>Definitions\<close>

subsection \<open>Sequences of operations\<close>

primrec seqM :: "('a \<Rightarrow> 's \<Rightarrow> ('s \<times> 'o list) option) \<Rightarrow> 'a list \<Rightarrow> 's \<Rightarrow> ('s \<times> 'o list) option" where
  "seqM f [] s = Some (s, [])"
| "seqM f (x # xs) s =
     (case f x s of
        None \<Rightarrow> None
      | Some (s1, o1) \<Rightarrow>
          (case seqM f xs s1 of None \<Rightarrow> None | Some (s2, o2) \<Rightarrow> Some (s2, o1 @ o2)))"

definition updReader :: "EntityId \<Rightarrow> rtpsReader \<Rightarrow> 'r participant \<Rightarrow> 'r participant" where
  "updReader eid r p = p\<lparr>readers := AList.update eid r (readers p)\<rparr>"

subsection \<open>Accepting a source\<close>

definition trackerFor :: "GUID \<Rightarrow> rtpsReader \<Rightarrow> recvTracker" where
  "trackerFor g r = (case trackers r g of Some t \<Rightarrow> t | None \<Rightarrow> newTracker)"

definition setTracker :: "GUID \<Rightarrow> recvTracker \<Rightarrow> rtpsReader \<Rightarrow> rtpsReader" where
  "setTracker g t r = r\<lparr>trackers := (trackers r)(g \<mapsto> t)\<rparr>"

definition acceptsSource :: "GuidPrefix \<Rightarrow> GUID \<Rightarrow> rtpsReader \<Rightarrow> bool" where
  "acceptsSource own g r =
     (if length (sources r) = 0 then Prefix g = own
      else if Prefix g = own then True
      else g \<in> set (sources r))"

subsection \<open>Delivery into a channel\<close>

definition countDeliver :: "topic \<Rightarrow> nat \<Rightarrow> 'r participant \<Rightarrow> 'r participant" where
  "countDeliver t n p =
     updTopicCounter t (\<lambda>c. c\<lparr>delivers := delivers c + 1, bytesD := bytesD c + word_of_nat n\<rparr>)
       (p\<lparr>metrics := (metrics p)\<lparr>DeliverCount := DeliverCount (metrics p) + 1,
                                 BytesDelivered := BytesDelivered (metrics p) + word_of_nat n\<rparr>\<rparr>)"

definition countDrop :: "topic \<Rightarrow> 'r participant \<Rightarrow> 'r participant" where
  "countDrop t p =
     updTopicCounter t (\<lambda>c. c\<lparr>drops := drops c + 1\<rparr>)
       (p\<lparr>metrics := (metrics p)\<lparr>DropCount := DropCount (metrics p) + 1\<rparr>\<rparr>)"

definition resetDeadline :: "gotime \<Rightarrow> rtpsReader \<Rightarrow> rtpsReader" where
  "resetDeadline now r =
     (case deadlinePeriod r of None \<Rightarrow> r | Some d \<Rightarrow> r\<lparr>r_deadlineDue := Some (now + d)\<rparr>)"

definition delivered :: "gotime \<Rightarrow> EntityId \<Rightarrow> rtpsReader \<Rightarrow> Sample chan \<Rightarrow> Sample \<Rightarrow> 'r participant \<Rightarrow> 'r participant" where
  "delivered now eid r ch s p =
     countDeliver (r_topic r) (length (Payload s)) (updReader eid (resetDeadline now (r\<lparr>r_ch := ch\<rparr>)) p)"

definition deliverToReader :: "gotime \<Rightarrow> EntityId \<Rightarrow> rtpsReader \<Rightarrow> Sample \<Rightarrow> 'r participant \<Rightarrow> 'r participant option" where
  "deliverToReader now eid r s p =
     (if r_closed r then Some p
      else
        (case backPressure r of
           DropOldest \<Rightarrow>
             (case trySend s (r_ch r) of
                Some ch \<Rightarrow> Some (delivered now eid r ch s p)
              | None \<Rightarrow>
                  let (x, ch1) = tryRecv (r_ch r);
                      p1 = (case x of Received _ \<Rightarrow> countDrop (r_topic r) p | _ \<Rightarrow> p)
                  in (case trySend s ch1 of
                        Some ch2 \<Rightarrow> Some (delivered now eid r ch2 s p1)
                      | None \<Rightarrow> Some (countDrop (r_topic r) (updReader eid (r\<lparr>r_ch := ch1\<rparr>) p1))))
         | Block \<Rightarrow> map_option (\<lambda>ch. delivered now eid r ch s p) (trySend s (r_ch r))
         | DropNewest \<Rightarrow>
             (case trySend s (r_ch r) of
                Some ch \<Rightarrow> Some (delivered now eid r ch s p)
              | None \<Rightarrow> Some (countDrop (r_topic r) p))))"

definition dispatchOne ::
  "gotime \<Rightarrow> GUID \<Rightarrow> topic \<Rightarrow> bytes \<Rightarrow> gotime \<Rightarrow> uint64 \<Rightarrow> bytes list \<Rightarrow> EntityId
   \<Rightarrow> 'r participant \<Rightarrow> 'r participant option"
where
  "dispatchOne now source topicFilter payload ts seqNum wparts eid p =
     (case map_of (readers p) eid of
        None \<Rightarrow> Some p
      | Some r \<Rightarrow>
          if topicFilter \<noteq> [] \<and> r_topic r \<noteq> topicFilter
             \<and> \<not> TopicMatches (topicString (r_topic r)) (topicString topicFilter) then Some p
          else if \<not> acceptsSource (ownPrefix p) source r then Some p
          else
            let r1 = r\<lparr>r_live := touchLiveliness now source (r_live r)\<rparr>;
                p1 = updReader eid r1 p
            in if Prefix source = ownPrefix p \<and> \<not> partitionsMatch wparts (r_partitions r) then Some p1
               else if \<not> ownershipAllows (ownership p) (r_topic r) source then Some p1
               else
                 let (ok, tbf) = passesTimeBasedFilter source now (r_tbf r);
                     r2 = r1\<lparr>r_tbf := tbf\<rparr>;
                     p2 = updReader eid r2 p
                 in if \<not> ok then Some (countDrop (r_topic r) p2)
                    else
                      let sample = \<lparr>Topic = r_topic r, Payload = payload, Timestamp = ts,
                                    SampleSeq = seqNum, WriterGUID = toDdsGUID source\<rparr>
                      in if (case r_filter r of Some f \<Rightarrow> \<not> f sample | None \<Rightarrow> False) then Some p2
                         else if \<not> cfEval (r_contentFilter r) (Payload sample) then Some p2
                         else deliverToReader now eid r2 sample p2)"

definition dispatchToReaders ::
  "gotime \<Rightarrow> GUID \<Rightarrow> topic \<Rightarrow> bytes \<Rightarrow> gotime \<Rightarrow> uint64 \<Rightarrow> bytes list \<Rightarrow> 'r participant \<Rightarrow> 'r participant option"
where
  "dispatchToReaders now source topicFilter payload ts seqNum wparts p =
     map_option fst
       (seqM (\<lambda>eid q. map_option (\<lambda>q'. (q', [] :: out list))
                        (dispatchOne now source topicFilter payload ts seqNum wparts eid q))
          (map fst (readers p)) p)"

subsection \<open>Reliability\<close>

text \<open>
  Computes what is missing up to \<open>last\<close> and, if anything is, sends the ACKNACK. The trackers are
  updated in place, before \<^verbatim>\<open>missing\<close> is called.
\<close>

definition requestMissing ::
  "net \<Rightarrow> GUID \<Rightarrow> uint64 \<Rightarrow> UDPAddr \<Rightarrow> EntityId \<Rightarrow> rtpsReader \<Rightarrow> recvTracker \<Rightarrow> 'r participant
   \<Rightarrow> ('r participant \<times> out list) option"
where
  "requestMissing net writerGUID lastSN from eid r t p =
     (case missing lastSN t of
        None \<Rightarrow> None
      | Some (base, bitmap, needAck) \<Rightarrow>
          if \<not> needAck then Some (updReader eid (setTracker writerGUID t r) p, [])
          else
            let (n, t') = nextAckCount t;
                an = \<lparr>anReader = r_eid r, anWriter = Entity writerGUID, Base = u64ToSN base,
                      Bitmap = bitmap, anCount = n\<rparr>;
                msg = wrapInRTPSMessage (ownPrefix p) (marshalAckNack an)
            in Some (updReader eid (setTracker writerGUID t' r) p,
                     [sendUnicast net DataSock from (Prefix writerGUID) msg True p]))"

definition notifyOne ::
  "net \<Rightarrow> GUID \<Rightarrow> SequenceNumber \<Rightarrow> UDPAddr \<Rightarrow> EntityId \<Rightarrow> 'r participant \<Rightarrow> ('r participant \<times> out list) option"
where
  "notifyOne net writerGUID seqNum from eid p =
     (case map_of (readers p) eid of
        None \<Rightarrow> Some (p, [])
      | Some r \<Rightarrow>
          if \<not> r_reliable r \<or> \<not> acceptsSource (ownPrefix p) writerGUID r then Some (p, [])
          else requestMissing net writerGUID (snToU64 seqNum) from eid r
                 (snd (record_seq (snToU64 seqNum) (trackerFor writerGUID r))) p)"

definition notifyReliableReaders ::
  "net \<Rightarrow> GUID \<Rightarrow> SequenceNumber \<Rightarrow> UDPAddr \<Rightarrow> 'r participant \<Rightarrow> ('r participant \<times> out list) option"
where
  "notifyReliableReaders net writerGUID seqNum from p =
     seqM (notifyOne net writerGUID seqNum from) (map fst (readers p)) p"

definition heartbeatOne ::
  "net \<Rightarrow> gotime \<Rightarrow> GUID \<Rightarrow> Heartbeat \<Rightarrow> UDPAddr \<Rightarrow> EntityId \<Rightarrow> 'r participant \<Rightarrow> ('r participant \<times> out list) option"
where
  "heartbeatOne net now writerGUID hb from eid p =
     (case map_of (readers p) eid of
        None \<Rightarrow> Some (p, [])
      | Some r \<Rightarrow>
          if \<not> acceptsSource (ownPrefix p) writerGUID r then Some (p, [])
          else
            let r1 = r\<lparr>r_live := touchLiveliness now writerGUID (r_live r)\<rparr> in
            if Liveliness hb \<or> \<not> r_reliable r then Some (updReader eid r1 p, [])
            else requestMissing net writerGUID (snToU64 (LastSN hb)) from eid r1
                   (initExpected (snToU64 (FirstSN hb)) (trackerFor writerGUID r1)) p)"

definition handleHeartbeat ::
  "net \<Rightarrow> gotime \<Rightarrow> GUID \<Rightarrow> Heartbeat \<Rightarrow> UDPAddr \<Rightarrow> 'r participant \<Rightarrow> ('r participant \<times> out list) option"
where
  "handleHeartbeat net now writerGUID hb from p =
     seqM (heartbeatOne net now writerGUID hb from) (map fst (readers p)) p"

subsection \<open>The subscriber's methods\<close>

definition TryRead :: "rtpsReader \<Rightarrow> Sample option \<times> rtpsReader" where
  "TryRead r =
     (case tryRecv (r_ch r) of
        (Received s, ch) \<Rightarrow> (Some s, r\<lparr>r_ch := ch\<rparr>)
      | (_, ch) \<Rightarrow> (None, r\<lparr>r_ch := ch\<rparr>))"

text \<open>
  The subscriber handle outlives its entry in the table, so these work on the handle \<open>r\<close> and
  return it. \<open>once\<close> flags stand for the \<^verbatim>\<open>sync.Once\<close> guards.
\<close>

definition Unsubscribe :: "rtpsReader \<Rightarrow> 'r participant \<Rightarrow> rtpsReader \<times> 'r participant" where
  "Unsubscribe r p =
     (if unsubDone r then (r, p)
      else (r\<lparr>unsubDone := True, r_deadlineDue := None\<rparr>, p\<lparr>readers := AList.delete (r_eid r) (readers p)\<rparr>))"

definition readerClose :: "rtpsReader \<Rightarrow> 'r participant \<Rightarrow> rtpsReader \<times> 'r participant" where
  "readerClose r p =
     (let (r1, p1) = Unsubscribe r p in
      if r_closed r1 then (r1, p1)
      else (r1\<lparr>r_deadlineDue := None, monitorRunning := False, r_closed := True, r_ch := closeChan (r_ch r1)\<rparr>, p1))"

text \<open>One tick of the liveliness monitor.\<close>

definition monitorTick :: "gotime \<Rightarrow> rtpsReader \<Rightarrow> (nat \<times> ddsGUID) list \<times> rtpsReader" where
  "monitorTick now r =
     (if \<not> monitorRunning r then ([], r)
      else let (calls, ls) = checkLiveliness now (livelinessLostCb r) (r_live r) in (calls, r\<lparr>r_live := ls\<rparr>))"

section \<open>Frames\<close>

text \<open>What delivery leaves alone: everything but the readers and the counters.\<close>

definition same_rest :: "'r participant \<Rightarrow> 'r participant \<Rightarrow> bool" where
  "same_rest p q \<longleftrightarrow> q = p\<lparr>readers := readers q, metrics := metrics q, topicMetrics := topicMetrics q\<rparr>
     \<and> map fst (readers q) = map fst (readers p)"

lemma same_rest_refl [simp]: "same_rest p p"
  by (simp add: same_rest_def)

lemma same_rest_trans: "same_rest p q \<Longrightarrow> same_rest q u \<Longrightarrow> same_rest p u"
proof -
  assume a: "same_rest p q" and b: "same_rest q u"
  from a have e: "q = p\<lparr>readers := readers q, metrics := metrics q, topicMetrics := topicMetrics q\<rparr>"
    by (simp only: same_rest_def)
  have "u = q\<lparr>readers := readers u, metrics := metrics u, topicMetrics := topicMetrics u\<rparr>"
    using b by (simp only: same_rest_def)
  also have "\<dots> = p\<lparr>readers := readers u, metrics := metrics u, topicMetrics := topicMetrics u\<rparr>"
    by (subst e) simp
  finally show ?thesis using a b by (simp only: same_rest_def)
qed

lemma same_rest_sel:
  assumes "same_rest p q"
  shows "cfg q = cfg p" "ownership q = ownership p" "sedp q = sedp p" "spdp q = spdp p" "writers q = writers p"
    "lastSample q = lastSample p" "antiReplay q = antiReplay p" "files q = files p" "writerLocators q = writerLocators p"
    "p_closed q = p_closed p" "entityCounter q = entityCounter p" "seqCounter q = seqCounter p" "wsConns q = wsConns p"
    "tsnSocks q = tsnSocks p" "map fst (readers q) = map fst (readers p)"
proof -
  have e: "q = p\<lparr>readers := readers q, metrics := metrics q, topicMetrics := topicMetrics q\<rparr>"
    using assms by (simp only: same_rest_def)
  show "cfg q = cfg p" using arg_cong [OF e, of cfg] by simp
  show "ownership q = ownership p" using arg_cong [OF e, of ownership] by simp
  show "sedp q = sedp p" using arg_cong [OF e, of sedp] by simp
  show "spdp q = spdp p" using arg_cong [OF e, of spdp] by simp
  show "writers q = writers p" using arg_cong [OF e, of writers] by simp
  show "lastSample q = lastSample p" using arg_cong [OF e, of lastSample] by simp
  show "antiReplay q = antiReplay p" using arg_cong [OF e, of antiReplay] by simp
  show "files q = files p" using arg_cong [OF e, of files] by simp
  show "writerLocators q = writerLocators p" using arg_cong [OF e, of writerLocators] by simp
  show "p_closed q = p_closed p" using arg_cong [OF e, of p_closed] by simp
  show "entityCounter q = entityCounter p" using arg_cong [OF e, of entityCounter] by simp
  show "seqCounter q = seqCounter p" using arg_cong [OF e, of seqCounter] by simp
  show "wsConns q = wsConns p" using arg_cong [OF e, of wsConns] by simp
  show "tsnSocks q = tsnSocks p" using arg_cong [OF e, of tsnSocks] by simp
  show "map fst (readers q) = map fst (readers p)" using assms by (simp only: same_rest_def)
qed

lemma map_fst_update: "k \<in> set (map fst al) \<Longrightarrow> map fst (AList.update k v al) = map fst al"
  by (induction al) auto

lemma same_rest_updReader: "map_of (readers p) eid = Some r0 \<Longrightarrow> same_rest p (updReader eid r p)"
  using map_fst_update [of eid "readers p" r] by (force simp: same_rest_def updReader_def dest: map_of_SomeD)

lemma same_rest_count [simp]: "same_rest p (countDeliver t n p)" "same_rest p (countDrop t p)"
  by (simp_all add: same_rest_def countDeliver_def countDrop_def updTopicCounter_def)

lemma readers_count [simp]: "readers (countDeliver t n p) = readers p" "readers (countDrop t p) = readers p"
  by (simp_all add: countDeliver_def countDrop_def updTopicCounter_def)

lemma map_of_updReader [simp]:
  "map_of (readers (updReader eid r p)) k = (if k = eid then Some r else map_of (readers p) k)"
  by (simp add: updReader_def update_conv')

text \<open>Sequences of operations that leave the rest alone leave it alone, whatever the entries.\<close>

lemma seqM_rest:
  assumes "\<And>x p p' outs. f x p = Some (p', outs) \<Longrightarrow> same_rest p p'"
  shows "seqM f xs p = Some (p', outs) \<Longrightarrow> same_rest p p'"
proof (induction xs arbitrary: p outs)
  case (Cons x xs)
  then obtain p1 o1 o2 where "f x p = Some (p1, o1)" "seqM f xs p1 = Some (p', o2)" by (auto split: option.splits)
  then show ?case using same_rest_trans [OF assms] Cons.IH by blast
qed simp

lemma deliver_rest:
  assumes "map_of (readers p) eid = Some r0" and "deliverToReader now eid r s p = Some p'"
  shows "same_rest p p'"
proof -
  note upd = same_rest_updReader [OF assms(1)]
  have del: "same_rest p (delivered now eid r ch s p)" for ch
    using same_rest_trans [OF upd same_rest_count(1)] by (simp add: delivered_def)
  have del2: "same_rest p (delivered now eid r ch s (countDrop t p))" for ch t
  proof -
    have "map_of (readers (countDrop t p)) eid = Some r0" using assms(1) by simp
    from same_rest_trans [OF same_rest_count(2) same_rest_trans [OF same_rest_updReader [OF this] same_rest_count(1)]]
    show ?thesis by (simp add: delivered_def)
  qed
  have drop: "same_rest p (countDrop t (updReader eid r' p))" for t r'
    using same_rest_trans [OF upd same_rest_count(2)] .
  have drop2: "same_rest p (countDrop t (updReader eid r' (countDrop t' p)))" for t t' r'
  proof -
    have "map_of (readers (countDrop t' p)) eid = Some r0" using assms(1) by simp
    from same_rest_trans [OF same_rest_count(2) same_rest_trans [OF same_rest_updReader [OF this] same_rest_count(2)]]
    show ?thesis .
  qed
  show ?thesis
    using assms(2) del del2 drop drop2
    by (auto simp: deliverToReader_def Let_def split: if_splits BackPressurePolicy.splits option.splits prod.splits recv_result.splits)
qed

lemma dispatchOne_rest: "dispatchOne now source tf payload ts sq wparts eid p = Some p' \<Longrightarrow> same_rest p p'"
proof (cases "map_of (readers p) eid")
  case (Some r)
  assume d: "dispatchOne now source tf payload ts sq wparts eid p = Some p'"
  have upd: "same_rest p (updReader eid r' p)" for r' by (rule same_rest_updReader [OF Some])
  have del: "deliverToReader now eid r' s (updReader eid r' p) = Some p' \<Longrightarrow> same_rest p p'" for r' s
    by (rule same_rest_trans [OF upd deliver_rest]) auto
  have drop: "same_rest p (countDrop t (updReader eid r' p))" for t r'
    using same_rest_trans [OF upd same_rest_count(2)] .
  show ?thesis
    using d Some upd drop del by (auto simp: dispatchOne_def Let_def split: if_splits prod.splits)
qed (simp add: dispatchOne_def)

lemma dispatch_rest:
  assumes "dispatchToReaders now source tf payload ts sq wparts p = Some p'"
  shows "same_rest p p'"
proof -
  obtain outs where "seqM (\<lambda>eid q. map_option (\<lambda>q'. (q', [] :: out list))
      (dispatchOne now source tf payload ts sq wparts eid q)) (map fst (readers p)) p = Some (p', outs)"
    using assms by (auto simp: dispatchToReaders_def)
  then show ?thesis by (rule seqM_rest [rotated]) (auto dest: dispatchOne_rest)
qed

lemma requestMissing_rest:
  "map_of (readers p) eid = Some r0 \<Longrightarrow> requestMissing net g lastSN from eid r t p = Some (p', outs) \<Longrightarrow> same_rest p p'"
  by (auto simp: requestMissing_def Let_def same_rest_updReader split: option.splits if_splits prod.splits)

lemma notify_rest: "notifyReliableReaders net g sn from p = Some (p', outs) \<Longrightarrow> same_rest p p'"
  unfolding notifyReliableReaders_def
  by (rule seqM_rest) (auto simp: notifyOne_def dest: requestMissing_rest split: option.splits if_splits)

lemma heartbeat_rest: "handleHeartbeat net now g hb from p = Some (p', outs) \<Longrightarrow> same_rest p p'"
  unfolding handleHeartbeat_def
  by (rule seqM_rest)
    (auto simp: heartbeatOne_def Let_def same_rest_updReader dest: requestMissing_rest split: option.splits if_splits)

section \<open>What a reader gets\<close>

text \<open>The reader's side of the decision, in one condition.\<close>

definition sampleFor :: "GUID \<Rightarrow> bytes \<Rightarrow> gotime \<Rightarrow> uint64 \<Rightarrow> rtpsReader \<Rightarrow> Sample" where
  "sampleFor source payload ts seqNum r =
     \<lparr>Topic = r_topic r, Payload = payload, Timestamp = ts, SampleSeq = seqNum, WriterGUID = toDdsGUID source\<rparr>"

definition wants ::
  "GuidPrefix \<Rightarrow> ownership_map \<Rightarrow> gotime \<Rightarrow> GUID \<Rightarrow> topic \<Rightarrow> bytes list \<Rightarrow> Sample \<Rightarrow> rtpsReader \<Rightarrow> bool"
where
  "wants own om now source topicFilter wparts s r \<longleftrightarrow>
     (topicFilter = [] \<or> r_topic r = topicFilter \<or> TopicMatches (topicString (r_topic r)) (topicString topicFilter))
     \<and> acceptsSource own source r
     \<and> (Prefix source = own \<longrightarrow> partitionsMatch wparts (r_partitions r))
     \<and> ownershipAllows om (r_topic r) source
     \<and> fst (passesTimeBasedFilter source now (r_tbf r))
     \<and> (case r_filter r of Some f \<Rightarrow> f s | None \<Rightarrow> True)
     \<and> cfEval (r_contentFilter r) (Payload s)
     \<and> \<not> r_closed r"

text \<open>A channel after an offered sample, by policy.\<close>

definition offered :: "BackPressurePolicy \<Rightarrow> 'a \<Rightarrow> 'a chan \<Rightarrow> 'a list" where
  "offered bp x c =
     (if length (chBuf c) < chCap c then chBuf c @ [x]
      else case bp of DropOldest \<Rightarrow> if chCap c = 0 then [] else tl (chBuf c) @ [x] | _ \<Rightarrow> chBuf c)"

definition ch_ok :: "rtpsReader \<Rightarrow> bool" where
  "ch_ok r \<longleftrightarrow> length (chBuf (r_ch r)) \<le> chCap (r_ch r) \<and> (chClosed (r_ch r) \<longrightarrow> r_closed r)"

lemma resetDeadline_eq: "\<exists>due. resetDeadline now r = r\<lparr>r_deadlineDue := due\<rparr>"
  by (cases "deadlinePeriod r") (auto simp: resetDeadline_def intro: exI [of _ "r_deadlineDue r"])

lemma delivered_spec:
  assumes "map_of (readers p) eid = Some r0"
  shows "same_rest p (delivered now eid r ch s p)"
    and "map_of (readers (delivered now eid r ch s p)) k
      = (if k = eid then Some (resetDeadline now (r\<lparr>r_ch := ch\<rparr>)) else map_of (readers p) k)"
  using same_rest_trans [OF same_rest_updReader [OF assms] same_rest_count(1)]
  by (simp_all add: delivered_def)

lemma deliverToReader_None:
  assumes "ch_ok r"
  shows "deliverToReader now eid r s p = None \<longleftrightarrow>
      \<not> r_closed r \<and> backPressure r = Block \<and> length (chBuf (r_ch r)) = chCap (r_ch r)"
  using assms
  by (auto simp: deliverToReader_def ch_ok_def trySend_def Let_def split: BackPressurePolicy.split prod.split)

text \<open>The reader entry after a delivery, up to the deadline timer.\<close>

definition gotSample :: "Sample \<Rightarrow> rtpsReader \<Rightarrow> rtpsReader \<Rightarrow> bool" where
  "gotSample s r r' \<longleftrightarrow>
     (if r_closed r then r' = r
      else \<exists>due. r' = r\<lparr>r_ch := (r_ch r)\<lparr>chBuf := offered (backPressure r) s (r_ch r)\<rparr>, r_deadlineDue := due\<rparr>)"

lemma gotSample_delivered:
  assumes "\<not> r_closed r" and "ch = (r_ch r)\<lparr>chBuf := offered (backPressure r) s (r_ch r)\<rparr>"
  shows "gotSample s r (resetDeadline now (r\<lparr>r_ch := ch\<rparr>))"
proof -
  obtain due where "resetDeadline now (r\<lparr>r_ch := ch\<rparr>) = r\<lparr>r_ch := ch, r_deadlineDue := due\<rparr>"
    using resetDeadline_eq [of now "r\<lparr>r_ch := ch\<rparr>"] by auto
  with assms show ?thesis by (auto simp: gotSample_def)
qed

lemma gotSample_full:
  assumes "\<not> r_closed r" and "offered (backPressure r) s (r_ch r) = chBuf (r_ch r)"
  shows "gotSample s r r"
proof -
  have "r\<lparr>r_ch := (r_ch r)\<lparr>chBuf := chBuf (r_ch r)\<rparr>, r_deadlineDue := r_deadlineDue r\<rparr> = r" by simp
  with assms show ?thesis by (metis gotSample_def)
qed

definition delivery_ok :: "Sample \<Rightarrow> EntityId \<Rightarrow> rtpsReader \<Rightarrow> 'r participant \<Rightarrow> 'r participant \<Rightarrow> bool" where
  "delivery_ok s eid r p p' \<longleftrightarrow>
     same_rest p p' \<and> (\<forall>k. k \<noteq> eid \<longrightarrow> map_of (readers p') k = map_of (readers p) k)
     \<and> (\<exists>r'. map_of (readers p') eid = Some r' \<and> gotSample s r r')"

lemma delivery_ok_delivered:
  assumes "map_of (readers q) eid = Some r0" and "same_rest p q" and "readers q = readers p"
    and "gotSample s r (resetDeadline now (r\<lparr>r_ch := ch\<rparr>))"
  shows "delivery_ok s eid r p (delivered now eid r ch s q)"
  using same_rest_trans [OF assms(2) delivered_spec(1) [OF assms(1)]] assms(3,4)
  by (simp add: delivery_ok_def delivered_spec(2) [OF assms(1)])

lemma deliver_dropOldest:
  assumes r: "map_of (readers p) eid = Some r" and len: "length (chBuf (r_ch r)) = chCap (r_ch r)"
    and bp: "backPressure r = DropOldest" and nc: "\<not> r_closed r" and d: "deliverToReader now eid r s p = Some p'"
  shows "delivery_ok s eid r p p'"
proof (cases "chBuf (r_ch r)")
  case Nil
  then have "trySend s (r_ch r) = None" "tryRecv (r_ch r) = (if chClosed (r_ch r) then RecvClosed else RecvDefault, r_ch r)"
    using len by (simp_all add: trySend_def tryRecv_def)
  then have p': "p' = countDrop (r_topic r) (updReader eid r p)"
    using d nc bp by (simp add: deliverToReader_def Let_def split: if_splits)
  have "gotSample s r r" using nc Nil len bp by (intro gotSample_full) (simp_all add: offered_def)
  moreover have "same_rest p p'"
    unfolding p' by (rule same_rest_trans [OF same_rest_updReader [OF r] same_rest_count(2)])
  ultimately show ?thesis by (simp add: delivery_ok_def p')
next
  case (Cons x xs)
  have "trySend s (r_ch r) = None" "tryRecv (r_ch r) = (Received x, (r_ch r)\<lparr>chBuf := xs\<rparr>)"
    "trySend s ((r_ch r)\<lparr>chBuf := xs\<rparr>) = Some ((r_ch r)\<lparr>chBuf := xs @ [s]\<rparr>)"
    using len Cons by (auto simp: trySend_def tryRecv_def)
  then have p': "p' = delivered now eid r ((r_ch r)\<lparr>chBuf := xs @ [s]\<rparr>) s (countDrop (r_topic r) p)"
    using d nc bp by (simp add: deliverToReader_def Let_def)
  have "gotSample s r (resetDeadline now (r\<lparr>r_ch := (r_ch r)\<lparr>chBuf := xs @ [s]\<rparr>\<rparr>))"
    using nc Cons len bp by (intro gotSample_delivered) (auto simp: offered_def)
  then show ?thesis unfolding p' using r by (intro delivery_ok_delivered) simp_all
qed

lemma deliverToReader_Some:
  assumes r: "map_of (readers p) eid = Some r" and ok: "ch_ok r"
    and d: "deliverToReader now eid r s p = Some p'"
  shows "delivery_ok s eid r p p'"
proof -
  consider "r_closed r" | "\<not> r_closed r" "length (chBuf (r_ch r)) < chCap (r_ch r)"
    | "\<not> r_closed r" "length (chBuf (r_ch r)) = chCap (r_ch r)"
    using ok by (fastforce simp: ch_ok_def)
  then show ?thesis
  proof cases
    case 1
    with d r show ?thesis by (simp add: deliverToReader_def gotSample_def delivery_ok_def)
  next
    case 2
    then have p': "p' = delivered now eid r ((r_ch r)\<lparr>chBuf := chBuf (r_ch r) @ [s]\<rparr>) s p"
      using d by (simp add: deliverToReader_def trySend_def split: BackPressurePolicy.splits)
    have "gotSample s r (resetDeadline now (r\<lparr>r_ch := (r_ch r)\<lparr>chBuf := chBuf (r_ch r) @ [s]\<rparr>\<rparr>))"
      using 2 by (intro gotSample_delivered) (simp_all add: offered_def)
    then show ?thesis unfolding p' using r by (intro delivery_ok_delivered) simp_all
  next
    case 3
    show ?thesis
    proof (cases "backPressure r")
      case DropNewest
      with d 3 have "p' = countDrop (r_topic r) p" by (simp add: deliverToReader_def trySend_def)
      moreover have "gotSample s r r" using 3 DropNewest by (intro gotSample_full) (simp_all add: offered_def)
      ultimately show ?thesis using r by (simp add: delivery_ok_def)
    next
      case DropOldest
      with 3 show ?thesis using deliver_dropOldest [OF r _ _ _ d] by simp
    next
      case Block
      then have "deliverToReader now eid r s p = None" using 3 deliverToReader_None [OF ok] by blast
      with d show ?thesis by simp
    qed
  qed
qed

text \<open>The reader entry after a dispatch: its channel as \<open>ch\<close>, its clocks and timer possibly moved.\<close>

definition moved :: "Sample chan \<Rightarrow> rtpsReader \<Rightarrow> rtpsReader \<Rightarrow> bool" where
  "moved ch r r' \<longleftrightarrow>
     (\<exists>live tbf due. r' = r\<lparr>r_live := live, r_tbf := tbf, r_ch := ch, r_deadlineDue := due\<rparr>)"

definition chanAfter :: "bool \<Rightarrow> Sample \<Rightarrow> rtpsReader \<Rightarrow> Sample chan" where
  "chanAfter w s r = (if w then (r_ch r)\<lparr>chBuf := offered (backPressure r) s (r_ch r)\<rparr> else r_ch r)"

lemma moved_id:
  "moved (r_ch r) r (r\<lparr>r_live := l\<rparr>)" "moved (r_ch r) r (r\<lparr>r_live := l, r_tbf := t\<rparr>)" "moved (r_ch r) r r"
proof -
  have "r\<lparr>r_live := l, r_tbf := t\<rparr> = r\<lparr>r_live := l, r_tbf := t, r_ch := r_ch r, r_deadlineDue := r_deadlineDue r\<rparr>"
    for l :: liveliness_state and t by simp
  then have m: "moved (r_ch r) r (r\<lparr>r_live := l, r_tbf := t\<rparr>)" for l t unfolding moved_def by blast
  from m show "moved (r_ch r) r (r\<lparr>r_live := l, r_tbf := t\<rparr>)" .
  from m [where l = l and t = "r_tbf r"] show "moved (r_ch r) r (r\<lparr>r_live := l\<rparr>)" by simp
  from m [where l = "r_live r" and t = "r_tbf r"] show "moved (r_ch r) r r" by simp
qed

lemma moved_gotSample:
  assumes "gotSample s (r\<lparr>r_live := l, r_tbf := t\<rparr>) r'" and "\<not> r_closed r"
  shows "moved (chanAfter True s r) r r'"
  using assms by (auto simp: gotSample_def moved_def chanAfter_def)

text \<open>One reader's turn: what happens to its entry, and that nothing else moves.\<close>

definition turn_ok :: "bool \<Rightarrow> Sample \<Rightarrow> EntityId \<Rightarrow> rtpsReader \<Rightarrow> 'r participant \<Rightarrow> 'r participant \<Rightarrow> bool" where
  "turn_ok w s eid r p p' \<longleftrightarrow>
     same_rest p p' \<and> (\<forall>k. k \<noteq> eid \<longrightarrow> map_of (readers p') k = map_of (readers p) k)
     \<and> (\<exists>r'. map_of (readers p') eid = Some r' \<and> moved (chanAfter w s r) r r')"

lemma turn_ok_upd:
  assumes "map_of (readers p) eid = Some r" and "moved (r_ch r) r r'"
  shows "turn_ok False s eid r p (updReader eid r' p)" "turn_ok False s eid r p (countDrop t (updReader eid r' p))"
  using assms same_rest_updReader [OF assms(1)] same_rest_trans [OF same_rest_updReader [OF assms(1)] same_rest_count(2)]
  by (simp_all add: turn_ok_def chanAfter_def)

text \<open>The decision as a cascade, with the entry after each stage.\<close>

lemma dispatchOne_cascade:
  assumes r: "map_of (readers p) eid = Some r"
    and r1: "r1 = r\<lparr>r_live := touchLiveliness now source (r_live r)\<rparr>"
    and r2: "r2 = r1\<lparr>r_tbf := snd (passesTimeBasedFilter source now (r_tbf r))\<rparr>"
    and s: "s = sampleFor source payload ts seqNum r"
  shows "dispatchOne now source tf payload ts seqNum wparts eid p =
    (if \<not> ((tf = [] \<or> r_topic r = tf \<or> TopicMatches (topicString (r_topic r)) (topicString tf))
           \<and> acceptsSource (ownPrefix p) source r) then Some p
     else if \<not> ((Prefix source = ownPrefix p \<longrightarrow> partitionsMatch wparts (r_partitions r))
           \<and> ownershipAllows (ownership p) (r_topic r) source) then Some (updReader eid r1 p)
     else if \<not> fst (passesTimeBasedFilter source now (r_tbf r)) then Some (countDrop (r_topic r) (updReader eid r2 p))
     else if \<not> ((case r_filter r of Some f \<Rightarrow> f s | None \<Rightarrow> True) \<and> cfEval (r_contentFilter r) (Payload s))
       then Some (updReader eid r2 p)
     else deliverToReader now eid r2 s (updReader eid r2 p))"
  unfolding dispatchOne_def r r1 r2 s option.case sampleFor_def Let_def
  by (cases "passesTimeBasedFilter source now (r_tbf r)") (auto split: option.splits)

lemma dispatchOne_cases:
  assumes r: "map_of (readers p) eid = Some r"
    and s: "s = sampleFor source payload ts seqNum r"
    and w: "w \<longleftrightarrow> wants (ownPrefix p) (ownership p) now source tf wparts s r"
    and r2: "r2 = r\<lparr>r_live := touchLiveliness now source (r_live r),
                    r_tbf := snd (passesTimeBasedFilter source now (r_tbf r))\<rparr>"
  obtains (skip) p' where "\<not> w" "dispatchOne now source tf payload ts seqNum wparts eid p = Some p'"
       "turn_ok w s eid r p p'"
    | (deliver) "w \<longleftrightarrow> \<not> r_closed r"
       "dispatchOne now source tf payload ts seqNum wparts eid p = deliverToReader now eid r2 s (updReader eid r2 p)"
proof -
  note c = dispatchOne_cascade [OF r refl refl s, of now tf wparts, folded r2]
  have t: "turn_ok False s eid r p p" using r moved_id(3) [of r] by (simp add: turn_ok_def chanAfter_def)
  have u: "turn_ok False s eid r p (updReader eid (r\<lparr>r_live := touchLiveliness now source (r_live r)\<rparr>) p)"
    "turn_ok False s eid r p (updReader eid r2 p)" "turn_ok False s eid r p (countDrop (r_topic r) (updReader eid r2 p))"
    unfolding r2 by (rule turn_ok_upd [OF r] moved_id)+
  show thesis
  proof (cases "w \<or> w = (\<not> r_closed r) \<and> dispatchOne now source tf payload ts seqNum wparts eid p
      = deliverToReader now eid r2 s (updReader eid r2 p)")
    case True
    then show ?thesis using deliver c w by (auto simp: wants_def)
  next
    case False
    then have "\<not> w" by blast
    moreover have "\<exists>p'. dispatchOne now source tf payload ts seqNum wparts eid p = Some p' \<and> turn_ok False s eid r p p'"
      using False c t u w by (auto simp: wants_def split: if_splits)
    ultimately show ?thesis using skip by auto
  qed
qed

lemma dispatchOne_spec:
  assumes r: "map_of (readers p) eid = Some r" and ok: "ch_ok r"
    and s: "s = sampleFor source payload ts seqNum r"
    and w: "w \<longleftrightarrow> wants (ownPrefix p) (ownership p) now source tf wparts s r"
  shows "dispatchOne now source tf payload ts seqNum wparts eid p = None \<longleftrightarrow>
      w \<and> backPressure r = Block \<and> length (chBuf (r_ch r)) = chCap (r_ch r)"
    and "dispatchOne now source tf payload ts seqNum wparts eid p = Some p' \<Longrightarrow> turn_ok w s eid r p p'"
proof -
  define r2 where "r2 = r\<lparr>r_live := touchLiveliness now source (r_live r),
      r_tbf := snd (passesTimeBasedFilter source now (r_tbf r))\<rparr>"
  have r2: "map_of (readers (updReader eid r2 p)) eid = Some r2" "ch_ok r2" "r_closed r2 = r_closed r"
    using ok by (simp_all add: ch_ok_def r2_def)
  note cases = dispatchOne_cases [OF r s w r2_def]
  show "dispatchOne now source tf payload ts seqNum wparts eid p = None \<longleftrightarrow>
      w \<and> backPressure r = Block \<and> length (chBuf (r_ch r)) = chCap (r_ch r)"
  proof (cases rule: cases [case_names skip deliver])
    case deliver
    then show ?thesis using deliverToReader_None [OF r2(2)] by (auto simp: r2_def)
  qed auto
  show "turn_ok w s eid r p p'" if S: "dispatchOne now source tf payload ts seqNum wparts eid p = Some p'"
  proof (cases rule: cases [case_names skip deliver])
    case skip
    with S show ?thesis by simp
  next
    case deliver
    have "delivery_ok s eid r2 (updReader eid r2 p) p'"
      using deliverToReader_Some [OF r2(1,2)] S deliver(2) by simp
    then obtain r' where r': "same_rest (updReader eid r2 p) p'" "map_of (readers p') eid = Some r'" "gotSample s r2 r'"
      "\<forall>k. k \<noteq> eid \<longrightarrow> map_of (readers p') k = map_of (readers p) k"
      by (auto simp: delivery_ok_def)
    have "moved (chanAfter w s r) r r'"
    proof (cases "r_closed r")
      case True
      then show ?thesis using r'(3) deliver(1) moved_id(2) [of r] by (simp add: gotSample_def r2_def chanAfter_def)
    next
      case False
      then show ?thesis using moved_gotSample [OF r'(3) [unfolded r2_def]] deliver(1) by (simp add: chanAfter_def)
    qed
    then show ?thesis
      using r' same_rest_trans [OF same_rest_updReader [OF r]] by (auto simp: turn_ok_def)
  qed
qed

section \<open>Dispatching to all readers\<close>

definition readers_ok :: "'r participant \<Rightarrow> bool" where
  "readers_ok p \<longleftrightarrow> distinct (map fst (readers p)) \<and> (\<forall>eid r. map_of (readers p) eid = Some r \<longrightarrow> ch_ok r \<and> r_eid r = eid)"

definition blocks :: "bool \<Rightarrow> rtpsReader \<Rightarrow> bool" where
  "blocks w r \<longleftrightarrow> w \<and> backPressure r = Block \<and> length (chBuf (r_ch r)) = chCap (r_ch r)"

text \<open>
  A sequence of turns, one per reader, when each turn's outcome depends only on what the
  participant keeps and on the reader's own entry. \<open>stuck\<close> says that a reader's turn does not
  return, \<open>post\<close> what its entry is like after it and \<open>sends\<close> what it sends; \<open>inv\<close> is what is
  required of an entry.
\<close>

locale reader_turns =
  fixes turn :: "EntityId \<Rightarrow> 'r participant \<Rightarrow> ('r participant \<times> 'o list) option"
    and inv :: "rtpsReader \<Rightarrow> bool"
    and stuck :: "'r participant \<Rightarrow> rtpsReader \<Rightarrow> bool"
    and post :: "'r participant \<Rightarrow> rtpsReader \<Rightarrow> rtpsReader \<Rightarrow> bool"
    and sends :: "'r participant \<Rightarrow> rtpsReader \<Rightarrow> 'o list"
  assumes turn_None: "map_of (readers q) eid = Some r \<Longrightarrow> inv r \<Longrightarrow> turn eid q = None \<longleftrightarrow> stuck q r"
    and turn_Some: "map_of (readers q) eid = Some r \<Longrightarrow> inv r \<Longrightarrow> turn eid q = Some (q', outs) \<Longrightarrow>
        same_rest q q' \<and> (\<forall>k. k \<noteq> eid \<longrightarrow> map_of (readers q') k = map_of (readers q) k)
        \<and> (\<exists>r'. map_of (readers q') eid = Some r' \<and> post q r r') \<and> outs = sends q r"
    and stuck_rest: "same_rest p q \<Longrightarrow> stuck q = stuck p"
    and post_rest: "same_rest p q \<Longrightarrow> post q = post p"
    and sends_rest: "same_rest p q \<Longrightarrow> sends q = sends p"
begin

text \<open>The readers still to be served are as at the start.\<close>

definition pending :: "'r participant \<Rightarrow> EntityId list \<Rightarrow> 'r participant \<Rightarrow> bool" where
  "pending p0 eids q \<longleftrightarrow> (\<forall>k r. map_of (readers p0) k = Some r \<longrightarrow> inv r) \<and> distinct eids \<and> set eids \<subseteq> dom (map_of (readers p0)) \<and> same_rest p0 q
     \<and> (\<forall>k \<in> set eids. map_of (readers q) k = map_of (readers p0) k)"

lemma pending_step:
  assumes "pending p0 (e # es) q"
  obtains r where "map_of (readers p0) e = Some r" "turn e q = None \<longleftrightarrow> stuck p0 r"
    "\<And>q1 o1. turn e q = Some (q1, o1) \<Longrightarrow> pending p0 es q1"
    "\<And>q1 o1. turn e q = Some (q1, o1) \<Longrightarrow> \<exists>r'. map_of (readers q1) e = Some r' \<and> post p0 r r'"
    "\<And>q1 o1 k. turn e q = Some (q1, o1) \<Longrightarrow> k \<noteq> e \<Longrightarrow> map_of (readers q1) k = map_of (readers q) k"
    "\<And>q1 o1. turn e q = Some (q1, o1) \<Longrightarrow> o1 = sends p0 r"
proof -
  have sr: "same_rest p0 q" and e: "e \<notin> set es" using assms by (simp_all add: pending_def)
  obtain r where r: "map_of (readers p0) e = Some r" "map_of (readers q) e = Some r"
    using assms by (auto simp: pending_def)
  have i: "inv r" using assms r(1) by (simp add: pending_def)
  note S = turn_Some [OF r(2) i, unfolded post_rest [OF sr] sends_rest [OF sr]]
  have "pending p0 es q1" if "turn e q = Some (q1, o1)" for q1 o1
  proof -
    from S [OF that] have "same_rest p0 q1" "\<forall>k. k \<noteq> e \<longrightarrow> map_of (readers q1) k = map_of (readers q) k"
      using same_rest_trans [OF sr] by blast+
    with assms e show ?thesis unfolding pending_def by (metis distinct.simps(2) insert_subset list.simps(15) insertCI)
  qed
  with that [OF r(1) turn_None [OF r(2) i, unfolded stuck_rest [OF sr]]] S show thesis by blast
qed

lemma seq_turns_None:
  "pending p0 eids q \<Longrightarrow> seqM turn eids q = None \<longleftrightarrow> (\<exists>k \<in> set eids. \<exists>r. map_of (readers p0) k = Some r \<and> stuck p0 r)"
proof (induction eids arbitrary: q)
  case (Cons e es)
  obtain r where r: "map_of (readers p0) e = Some r" "turn e q = None \<longleftrightarrow> stuck p0 r"
    "\<And>q1 o1. turn e q = Some (q1, o1) \<Longrightarrow> pending p0 es q1"
    using pending_step [OF Cons.prems] by metis
  show ?case
  proof (cases "turn e q")
    case None
    then show ?thesis using r(1,2) by auto
  next
    case (Some x)
    then obtain q1 o1 where x: "turn e q = Some (q1, o1)" by (cases x) auto
    have "seqM turn (e # es) q = None \<longleftrightarrow> seqM turn es q1 = None" using x by (simp split: option.split)
    then show ?thesis using Cons.IH [OF r(3) [OF x]] r(1,2) x by auto
  qed
qed simp

lemma seq_turns_Some:
  "pending p0 eids q \<Longrightarrow> seqM turn eids q = Some (q', outs) \<Longrightarrow>
     same_rest p0 q' \<and> (\<forall>k. k \<notin> set eids \<longrightarrow> map_of (readers q') k = map_of (readers q) k)
     \<and> (\<forall>k \<in> set eids. \<exists>r r'. map_of (readers p0) k = Some r \<and> map_of (readers q') k = Some r' \<and> post p0 r r')
     \<and> outs = concat (map (\<lambda>k. sends p0 (the (map_of (readers p0) k))) eids)"
proof (induction eids arbitrary: q outs)
  case Nil
  then show ?case by (simp add: pending_def)
next
  case (Cons e es)
  obtain q1 o1 o2 where x: "turn e q = Some (q1, o1)" "seqM turn es q1 = Some (q', o2)"
    "outs = o1 @ o2"
    using Cons.prems(2) by (auto split: option.splits)
  obtain r where S: "map_of (readers p0) e = Some r" "turn e q = None \<longleftrightarrow> stuck p0 r"
    "\<And>q1 o1. turn e q = Some (q1, o1) \<Longrightarrow> pending p0 es q1"
    "\<And>q1 o1. turn e q = Some (q1, o1) \<Longrightarrow> \<exists>r'. map_of (readers q1) e = Some r' \<and> post p0 r r'"
    "\<And>q1 o1 k. turn e q = Some (q1, o1) \<Longrightarrow> k \<noteq> e \<Longrightarrow> map_of (readers q1) k = map_of (readers q) k"
    "\<And>q1 o1. turn e q = Some (q1, o1) \<Longrightarrow> o1 = sends p0 r"
    by (rule pending_step [OF Cons.prems(1)]) (rule that)
  obtain r1 where r: "map_of (readers p0) e = Some r" "pending p0 es q1" "map_of (readers q1) e = Some r1" "post p0 r r1"
    "\<And>k. k \<noteq> e \<Longrightarrow> map_of (readers q1) k = map_of (readers q) k" "o1 = sends p0 r"
    using S(1) S(3-6) [OF x(1)] by blast
  note IH = Cons.IH [OF r(2) x(2)]
  have e: "e \<notin> set es" using Cons.prems(1) by (simp add: pending_def)
  have e1: "map_of (readers q') e = Some r1"
    using IH [THEN conjunct2, THEN conjunct1, rule_format, OF e] r(3) by (rule trans)
  have o: "outs = concat (map (\<lambda>k. sends p0 (the (map_of (readers p0) k))) (e # es))"
    using IH r(1,6) x(3) by (simp only: list.map concat.simps option.sel)
  show ?case
  proof (intro conjI)
    show "\<forall>k. k \<notin> set (e # es) \<longrightarrow> map_of (readers q') k = map_of (readers q) k" using IH r(5) by (metis list.set_intros)
    show "\<forall>k \<in> set (e # es). \<exists>r r'. map_of (readers p0) k = Some r \<and> map_of (readers q') k = Some r' \<and> post p0 r r'"
      using IH r(1,4) e1 by (metis set_ConsD)
    show "same_rest p0 q'" using IH by (rule conjunct1)
  qed (rule o)
qed

lemma all_turns:
  assumes "distinct (map fst (readers p0))" and "\<forall>k r. map_of (readers p0) k = Some r \<longrightarrow> inv r"
  shows "seqM turn (map fst (readers p0)) p0 = None \<longleftrightarrow> (\<exists>k r. map_of (readers p0) k = Some r \<and> stuck p0 r)"
    and "seqM turn (map fst (readers p0)) p0 = Some (q', outs) \<Longrightarrow>
      same_rest p0 q' \<and> (\<forall>k r. map_of (readers p0) k = Some r \<longrightarrow> (\<exists>r'. map_of (readers q') k = Some r' \<and> post p0 r r'))
      \<and> outs = concat (map (\<lambda>(k, r). sends p0 r) (readers p0))"
proof -
  have d: "k \<in> set (map fst (readers p0)) \<longleftrightarrow> (\<exists>r. map_of (readers p0) k = Some r)" for k
    by (metis map_of_eq_None_iff not_Some_eq set_map)
  have pend: "pending p0 (map fst (readers p0)) p0" using assms d by (auto simp: pending_def)
  show "seqM turn (map fst (readers p0)) p0 = None \<longleftrightarrow> (\<exists>k r. map_of (readers p0) k = Some r \<and> stuck p0 r)"
    unfolding seq_turns_None [OF pend] using d by blast
  show "same_rest p0 q' \<and> (\<forall>k r. map_of (readers p0) k = Some r \<longrightarrow> (\<exists>r'. map_of (readers q') k = Some r' \<and> post p0 r r'))
      \<and> outs = concat (map (\<lambda>(k, r). sends p0 r) (readers p0))"
    if "seqM turn (map fst (readers p0)) p0 = Some (q', outs)"
  proof -
    note S = seq_turns_Some [OF pend that]
    have "map (\<lambda>k. sends p0 (the (map_of (readers p0) k))) (map fst (readers p0)) = map (\<lambda>(k, r). sends p0 r) (readers p0)"
      using assms(1) by auto
    then have o: "outs = concat (map (\<lambda>(k, r). sends p0 r) (readers p0))" using S by (simp only:)
    show ?thesis using S d o by (metis option.inject)
  qed
qed

end

definition getsSample ::
  "gotime \<Rightarrow> GUID \<Rightarrow> topic \<Rightarrow> bytes \<Rightarrow> gotime \<Rightarrow> uint64 \<Rightarrow> bytes list \<Rightarrow> 'r participant \<Rightarrow> rtpsReader \<Rightarrow> bool"
where
  "getsSample now source tf payload ts seqNum wparts p r \<longleftrightarrow>
     wants (ownPrefix p) (ownership p) now source tf wparts (sampleFor source payload ts seqNum r) r"

interpretation disp: reader_turns
  "\<lambda>eid q. map_option (\<lambda>q'. (q', [] :: out list)) (dispatchOne now source tf payload ts seqNum wparts eid q)"
  ch_ok "\<lambda>q r. blocks (getsSample now source tf payload ts seqNum wparts q r) r"
  "\<lambda>q r r'. moved (chanAfter (getsSample now source tf payload ts seqNum wparts q r)
                    (sampleFor source payload ts seqNum r) r) r r'"
  "\<lambda>q r. []"
  for now source tf payload ts seqNum wparts
proof (unfold_locales, goal_cases)
  case (1 q eid r)
  then show ?case using dispatchOne_spec(1) [OF 1 refl refl] by (simp add: blocks_def getsSample_def)
next
  case (2 q eid r q' outs)
  then show ?case using dispatchOne_spec(2) [OF 2(1,2) refl refl] by (auto simp: turn_ok_def getsSample_def)
next
  case (3 p q)
  then show ?case by (simp add: getsSample_def same_rest_sel)
next
  case (4 p q)
  then show ?case by (simp add: getsSample_def same_rest_sel)
next
  case (5 p q)
  then show ?case by simp
qed


lemma exSub_readers_ok: "readers_ok exSub"
  by (simp add: readers_ok_def exSub_def ch_ok_def exReader_def makeChan_def)


section \<open>What a reader answers\<close>

text \<open>The ACKNACK, if any, that a reader with tracker \<open>t\<close> sends for everything up to \<open>lastSN\<close>.\<close>

definition ackFor :: "GUID \<Rightarrow> uint64 \<Rightarrow> rtpsReader \<Rightarrow> recvTracker \<Rightarrow> AckNack option" where
  "ackFor g lastSN r t =
     (case missing lastSN t of
        Some (base, bm, True) \<Rightarrow>
          Some \<lparr>anReader = r_eid r, anWriter = Entity g, Base = u64ToSN base, Bitmap = bm, anCount = ackCount t + 1\<rparr>
      | _ \<Rightarrow> None)"

definition ackOut :: "net \<Rightarrow> GUID \<Rightarrow> UDPAddr \<Rightarrow> 'r participant \<Rightarrow> AckNack option \<Rightarrow> out list" where
  "ackOut net g from p a =
     (case a of None \<Rightarrow> []
      | Some an \<Rightarrow> [sendUnicast net DataSock from (Prefix g) (wrapInRTPSMessage (ownPrefix p) (marshalAckNack an)) True p])"

definition ackedTracker :: "uint64 \<Rightarrow> recvTracker \<Rightarrow> recvTracker" where
  "ackedTracker lastSN t = (case missing lastSN t of Some (_, _, True) \<Rightarrow> t\<lparr>ackCount := ackCount t + 1\<rparr> | _ \<Rightarrow> t)"

lemma requestMissing_spec:
  "requestMissing net g lastSN from eid r t p =
     (if missing lastSN t = None then None
      else Some (updReader eid (setTracker g (ackedTracker lastSN t) r) p, ackOut net g from p (ackFor g lastSN r t)))"
  by (auto simp: requestMissing_def ackOut_def ackFor_def ackedTracker_def nextAckCount_def Let_def
      split: option.split bool.split)

lemma sendUnicast_cong:
  assumes "cfg q = cfg p" "spdp q = spdp p" "wsConns q = wsConns p"
  shows "sendUnicast net sk dst pre msg rel q = sendUnicast net sk dst pre msg rel p"
  unfolding sendUnicast_def dtlsLocatorForIP_def quicLocatorForIP_def wsLocatorForIP_def tcpLocatorForIP_def
    relayIDForPrefix_def preferTCP_def assms by (rule refl)

lemma sendUnicast_rest: "same_rest p q \<Longrightarrow> sendUnicast net sk dst pre msg rel q = sendUnicast net sk dst pre msg rel p"
  by (rule sendUnicast_cong) (rule same_rest_sel, assumption)+

lemma ackOut_rest: "same_rest p q \<Longrightarrow> ackOut net g from q = ackOut net g from p"
  by (auto simp: ackOut_def sendUnicast_rest same_rest_sel fun_eq_iff split: option.split)

definition hbAsks :: "GUID \<Rightarrow> Heartbeat \<Rightarrow> 'r participant \<Rightarrow> rtpsReader \<Rightarrow> bool" where
  "hbAsks g hb p r \<longleftrightarrow> acceptsSource (ownPrefix p) g r \<and> \<not> Liveliness hb \<and> r_reliable r"

definition hbTracker :: "GUID \<Rightarrow> Heartbeat \<Rightarrow> rtpsReader \<Rightarrow> recvTracker" where
  "hbTracker g hb r = initExpected (snToU64 (FirstSN hb)) (trackerFor g r)"

definition hbAfter :: "gotime \<Rightarrow> GUID \<Rightarrow> Heartbeat \<Rightarrow> 'r participant \<Rightarrow> rtpsReader \<Rightarrow> rtpsReader" where
  "hbAfter now g hb p r =
     (if \<not> acceptsSource (ownPrefix p) g r then r
      else let r1 = r\<lparr>r_live := touchLiveliness now g (r_live r)\<rparr> in
        if hbAsks g hb p r then setTracker g (ackedTracker (snToU64 (LastSN hb)) (hbTracker g hb r)) r1 else r1)"

lemma ackFor_eid: "ackFor g lastSN (r\<lparr>r_live := l\<rparr>) t = ackFor g lastSN r t"
  by (simp add: ackFor_def split: option.split bool.split)

lemma trackerFor_live [simp]: "trackerFor g (r\<lparr>r_live := l\<rparr>) = trackerFor g r"
  by (simp add: trackerFor_def)

interpretation hbt: reader_turns "heartbeatOne net now g hb addr" "\<lambda>r. True"
  "\<lambda>p r. hbAsks g hb p r \<and> missing (snToU64 (LastSN hb)) (hbTracker g hb r) = None"
  "\<lambda>p r r'. r' = hbAfter now g hb p r"
  "\<lambda>p r. if hbAsks g hb p r then ackOut net g addr p (ackFor g (snToU64 (LastSN hb)) r (hbTracker g hb r)) else []"
  for net now g hb addr
proof (unfold_locales, goal_cases)
  case (1 q eid r)
  then show ?case by (auto simp: heartbeatOne_def requestMissing_spec hbAsks_def hbTracker_def Let_def)
next
  case (2 q eid r q' outs)
  then show ?case
    by (auto simp: heartbeatOne_def requestMissing_spec hbAsks_def hbTracker_def hbAfter_def Let_def ackFor_eid
        same_rest_updReader [OF 2(1)] split: if_splits)
qed (simp_all add: hbAsks_def hbAfter_def ackOut_rest same_rest_sel fun_eq_iff)

definition dataAsks :: "GUID \<Rightarrow> 'r participant \<Rightarrow> rtpsReader \<Rightarrow> bool" where
  "dataAsks g p r \<longleftrightarrow> r_reliable r \<and> acceptsSource (ownPrefix p) g r"

definition dataTracker :: "GUID \<Rightarrow> SequenceNumber \<Rightarrow> rtpsReader \<Rightarrow> recvTracker" where
  "dataTracker g sn r = snd (record_seq (snToU64 sn) (trackerFor g r))"

interpretation dat: reader_turns "notifyOne net g sn addr" "\<lambda>r. True"
  "\<lambda>p r. dataAsks g p r \<and> missing (snToU64 sn) (dataTracker g sn r) = None"
  "\<lambda>p r r'. r' = (if dataAsks g p r then setTracker g (ackedTracker (snToU64 sn) (dataTracker g sn r)) r else r)"
  "\<lambda>p r. if dataAsks g p r then ackOut net g addr p (ackFor g (snToU64 sn) r (dataTracker g sn r)) else []"
  for net g sn addr
proof (unfold_locales, goal_cases)
  case (1 q eid r)
  then show ?case by (auto simp: notifyOne_def requestMissing_spec dataAsks_def dataTracker_def)
next
  case (2 q eid r q' outs)
  then show ?case
    by (auto simp: notifyOne_def requestMissing_spec dataAsks_def dataTracker_def
        same_rest_updReader [OF 2(1)] split: if_splits)
qed (simp_all add: dataAsks_def ackOut_rest same_rest_sel fun_eq_iff)

end
