(* ===== verification/Rtps_Writer.thy ===== *)
theory Rtps_Writer
  imports Rtps_Reader "HOL-Library.Signed_Division"
begin

text \<open>
  The publishing side of a participant (\<^verbatim>\<open>rtps/participant.go\<close>, \<^verbatim>\<open>rtps/persist.go\<close> and the
  assertion of liveliness of \<^verbatim>\<open>rtps/qos_enforce.go\<close>): writing a sample, the retransmission
  protocol (HEARTBEAT out, ACKNACK in, resent DATA and GAP out), draining and closing.

  A writer is addressed by its entity id in the participant's table, from which no operation
  removes it. \<open>Write\<close> returns \<open>None\<close> when the call panics or blocks on a full channel. What the
  operating system decides is collected in a record \<open>env\<close>.
\<close>

section \<open>Definitions\<close>

text \<open>
  \<open>envNet\<close> says which sends of the connection-oriented transports succeed, \<open>envNow\<close> is the
  wall clock, \<open>envTAI\<close> the TAI clock (\<open>None\<close> if it cannot be read), \<open>envCreate\<close> says which files
  can be created, \<open>envSocket\<close> whether another UDP socket can be opened.
\<close>

record env =
  envNet :: net
  envNow :: gotime
  envTAI :: "gotime option"
  envCreate :: "gostring \<Rightarrow> bool"
  envSocket :: bool

datatype rtpsError = ErrDds dds_error | ErrSeal | ErrCtx | ErrParse

definition updWriter :: "EntityId \<Rightarrow> rtpsWriter \<Rightarrow> 'r participant \<Rightarrow> 'r participant" where
  "updWriter eid w p = p\<lparr>writers := AList.update eid w (writers p)\<rparr>"

subsection \<open>Persistent history\<close>

text \<open>Files are named within the directory; \<^verbatim>\<open>/\<close>, \<^verbatim>\<open>\\<close> and \<^verbatim>\<open>:\<close> become underscores.\<close>

definition persistPath :: "topic \<Rightarrow> gostring" where
  "persistPath t =
     [0x74, 0x6F, 0x70, 0x69, 0x63, 0x2D]
     @ map (\<lambda>b. if b = 0x2F \<or> b = 0x5C \<or> b = 0x3A then 0x5F else b) t
     @ [0x2E, 0x62, 0x69, 0x6E]"

text \<open>
  Reads the 4-byte length and then as much of the payload as one \<^verbatim>\<open>Read\<close> gives; the rest of the
  buffer stays zero. \<open>None\<close> stands for an error or for persistence being off.
\<close>

definition persistLoad :: "topic \<Rightarrow> 'r participant \<Rightarrow> bytes option" where
  "persistLoad t p =
     (if \<not> persistDir (cfg p) then None
      else
        (case files p (persistPath t) of
           None \<Rightarrow> None
         | Some f \<Rightarrow>
             if length f < 4 then None
             else
               let n = unat (Uint32 f); rest = drop 4 f in
               if n > 64 * 1024 * 1024 then None
               else if n > 0 \<and> rest = [] then None
               else Some (take n rest @ replicate (n - length rest) 0)))"

definition persistFlush :: "(gostring \<Rightarrow> bool) \<Rightarrow> topic \<Rightarrow> bytes \<Rightarrow> 'r participant \<Rightarrow> 'r participant" where
  "persistFlush create t payload p =
     (if \<not> persistDir (cfg p) then p
      else if \<not> create (persistPath t) then p
      else p\<lparr>files := (files p)(persistPath t \<mapsto> PutUint32 (word_of_nat (length payload)) @ payload)\<rparr>)"

subsection \<open>Sockets\<close>

definition fragmentSize :: "rtpsWriter \<Rightarrow> int" where
  "fragmentSize w =
     (case tsnStream w of
        Some s \<Rightarrow> if MaxFragPayload s > 0 then MaxFragPayload s else maxFragmentPayload
      | None \<Rightarrow> maxFragmentPayload)"

definition sendSock :: "rtpsWriter \<Rightarrow> sockid" where
  "sendSock w = (case tsnSock w of Some k \<Rightarrow> TsnSock k | None \<Rightarrow> DataSock)"

text \<open>
  The traffic-class socket of a priority, opened on first use. Setting its priority, its type of
  service and its transmit-time option are best-effort calls on the socket.
\<close>

definition tsnSocketForPCP :: "bool \<Rightarrow> byte \<Rightarrow> 'r participant \<Rightarrow> byte option \<times> 'r participant" where
  "tsnSocketForPCP canOpen pcp p =
     (if pcp \<in> set (tsnSocks p) then (Some pcp, p)
      else if \<not> canOpen then (None, p)
      else (Some pcp, p\<lparr>tsnSocks := pcp # tsnSocks p\<rparr>))"

subsection \<open>Heartbeats and acknowledgements\<close>

definition sendHeartbeatLocked :: "net \<Rightarrow> EntityId \<Rightarrow> 'r participant \<Rightarrow> 'r participant \<times> out list" where
  "sendHeartbeatLocked net eid p =
     (case map_of (writers p) eid of
        None \<Rightarrow> (p, [])
      | Some w \<Rightarrow>
          (case firstLast (w_history w) of
             None \<Rightarrow> (p, [])
           | Some (first, lst) \<Rightarrow>
               let n = sh_hbCount (w_history w) + 1;
                   w1 = w\<lparr>w_history := (w_history w)\<lparr>sh_hbCount := n\<rparr>\<rparr>;
                   hb = \<lparr>hbReader = EntityIdUnknown, hbWriter = w_eid w, FirstSN = u64ToSN first,
                         LastSN = u64ToSN lst, hbCountField = n, Liveliness = False\<rparr>;
                   msg = wrapInRTPSMessage (ownPrefix p) (marshalHeartbeat hb)
               in (updWriter eid w1 p, sendToMatched net (sendSock w) msg (w_topic w) (w_partitions w) p)))"

text \<open>One tick of the heartbeat goroutine.\<close>

definition heartbeatTick :: "net \<Rightarrow> EntityId \<Rightarrow> 'r participant \<Rightarrow> 'r participant \<times> out list" where
  "heartbeatTick net eid p =
     (case map_of (writers p) eid of
        None \<Rightarrow> (p, [])
      | Some w \<Rightarrow> if hbRunning w \<and> \<not> w_closed w then sendHeartbeatLocked net eid p else (p, []))"

definition advanceAcked :: "uint64 \<Rightarrow> rtpsWriter \<Rightarrow> rtpsWriter" where
  "advanceAcked ackBase w =
     (if ackBase = 0 then w
      else
        let confirmed = ackBase - 1;
            w1 = (if confirmed > acked w then w\<lparr>acked := confirmed\<rparr> else w)
        in if drainCh w1 \<noteq> None \<and> acked w1 \<ge> w_seq w1 then w1\<lparr>drainCh := Some True\<rparr> else w1)"

text \<open>What \<^verbatim>\<open>waitDrain\<close> does in a state: it returns, or it waits for the drain channel or the context.\<close>

datatype drain_result = Drained | DrainErr | DrainBlocked

definition waitDrain :: "bool \<Rightarrow> rtpsWriter \<Rightarrow> drain_result" where
  "waitDrain ctxDone w =
     (case drainCh w of
        None \<Rightarrow> Drained
      | Some chClosed' \<Rightarrow>
          if acked w \<ge> w_seq w then Drained
          else if chClosed' then Drained
          else if ctxDone then DrainErr
          else DrainBlocked)"

definition resendRequested :: "net \<Rightarrow> AckNack \<Rightarrow> rtpsWriter \<Rightarrow> 'r participant \<Rightarrow> out list" where
  "resendRequested net an w p =
     concat (map (\<lambda>b. if \<not> bit (Bitmap an) b then []
                      else
                        (case get (w_history w) (snToU64 (Base an) + word_of_nat b) of
                           None \<Rightarrow> []
                         | Some msg \<Rightarrow> sendToMatched net DataSock msg (w_topic w) (w_partitions w) p))
               [0..<32])"

definition sendGap :: "net \<Rightarrow> AckNack \<Rightarrow> UDPAddr \<Rightarrow> rtpsWriter \<Rightarrow> 'r participant \<Rightarrow> out list" where
  "sendGap net an from w p =
     (let ackBase = snToU64 (Base an) in
      case firstLast (w_history w) of
        None \<Rightarrow> []
      | Some (histFirst, _) \<Rightarrow>
          if \<not> ackBase < histFirst then []
          else
            let maxBit = ackBase + 31;
                gapEnd = (if histFirst - 1 > maxBit then maxBit else histFirst - 1);
                g = \<lparr>gapReader = anReader an, gapWriter = anWriter an, GapStart = u64ToSN ackBase,
                     GapEnd = u64ToSN gapEnd\<rparr>;
                gapMsg = wrapInRTPSMessage (ownPrefix p) (marshalGAP g)
            in sendUnicast net DataSock from zeroPrefix gapMsg True p
               # sendToMatched net DataSock gapMsg (w_topic w) (w_partitions w) p)"

definition handleAckNack :: "net \<Rightarrow> AckNack \<Rightarrow> UDPAddr \<Rightarrow> 'r participant \<Rightarrow> 'r participant \<times> out list" where
  "handleAckNack net an from p =
     (case map_of (writers p) (anWriter an) of
        None \<Rightarrow> (p, [])
      | Some w \<Rightarrow>
          if \<not> w_reliable w then (p, [])
          else
            let w1 = advanceAcked (snToU64 (Base an)) w;
                p1 = updWriter (anWriter an) w1 p
            in (p1, resendRequested net an w1 p1 @ sendGap net an from w1 p1))"

subsection \<open>Writing\<close>

definition countWrite :: "topic \<Rightarrow> nat \<Rightarrow> 'r participant \<Rightarrow> 'r participant" where
  "countWrite t n p =
     updTopicCounter t (\<lambda>c. c\<lparr>writes := writes c + 1, bytesW := bytesW c + word_of_nat n\<rparr>)
       (p\<lparr>metrics := (metrics p)\<lparr>WriteCount := WriteCount (metrics p) + 1,
                                 BytesWritten := BytesWritten (metrics p) + word_of_nat n\<rparr>\<rparr>)"

definition sealPayload :: "bytes \<Rightarrow> 'r participant \<Rightarrow> bytes option" where
  "sealPayload payload p = (case security (cfg p) of None \<Rightarrow> Some payload | Some s \<Rightarrow> Seal s payload)"

text \<open>The messages that carry a payload: one DATA, or a DATA\_FRAG each.\<close>

definition writeMsgs :: "GuidPrefix \<Rightarrow> gotime \<Rightarrow> rtpsWriter \<Rightarrow> bytes \<Rightarrow> bytes list option" where
  "writeMsgs prefix now w wirePayload =
     (let wrapped = cdrWrapPayload wirePayload;
          seqNum = u64ToSN (w_seq w)
      in if int (length wrapped) > fragmentSize w then
           map_option (map (\<lambda>frag. wrapInRTPSMessage prefix (marshalInfoTS now @ marshalDataFrag frag)))
             (splitIntoFragmentsN (w_eid w) seqNum wrapped (fragmentSize w))
         else
           Some [wrapInRTPSMessage prefix
                   (marshalInfoTS now @ marshalDataSubmessage (w_eid w) EntityIdUnknown seqNum wrapped)])"

text \<open>Storing a message takes the first of the list; indexing the empty list would panic.\<close>

definition storeFirst :: "bytes list \<Rightarrow> rtpsWriter \<Rightarrow> rtpsWriter option" where
  "storeFirst msgs w =
     (if \<not> w_reliable w then Some w
      else (case msgs of [] \<Rightarrow> None | m # _ \<Rightarrow> Some (w\<lparr>w_history := store (w_seq w) m (w_history w)\<rparr>)))"

text \<open>The scheduled transmit time: the next interval boundary plus the offset, or 0 for none.\<close>

definition txTimeNS :: "gotime option \<Rightarrow> rtpsWriter \<Rightarrow> uint64" where
  "txTimeNS tai w =
     (case tsnStream w of
        None \<Rightarrow> 0
      | Some s \<Rightarrow>
          if TxOffset s > 0 then
            (case tai of
               None \<Rightarrow> 0
             | Some taiNow \<Rightarrow>
                 if Interval s > 0
                 then word_of_int (taiNow + (Interval s - taiNow smod Interval s) + TxOffset s)
                 else 0)
          else 0)"

definition useMulticast :: "rtpsWriter \<Rightarrow> readerLocator list \<Rightarrow> 'r participant \<Rightarrow> bool" where
  "useMulticast w locs p \<longleftrightarrow>
     locs \<noteq> [] \<and> dataMcastSock (cfg p) \<and> tsnSock w = None
     \<and> list_all (\<lambda>lm. \<not> (relaySock (cfg p) \<noteq> None \<and> relayIDForPrefix (rlPrefix lm) p \<noteq> []
                          \<or> ContentFilters lm \<noteq> [])) locs"

definition transmit :: "env \<Rightarrow> rtpsWriter \<Rightarrow> bytes \<Rightarrow> bytes list \<Rightarrow> 'r participant \<Rightarrow> out list" where
  "transmit env w payload msgs p =
     (let locs = matchedReaderLocators (w_topic w) (w_partitions w) p;
          tx = txTimeNS (envTAI env) w
      in if useMulticast w locs p then
           map (UdpSend DataSock \<lparr>udpIP = userDataMulticastAddr, udpPort = userMulticastPort (domain (cfg p))\<rparr>) msgs
         else
           concat (map (\<lambda>lm.
             if \<not> matches lm payload then []
             else
               (case udpAddr (Loc lm) of
                  None \<Rightarrow> []
                | Some dst \<Rightarrow>
                    map (\<lambda>msg. if tx > 0 then TxTimeSend (sendSock w) dst msg tx
                               else sendUnicast (envNet env) (sendSock w) dst (rlPrefix lm) msg (w_reliable w) p)
                      msgs)) locs))"

definition rearmDeadline :: "gotime \<Rightarrow> rtpsWriter \<Rightarrow> rtpsWriter" where
  "rearmDeadline now w =
     (if w_deadlineTimer w \<noteq> None then w\<lparr>w_deadlineTimer := Some (Some (now + Deadline (w_qos w)))\<rparr> else w)"

text \<open>The part of \<^verbatim>\<open>Write\<close> after the payload has been sealed.\<close>

definition publish ::
  "env \<Rightarrow> EntityId \<Rightarrow> rtpsWriter \<Rightarrow> bytes \<Rightarrow> bytes \<Rightarrow> 'r participant \<Rightarrow> ('r participant \<times> out list) option"
where
  "publish env eid w payload wirePayload p =
     (case writeMsgs (ownPrefix p) (envNow env) w wirePayload of
        None \<Rightarrow> None
      | Some msgs \<Rightarrow>
          (case storeFirst msgs w of
             None \<Rightarrow> None
           | Some w1 \<Rightarrow>
               let now = envNow env;
                   sample = \<lparr>Topic = w_topic w, Payload = payload, Timestamp = now, SampleSeq = 0,
                             WriterGUID = replicate 16 0\<rparr>;
                   p1 = updWriter eid w1 p;
                   p2 = p1\<lparr>lastSample := (lastSample p1)(w_topic w \<mapsto> sample)\<rparr>;
                   p3 = persistFlush (envCreate env) (w_topic w) payload p2
               in
               (case dispatchToReaders now (GUID (ownPrefix p) (w_eid w)) (w_topic w) payload now (w_seq w)
                       (w_partitions w) p3 of
                  None \<Rightarrow> None
                | Some p4 \<Rightarrow>
                    let outs = transmit env w1 payload msgs p4 in
                    if w_reliable w then
                      let (p5, hbs) = sendHeartbeatLocked (envNet env) eid p4 in Some (p5, outs @ hbs)
                    else Some (p4, outs))))"

definition Write ::
  "env \<Rightarrow> EntityId \<Rightarrow> bytes \<Rightarrow> 'r participant \<Rightarrow> (rtpsError option \<times> 'r participant \<times> out list) option"
where
  "Write env eid payload p =
     (case map_of (writers p) eid of
        None \<Rightarrow> None
      | Some w \<Rightarrow>
          if w_closed w then Some (Some (ErrDds ErrClosed), p, [])
          else if MaxSampleSize (w_qos w) > 0 \<and> int (length payload) > MaxSampleSize (w_qos w)
            then Some (Some (ErrDds ErrPayloadTooLarge), p, [])
          else
            let w1 = (rearmDeadline (envNow env) w)\<lparr>w_seq := w_seq w + 1\<rparr>;
                p1 = updWriter eid w1 (countWrite (w_topic w) (length payload) p)
            in
            (case sealPayload payload p of
               None \<Rightarrow> Some (Some ErrSeal, p1, [])
             | Some wirePayload \<Rightarrow>
                 map_option (\<lambda>(p2, outs). (None, p2, outs)) (publish env eid w1 payload wirePayload p1)))"

definition WriteCtx ::
  "bool \<Rightarrow> env \<Rightarrow> EntityId \<Rightarrow> bytes \<Rightarrow> 'r participant \<Rightarrow> (rtpsError option \<times> 'r participant \<times> out list) option"
where
  "WriteCtx ctxDone env eid payload p =
     (if ctxDone then Some (Some ErrCtx, p, []) else Write env eid payload p)"

subsection \<open>Liveliness and closing\<close>

definition assertLiveliness :: "net \<Rightarrow> gotime \<Rightarrow> EntityId \<Rightarrow> 'r participant \<Rightarrow> 'r participant \<times> out list" where
  "assertLiveliness net now eid p =
     (case map_of (writers p) eid of
        None \<Rightarrow> (p, [])
      | Some w \<Rightarrow>
          if w_closed w then (p, [])
          else
            let writerGUID = GUID (ownPrefix p) (w_eid w);
                n = livelinessSeq w + 1;
                hb = \<lparr>hbReader = EntityIdUnknown, hbWriter = w_eid w, FirstSN = \<lparr>High = 0, Low = 0\<rparr>,
                      LastSN = \<lparr>High = 0, Low = 0\<rparr>, hbCountField = n, Liveliness = True\<rparr>;
                msg = wrapInRTPSMessage (ownPrefix p) (marshalHeartbeat hb);
                p1 = updWriter eid (w\<lparr>livelinessSeq := n\<rparr>) p
            in (p1\<lparr>readers := map (\<lambda>(k, r).
                    (k, if r_topic r = w_topic w \<and> partitionsMatch (w_partitions w) (r_partitions r)
                        then r\<lparr>r_live := touchLiveliness now writerGUID (r_live r)\<rparr> else r)) (readers p1)\<rparr>,
                sendToMatched net (sendSock w) msg (w_topic w) (w_partitions w) p))"

text \<open>One tick of the liveliness goroutine.\<close>

definition livelinessTick :: "net \<Rightarrow> gotime \<Rightarrow> EntityId \<Rightarrow> 'r participant \<Rightarrow> 'r participant \<times> out list" where
  "livelinessTick net now eid p =
     (case map_of (writers p) eid of
        None \<Rightarrow> (p, [])
      | Some w \<Rightarrow> if livelinessRunning w then assertLiveliness net now eid p else (p, []))"

definition writerClose :: "EntityId \<Rightarrow> 'r participant \<Rightarrow> 'r participant" where
  "writerClose eid p =
     (case map_of (writers p) eid of
        None \<Rightarrow> p
      | Some w \<Rightarrow>
          if w_closed w then p
          else
            let w1 = w\<lparr>w_closed := True, hbRunning := False, livelinessRunning := False, w_deadlineTimer := None\<rparr>;
                p1 = updWriter eid w1 p;
                g = GUID (ownPrefix p) (w_eid w);
                om = ownership p
            in if ownershipRegistered w
               then p1\<lparr>ownership := om(w_topic w \<mapsto> unregister g (ownershipStateFor (w_topic w) om))\<rparr>
               else p1)"

section \<open>What a write sends\<close>

lemma writers_updWriter [simp]:
  "map_of (writers (updWriter eid w p)) k = (if k = eid then Some w else map_of (writers p) k)"
  by (simp add: updWriter_def update_conv')

lemma updWriter_sel [simp]:
  "cfg (updWriter eid w p) = cfg p" "spdp (updWriter eid w p) = spdp p" "sedp (updWriter eid w p) = sedp p"
  "wsConns (updWriter eid w p) = wsConns p" "readers (updWriter eid w p) = readers p"
  "ownership (updWriter eid w p) = ownership p" "metrics (updWriter eid w p) = metrics p"
  "topicMetrics (updWriter eid w p) = topicMetrics p" "p_closed (updWriter eid w p) = p_closed p"
  "lastSample (updWriter eid w p) = lastSample p" "files (updWriter eid w p) = files p"
  "antiReplay (updWriter eid w p) = antiReplay p" "entityCounter (updWriter eid w p) = entityCounter p"
  by (simp_all add: updWriter_def)

lemma countWrite_sel [simp]:
  "cfg (countWrite t n p) = cfg p" "spdp (countWrite t n p) = spdp p" "sedp (countWrite t n p) = sedp p"
  "wsConns (countWrite t n p) = wsConns p" "readers (countWrite t n p) = readers p"
  "writers (countWrite t n p) = writers p" "ownership (countWrite t n p) = ownership p"
  by (simp_all add: countWrite_def updTopicCounter_def)

lemma persistFlush_sel [simp]:
  "cfg (persistFlush c t x p) = cfg p" "spdp (persistFlush c t x p) = spdp p" "sedp (persistFlush c t x p) = sedp p"
  "wsConns (persistFlush c t x p) = wsConns p" "readers (persistFlush c t x p) = readers p"
  "writers (persistFlush c t x p) = writers p" "ownership (persistFlush c t x p) = ownership p"
  by (simp_all add: persistFlush_def)

lemma sendHeartbeat_sel [simp]:
  "cfg (fst (sendHeartbeatLocked net eid p)) = cfg p" "spdp (fst (sendHeartbeatLocked net eid p)) = spdp p"
  "sedp (fst (sendHeartbeatLocked net eid p)) = sedp p" "wsConns (fst (sendHeartbeatLocked net eid p)) = wsConns p"
  "readers (fst (sendHeartbeatLocked net eid p)) = readers p"
  by (auto simp: sendHeartbeatLocked_def Let_def split: option.split prod.split)

lemma matchedReaderLocators_cong:
  "sedp q = sedp p \<Longrightarrow> matchedReaderLocators t parts q = matchedReaderLocators t parts p"
  by (simp add: matchedReaderLocators_def)

text \<open>A message handed to a transport for one matched reader: multicast, at a scheduled time, or unicast.\<close>

definition sentTo :: "env \<Rightarrow> rtpsWriter \<Rightarrow> readerLocator \<Rightarrow> UDPAddr \<Rightarrow> bytes \<Rightarrow> 'r participant \<Rightarrow> out list \<Rightarrow> bool" where
  "sentTo env w lm dst msg p outs \<longleftrightarrow>
     UdpSend DataSock \<lparr>udpIP = userDataMulticastAddr, udpPort = userMulticastPort (domain (cfg p))\<rparr> msg \<in> set outs
     \<or> TxTimeSend (sendSock w) dst msg (txTimeNS (envTAI env) w) \<in> set outs
     \<or> sendUnicast (envNet env) (sendSock w) dst (rlPrefix lm) msg (w_reliable w) p \<in> set outs"

lemma transmit_sends:
  assumes "lm \<in> set (matchedReaderLocators (w_topic w) (w_partitions w) p)" "udpAddr (Loc lm) = Some dst"
    "matches lm payload" "msg \<in> set msgs"
  shows "sentTo env w lm dst msg p (transmit env w payload msgs p)"
proof (cases "useMulticast w (matchedReaderLocators (w_topic w) (w_partitions w) p) p")
  case True
  then show ?thesis using assms(4) by (auto simp: sentTo_def transmit_def Let_def)
next
  case False
  let ?snd = "if txTimeNS (envTAI env) w > 0 then TxTimeSend (sendSock w) dst msg (txTimeNS (envTAI env) w)
    else sendUnicast (envNet env) (sendSock w) dst (rlPrefix lm) msg (w_reliable w) p"
  have "?snd \<in> set (transmit env w payload msgs p)"
    unfolding transmit_def Let_def if_not_P [OF False] set_concat set_map
    by (rule UN_I, rule imageI, rule assms(1)) (use assms(2-4) in auto)
  then show ?thesis by (auto simp: sentTo_def split: if_splits)
qed

lemma rearmDeadline_sel [simp]:
  "w_topic (rearmDeadline now w) = w_topic w" "w_partitions (rearmDeadline now w) = w_partitions w"
  "w_eid (rearmDeadline now w) = w_eid w" "w_reliable (rearmDeadline now w) = w_reliable w"
  "tsnSock (rearmDeadline now w) = tsnSock w" "tsnStream (rearmDeadline now w) = tsnStream w"
  "w_history (rearmDeadline now w) = w_history w" "w_qos (rearmDeadline now w) = w_qos w"
  "w_closed (rearmDeadline now w) = w_closed w" "acked (rearmDeadline now w) = acked w"
  "drainCh (rearmDeadline now w) = drainCh w"
  by (simp_all add: rearmDeadline_def)

lemma storeFirst_sel:
  assumes "storeFirst msgs w = Some w1"
  shows "w_topic w1 = w_topic w" "w_partitions w1 = w_partitions w" "sendSock w1 = sendSock w"
    "w_reliable w1 = w_reliable w" "txTimeNS tai w1 = txTimeNS tai w" "w_eid w1 = w_eid w"
  using assms by (auto simp: storeFirst_def sendSock_def txTimeNS_def split: if_splits list.splits)

lemma publish_sends:
  assumes "publish env eid w payload wire p = Some (p', outs)" and "writeMsgs (ownPrefix p) (envNow env) w wire = Some msgs"
    and "lm \<in> set (matchedReaderLocators (w_topic w) (w_partitions w) p)" "udpAddr (Loc lm) = Some dst"
    "matches lm payload" "msg \<in> set msgs"
  shows "sentTo env w lm dst msg p outs"
proof -
  obtain w1 where w1: "storeFirst msgs w = Some w1"
    using assms(1,2) by (auto simp: publish_def split: option.splits)
  define p3 where "p3 = persistFlush (envCreate env) (w_topic w) payload ((updWriter eid w1 p)\<lparr>lastSample :=
    (lastSample p)(w_topic w \<mapsto> \<lparr>Topic = w_topic w, Payload = payload, Timestamp = envNow env,
       SampleSeq = 0, WriterGUID = replicate 16 0\<rparr>)\<rparr>)"
  have p3: "cfg p3 = cfg p" "spdp p3 = spdp p" "wsConns p3 = wsConns p" "sedp p3 = sedp p" by (simp_all add: p3_def)
  obtain p4 where d: "dispatchToReaders (envNow env) (GUID (ownPrefix p) (w_eid w)) (w_topic w) payload (envNow env)
      (w_seq w) (w_partitions w) p3 = Some p4"
    and outs: "set (transmit env w1 payload msgs p4) \<subseteq> set outs"
    using assms(1,2) w1 by (auto simp: publish_def p3_def [symmetric] Let_def split: option.splits if_splits prod.splits)
  have "same_rest p3 p4" by (rule dispatch_rest [OF d])
  then have e: "cfg p4 = cfg p" "spdp p4 = spdp p" "wsConns p4 = wsConns p" "sedp p4 = sedp p"
    by (simp_all add: same_rest_sel p3)
  have "sentTo env w1 lm dst msg p4 (transmit env w1 payload msgs p4)"
    using transmit_sends [of lm w1 p4 dst payload msg msgs env] assms(3-6)
    by (simp add: storeFirst_sel [OF w1] matchedReaderLocators_cong [OF e(4)])
  then have "sentTo env w1 lm dst msg p4 outs" using outs by (auto simp: sentTo_def)
  then show ?thesis by (simp add: sentTo_def storeFirst_sel [OF w1] e sendUnicast_cong [OF e(1-3)])
qed

section \<open>Repair\<close>

lemma sendToMatched_cong:
  assumes "cfg q = cfg p" "spdp q = spdp p" "wsConns q = wsConns p" "sedp q = sedp p"
  shows "sendToMatched net sk msg t parts q = sendToMatched net sk msg t parts p"
  unfolding sendToMatched_def matchedReaderLocators_cong [OF assms(4)] sendUnicast_cong [OF assms(1-3)] by (rule refl)

lemma advanceAcked_sel [simp]:
  "w_history (advanceAcked b w) = w_history w" "w_topic (advanceAcked b w) = w_topic w"
  "w_partitions (advanceAcked b w) = w_partitions w" "w_seq (advanceAcked b w) = w_seq w"
  "w_reliable (advanceAcked b w) = w_reliable w"
  by (simp_all add: advanceAcked_def Let_def)

text \<open>The requested sequence numbers that the history still holds, and the evicted ones, as declared.\<close>

definition answerable :: "AckNack \<Rightarrow> nat \<Rightarrow> bytes list \<Rightarrow> nat list" where
  "answerable an a ms =
     filter (\<lambda>n. bit (Bitmap an) (n - unat (snToU64 (Base an))) \<and> a \<le> n \<and> n < a + length ms)
       [unat (snToU64 (Base an))..<unat (snToU64 (Base an)) + 32]"

definition evictedGap :: "AckNack \<Rightarrow> nat \<Rightarrow> Gap" where
  "evictedGap an a =
     \<lparr>gapReader = anReader an, gapWriter = anWriter an, GapStart = Base an,
      GapEnd = u64ToSN (of_nat (min (a - 1) (unat (snToU64 (Base an)) + 31)))\<rparr>"

lemma resendRequested_exact:
  assumes "hist_rep (w_history w) a ms" and "unat (snToU64 (Base an)) + 31 < 2 ^ 64"
  shows "resendRequested net an w p =
     concat (map (\<lambda>n. sendToMatched net DataSock (ms ! (n - a)) (w_topic w) (w_partitions w) p) (answerable an a ms))"
proof -
  define b where "b = unat (snToU64 (Base an))"
  have u: "unat (snToU64 (Base an) + word_of_nat n) = b + n" if "n < 32" for n
    using that assms(2) by (simp add: b_def unat_plus_if' unat_of_nat64)
  let ?s = "\<lambda>n. sendToMatched net DataSock (ms ! (n - a)) (w_topic w) (w_partitions w) p"
  let ?P = "\<lambda>n. bit (Bitmap an) (n - b) \<and> a \<le> n \<and> n < a + length ms"
  have "resendRequested net an w p = concat (map (\<lambda>n. if ?P (b + n) then ?s (b + n) else []) [0..<32])"
    unfolding resendRequested_def
    by (rule arg_cong [where f = concat], rule map_cong)
      (auto simp: get_hist_rep [OF assms(1)] u split: option.splits)
  also have "\<dots> = concat (map (\<lambda>n. if ?P n then ?s n else []) (map (\<lambda>n. b + n) [0..<32]))"
    by (simp only: map_map comp_def)
  also have "map (\<lambda>n. b + n) [0..<32] = [b..<b + 32]"
    using map_add_upt [of b 32] by (simp only: add.commute)
  also have "concat (map (\<lambda>n. if ?P n then ?s n else []) ns) = concat (map ?s (filter ?P ns))" for ns
    by (induction ns) auto
  finally show ?thesis by (simp only: answerable_def b_def)
qed

lemma sendGap_exact:
  assumes "hist_rep (w_history w) a ms" and "unat (snToU64 (Base an)) + 31 < 2 ^ 64"
  shows "sendGap net an from w p =
     (if ms \<noteq> [] \<and> unat (snToU64 (Base an)) < a then
        let msg = wrapInRTPSMessage (ownPrefix p) (marshalGAP (evictedGap an a))
        in sendUnicast net DataSock from zeroPrefix msg True p
           # sendToMatched net DataSock msg (w_topic w) (w_partitions w) p
      else [])"
proof (cases "ms = []")
  case True
  then show ?thesis using assms(1) by (simp add: sendGap_def firstLast_def hist_rep_def)
next
  case False
  have fl: "firstLast (w_history w) = Some (of_nat a, of_nat (a + length ms - 1))"
    using assms(1) False by (simp add: hist_rep_def firstLast_def)
  have a64: "a < 2 ^ 64" using assms(1) False by (cases ms) (auto simp: hist_rep_def)
  define b where "b = snToU64 (Base an)"
  have lt: "b < of_nat a \<longleftrightarrow> unat b < a" using a64 by (simp add: word_less_nat_alt unat_of_nat64)
  have ge: "(if of_nat a - 1 > b + 31 then b + 31 else of_nat a - 1) = (of_nat (min (a - 1) (unat b + 31)) :: uint64)"
    if "unat b < a"
  proof -
    have a1: "(of_nat a - 1 :: uint64) = of_nat (a - 1)" using that by (cases a) simp_all
    have b31: "b + 31 = of_nat (unat b + 31)" by simp
    have "unat (of_nat (a - 1) :: uint64) = a - 1" using a64 by (simp add: unat_of_nat64)
    moreover have "unat (of_nat (unat b + 31) :: uint64) = unat b + 31"
      using assms(2) by (intro unat_of_nat64) (simp add: b_def)
    ultimately show ?thesis unfolding a1 b31 word_less_nat_alt by (simp add: min_def)
  qed
  have base: "u64ToSN b = Base an" by (simp add: b_def)
  show ?thesis
  proof (cases "unat b < a")
    case True
    show ?thesis
      using False by (simp only: sendGap_def Let_def b_def [symmetric] fl option.case prod.case lt True ge [OF True]
          simp_thms if_True if_False evictedGap_def base)
  next
    case outside: False
    then show ?thesis using lt fl by (simp add: sendGap_def b_def [symmetric])
  qed
qed


definition exWriter :: "bool \<Rightarrow> sendHistory \<Rightarrow> uint64 \<Rightarrow> rtpsWriter" where
  "exWriter rel h sq =
     \<lparr>w_topic = [97], w_eid = [0, 0, 1, 3], w_qos = DefaultQoS, w_closed = False, w_seq = sq, acked = 0,
      w_reliable = rel, w_history = h, hbRunning = rel, drainCh = (if rel then Some False else None),
      w_deadlineTimer = None, hbPeriod = heartbeatPeriod, tsnStream = None, tsnSock = None, w_partitions = [],
      ownershipRegistered = False, livelinessRunning = False, livelinessSeq = 0\<rparr>"

definition exPub :: "rtpsWriter \<Rightarrow> unit participant" where
  "exPub w = exMatched\<lparr>writers := [([0, 0, 1, 3], w)]\<rparr>"

lemma exPub_sel [simp]: "map_of (writers (exPub w)) k = (if k = [0, 0, 1, 3] then Some w else None)"
  by (simp add: exPub_def)

lemma exHistory_rep: "hist_rep (store 1 m newSendHistory) 1 [m]"
proof -
  have "hist_rep newSendHistory 1 []" by (rule sendhist.rep_fresh) simp
  from hist_rep_store [OF this, of m] show ?thesis by (simp add: maxHistoryDepth_def)
qed


end
