(* ===== verification/Rtps_Participant.thy ===== *)
theory Rtps_Participant
  imports Rtps_Spdp Rtps_Writer
begin

text \<open>
  The participant itself (\<^verbatim>\<open>rtps/participant.go\<close>): routing of received packets to the discovery
  services and the endpoints, creation of publishers and subscribers, metrics, health and
  shutdown. It composes the writer, reader and discovery theories.
\<close>

section \<open>Definitions\<close>

subsection \<open>User data\<close>

text \<open>
  The callback of \<^verbatim>\<open>handleDataPacket\<close>. Its state is the pending timestamp, the participant and
  the outputs so far; \<open>None\<close> once a handler has not returned.
\<close>

type_synonym 'r dataState = "(gotime \<times> 'r participant \<times> out list) option"

definition openPayload :: "bytes \<Rightarrow> 'r participant \<Rightarrow> bytes option" where
  "openPayload raw p = (case security (cfg p) of None \<Rightarrow> Some raw | Some s \<Rightarrow> Open s raw)"

definition replayCheck :: "uint64 \<Rightarrow> gotime \<Rightarrow> 'r participant \<Rightarrow> bool \<times> 'r participant" where
  "replayCheck seq ts p =
     (case antiReplay p of
        None \<Rightarrow> (True, p)
      | Some (st, check) \<Rightarrow> let (ok, st') = check seq ts st in (ok, p\<lparr>antiReplay := Some (st', check)\<rparr>))"

definition handleData ::
  "net \<Rightarrow> gotime \<Rightarrow> GuidPrefix \<Rightarrow> UDPAddr \<Rightarrow> bytes \<Rightarrow> gotime \<Rightarrow> 'r participant \<Rightarrow> ('r participant \<times> out list) option"
where
  "handleData net now prefix from body ts p =
     (case parseDataSubmessage (flagEndianness OR flagData) body of
        None \<Rightarrow> Some (p, [])
      | Some ds \<Rightarrow>
          (case dsPayload ds of
             None \<Rightarrow> Some (p, [])
           | Some pl \<Rightarrow>
               (case cdrUnwrapPayload pl of
                  None \<Rightarrow> Some (p, [])
                | Some raw \<Rightarrow>
                    (case openPayload raw p of
                       None \<Rightarrow> Some (p, [])
                     | Some payload \<Rightarrow>
                         let (fresh, p1) = replayCheck (snToU64 (dsSeqNum ds)) ts p in
                         if \<not> fresh then Some (p1, [])
                         else
                           let source = GUID prefix (dsWriter ds) in
                           (case notifyReliableReaders net source (dsSeqNum ds) from p1 of
                              None \<Rightarrow> None
                            | Some (p2, outs) \<Rightarrow>
                                map_option (\<lambda>p3. (p3, outs))
                                  (dispatchToReaders now source [] payload ts (ucast (Low (dsSeqNum ds))) [] p2))))))"

definition dataSubmsg ::
  "net \<Rightarrow> gotime \<Rightarrow> GuidPrefix \<Rightarrow> UDPAddr \<Rightarrow> byte \<Rightarrow> byte \<Rightarrow> bytes \<Rightarrow> 'r dataState \<Rightarrow> 'r dataState \<times> unit option"
where
  "dataSubmsg net now prefix from sid flags body st =
     ((case st of
         None \<Rightarrow> None
       | Some (ts, p, outs) \<Rightarrow>
           if sid = submsgINFO_TS then
             (case parseInfoTS now body of Some ts' \<Rightarrow> Some (ts', p, outs) | None \<Rightarrow> Some (ts, p, outs))
           else if sid = submsgDATA then
             map_option (\<lambda>(p1, o1). (ts, p1, outs @ o1)) (handleData net now prefix from body ts p)
           else if sid = submsgHEARTBEAT then
             (case parseHeartbeat body of
                None \<Rightarrow> Some (ts, p, outs)
              | Some hb0 \<Rightarrow>
                  let hb = hb0\<lparr>Liveliness := (flags AND hbFlagLiveliness \<noteq> 0)\<rparr> in
                  map_option (\<lambda>(p1, o1). (ts, p1, outs @ o1))
                    (handleHeartbeat net now (GUID prefix (hbWriter hb)) hb from p))
           else if sid = submsgACKNACK then
             (case parseAckNack body of
                None \<Rightarrow> Some (ts, p, outs)
              | Some an \<Rightarrow> let (p1, o1) = handleAckNack net an from p in Some (ts, p1, outs @ o1))
           else Some (ts, p, outs)), None)"

definition handleDataPacket ::
  "net \<Rightarrow> gotime \<Rightarrow> bytes \<Rightarrow> UDPAddr \<Rightarrow> 'r participant \<Rightarrow> ('r participant \<times> out list) option"
where
  "handleDataPacket net now data from p =
     (case parseHeader data of
        None \<Rightarrow> Some (p, [])
      | Some hdr \<Rightarrow>
          if hdrPrefix hdr = ownPrefix p then Some (p, [])
          else map_option snd
                 (fst (parseSubmessages (dataSubmsg net now (hdrPrefix hdr) from) (drop 20 data)
                         (Some (zeroTime, p, [])))))"

subsection \<open>Packets of the connection-oriented transports\<close>

text \<open>\<open>parse\<close> is the compiler of content filter expressions.\<close>

definition tcpSubmsg ::
  "(gostring \<Rightarrow> gostring list \<Rightarrow> (bytes \<Rightarrow> bool) option) \<Rightarrow> net \<Rightarrow> gotime \<Rightarrow> bytes \<Rightarrow> UDPAddr
   \<Rightarrow> byte \<Rightarrow> byte \<Rightarrow> bytes \<Rightarrow> bool \<times> ('r participant \<times> out list) option
   \<Rightarrow> (bool \<times> ('r participant \<times> out list) option) \<times> unit option"
where
  "tcpSubmsg parse net now data from sid flags body s =
     (case s of
        (routed, None) \<Rightarrow> (s, None)
      | (routed, Some (p, outs)) \<Rightarrow>
          ((if routed then s
            else if sid = submsgDATA then
              (case parseDataSubmessage (flagEndianness OR flagData) body of
                 None \<Rightarrow> s
               | Some ds \<Rightarrow>
                   (True,
                    if dsWriter ds = EntityIdSPDPWriter then
                      (let (p1, o1) = spdpHandlePacket net now data from p in Some (p1, outs @ o1))
                    else if dsWriter ds = EntityIdSEDPPubWriter \<or> dsWriter ds = EntityIdSEDPSubWriter then
                      Some (sedpHandlePacket parse now data from p, outs)
                    else map_option (\<lambda>(p1, o1). (p1, outs @ o1)) (handleDataPacket net now data from p)))
            else if sid = submsgHEARTBEAT \<or> sid = submsgACKNACK then
              (True, map_option (\<lambda>(p1, o1). (p1, outs @ o1)) (handleDataPacket net now data from p))
            else s), None))"

definition dispatchTCPPacket ::
  "(gostring \<Rightarrow> gostring list \<Rightarrow> (bytes \<Rightarrow> bool) option) \<Rightarrow> net \<Rightarrow> gotime \<Rightarrow> bytes \<Rightarrow> UDPAddr
   \<Rightarrow> 'r participant \<Rightarrow> ('r participant \<times> out list) option"
where
  "dispatchTCPPacket parse net now data from p =
     (case parseHeader data of
        None \<Rightarrow> Some (p, [])
      | Some hdr \<Rightarrow>
          if hdrPrefix hdr = ownPrefix p then Some (p, [])
          else snd (fst (parseSubmessages (tcpSubmsg parse net now data from) (drop 20 data)
                           (False, Some (p, [])))))"

text \<open>The reply to the first packet a WebSocket peer sends.\<close>

definition wsReplyToNewWSPeer :: "bytes \<Rightarrow> string \<Rightarrow> 'r participant \<Rightarrow> 'r participant \<times> out list" where
  "wsReplyToNewWSPeer data from p =
     (case parseHeader data of
        None \<Rightarrow> (p, [])
      | Some hdr \<Rightarrow>
          if hdrPrefix hdr = ownPrefix p then (p, [])
          else if peerByPrefix (hdrPrefix hdr) (spdp p) \<noteq> None then (p, [])
          else let (msg, p1) = buildAnnouncementMessage p in (p1, [WsSend from msg]))"

text \<open>Relay ids: the lower-case hexadecimal form of a GUID prefix; decoding accepts both cases.\<close>

definition asciiBytes :: "string \<Rightarrow> gostring" where
  "asciiBytes = map of_char"

definition relayIDFromGuidPrefix :: "GuidPrefix \<Rightarrow> gostring" where
  "relayIDFromGuidPrefix prefix = asciiBytes (EncodeToString prefix)"

definition guidPrefixFromRelayID :: "gostring \<Rightarrow> GuidPrefix option" where
  "guidPrefixFromRelayID rid =
     (case DecodeString (topicString rid) of Some b \<Rightarrow> if length b = 12 then Some b else None | None \<Rightarrow> None)"

definition dispatchRelayPacket ::
  "(gostring \<Rightarrow> gostring list \<Rightarrow> (bytes \<Rightarrow> bool) option) \<Rightarrow> net \<Rightarrow> gotime \<Rightarrow> bytes \<Rightarrow> gostring
   \<Rightarrow> 'r participant \<Rightarrow> ('r participant \<times> out list) option"
where
  "dispatchRelayPacket parse net now data fromID p =
     map_option (\<lambda>(p1, outs).
         (case guidPrefixFromRelayID fromID of
            Some prefix \<Rightarrow> (recordRelayID prefix fromID p1, outs)
          | None \<Rightarrow> (p1, outs)))
       (dispatchTCPPacket parse net now data \<lparr>udpIP = [], udpPort = 0\<rparr> p)"

subsection \<open>Publishers\<close>

definition leaseLocalReaders :: "gotime \<Rightarrow> topic \<Rightarrow> QoS \<Rightarrow> GUID \<Rightarrow> 'r participant \<Rightarrow> 'r participant" where
  "leaseLocalReaders now t qos g p =
     p\<lparr>readers := map (\<lambda>(k, r).
        (k, if r_topic r = t \<and> partitionsMatch (Partition qos) (r_partitions r)
            then r\<lparr>r_live := registerWriterLease now g (LivelinessLeaseDuration qos) (r_live r)\<rparr> else r))
        (readers p)\<rparr>"

text \<open>The stream and the socket of a new writer.\<close>

definition wireTSN :: "bool \<Rightarrow> topic \<Rightarrow> QoS \<Rightarrow> 'r participant \<Rightarrow> TSNParams option \<times> byte option \<times> 'r participant" where
  "wireTSN canOpen t qos p =
     (case (case tsnConfig (cfg p) of None \<Rightarrow> None | Some f \<Rightarrow> f t) of
        Some stream \<Rightarrow> (Some stream, tsnSocketForPCP canOpen (Priority stream) p)
      | None \<Rightarrow>
          if TransportPriority qos > 0 then
            let pcp = word_of_int (TransportPriority qos) :: byte
            in (None, tsnSocketForPCP canOpen (if pcp > 7 then 7 else pcp) p)
          else (None, None, p))"

definition canPublish :: "topic \<Rightarrow> 'r participant \<Rightarrow> rtpsError option" where
  "canPublish t p =
     (if t = [] then Some (ErrDds ErrTopicEmpty)
      else if p_closed p then Some (ErrDds ErrClosed)
      else if (case accessControl (cfg p) of Some ac \<Rightarrow> \<not> CanWrite ac t | None \<Rightarrow> False)
        then Some (ErrDds ErrAccessDenied)
      else None)"

definition newWriter ::
  "gotime \<Rightarrow> EntityId \<Rightarrow> topic \<Rightarrow> QoS \<Rightarrow> TSNParams option \<Rightarrow> byte option \<Rightarrow> 'r participant \<Rightarrow> rtpsWriter"
where
  "newWriter now eid t qos stream sock p =
     (let rel = (Reliability qos = Reliable) in
      \<lparr>w_topic = t, w_eid = eid, w_qos = qos, w_closed = False, w_seq = 0, acked = 0,
       w_reliable = rel, w_history = newSendHistory, hbRunning = rel,
       drainCh = (if rel then Some False else None),
       w_deadlineTimer = (if Deadline qos > 0 \<and> hasDeadlineCb (cfg p) then Some (Some (now + Deadline qos)) else None),
       hbPeriod = effectiveHeartbeatPeriod p, tsnStream = stream, tsnSock = sock,
       w_partitions = Partition qos, ownershipRegistered = (Ownership qos = ExclusiveOwnership),
       livelinessRunning = (LivelinessLeaseDuration qos > 0 \<and> LivelinessPolicy qos = AutomaticLiveliness),
       livelinessSeq = 0\<rparr>)"

definition createPublisher ::
  "env \<Rightarrow> topic \<Rightarrow> gostring \<Rightarrow> QoS \<Rightarrow> 'r participant \<Rightarrow> EntityId \<times> 'r participant \<times> out list"
where
  "createPublisher env t tn qos p =
     (let n = entityCounter p + 1;
          eid = entityIdForWriter n;
          g = GUID (ownPrefix p) eid;
          p1 = p\<lparr>entityCounter := n\<rparr>;
          p2 = (if Ownership qos = ExclusiveOwnership
                then p1\<lparr>ownership := (ownership p1)(t \<mapsto>
                       register g (OwnershipStrength qos) (ownershipStateFor t (ownership p1)))\<rparr>
                else p1);
          p3 = (if LivelinessLeaseDuration qos > 0 then leaseLocalReaders (envNow env) t qos g p2 else p2);
          (stream, sock, p4) = wireTSN (envSocket env) t qos p3;
          w = newWriter (envNow env) eid t qos stream sock p
      in (eid, registerWriter (envNet env) eid t tn qos (updWriter eid w p4)))"

definition newPublisherLocked ::
  "env \<Rightarrow> topic \<Rightarrow> gostring \<Rightarrow> QoS \<Rightarrow> 'r participant \<Rightarrow> (rtpsError + EntityId) \<times> 'r participant \<times> out list"
where
  "newPublisherLocked env t tn qos p =
     (case canPublish t p of
        Some e \<Rightarrow> (Inl e, p, [])
      | None \<Rightarrow> let (eid, p1, outs) = createPublisher env t tn qos p in (Inr eid, p1, outs))"

definition NewPublisher ::
  "env \<Rightarrow> topic \<Rightarrow> QoS \<Rightarrow> 'r participant \<Rightarrow> (rtpsError + EntityId) \<times> 'r participant \<times> out list"
where
  "NewPublisher env t qos p = newPublisherLocked env t defaultTypeName qos p"

definition NewPublisherWithType ::
  "env \<Rightarrow> topic \<Rightarrow> gostring \<Rightarrow> QoS \<Rightarrow> 'r participant \<Rightarrow> (rtpsError + EntityId) \<times> 'r participant \<times> out list"
where
  "NewPublisherWithType env t tn qos p = newPublisherLocked env t tn qos p"

text \<open>The one-shot deadline timer of a writer.\<close>

definition deadlineFires :: "gotime \<Rightarrow> EntityId \<Rightarrow> 'r participant \<Rightarrow> 'r participant \<times> out list" where
  "deadlineFires now eid p =
     (case map_of (writers p) eid of
        None \<Rightarrow> (p, [])
      | Some w \<Rightarrow>
          (case w_deadlineTimer w of
             Some (Some due) \<Rightarrow>
               if due \<le> now then (updWriter eid (w\<lparr>w_deadlineTimer := Some None\<rparr>) p, [DeadlineCb (w_topic w)])
               else (p, [])
           | _ \<Rightarrow> (p, [])))"

subsection \<open>Subscribers\<close>

text \<open>The sample a new TransientLocal subscriber starts with, from memory or from disk.\<close>

definition lateSample :: "topic \<Rightarrow> 'r participant \<Rightarrow> Sample option \<times> 'r participant" where
  "lateSample t p =
     (case lastSample p t of
        Some s \<Rightarrow> (Some s, p)
      | None \<Rightarrow>
          if \<not> persistDir (cfg p) then (None, p)
          else
            (case persistLoad t p of
               None \<Rightarrow> (None, p)
             | Some payload \<Rightarrow>
                 let s = \<lparr>Topic = t, Payload = payload, Timestamp = zeroTime, SampleSeq = 0,
                          WriterGUID = replicate 16 0\<rparr>
                 in (Some s, p\<lparr>lastSample := (lastSample p)(t \<mapsto> s)\<rparr>)))"

definition offerLate :: "Sample option \<Rightarrow> rtpsReader \<Rightarrow> rtpsReader" where
  "offerLate so r =
     (case so of
        None \<Rightarrow> r
      | Some s \<Rightarrow>
          if (case r_filter r of None \<Rightarrow> True | Some f \<Rightarrow> f s) \<and> cfEval (r_contentFilter r) (Payload s)
          then (case trySend s (r_ch r) of Some ch \<Rightarrow> r\<lparr>r_ch := ch\<rparr> | None \<Rightarrow> r)
          else r)"

definition newReader :: "gotime \<Rightarrow> EntityId \<Rightarrow> topic \<Rightarrow> QoS \<Rightarrow> SubscriberConfig \<Rightarrow> 'r participant \<Rightarrow> rtpsReader" where
  "newReader now eid t qos c p =
     (let live0 = newLiveliness;
          live = (if LivelinessLostCallback c \<noteq> None
                  then fold (\<lambda>(k, w) l.
                         if w_topic w = t \<and> LivelinessLeaseDuration (w_qos w) > 0
                            \<and> partitionsMatch (Partition (w_qos w)) (Partition qos)
                         then registerWriterLease now (GUID (ownPrefix p) (w_eid w))
                                (LivelinessLeaseDuration (w_qos w)) l
                         else l) (writers p) live0
                  else live0);
          dl = (if Deadline qos > 0 \<and> DeadlineMissedCallback c \<noteq> None then Some (Deadline qos) else None)
      in \<lparr>r_topic = t, r_eid = eid, r_ch = makeChan (nat (ChanDepth c 64)), sources = [], trackers = (\<lambda>_. None),
          r_reliable = (Reliability qos = Reliable), r_filter = Filter c, backPressure = BackPressure c,
          r_contentFilter = None, unsubDone = False, r_closed = False, deadlinePeriod = dl,
          r_deadlineDue = map_option (\<lambda>d. now + d) dl, r_partitions = Partition qos,
          r_tbf = \<lparr>minSeparation = MinSeparation qos, lastDelivered = (\<lambda>_. None)\<rparr>,
          livelinessLostCb = LivelinessLostCallback c,
          monitorRunning = (LivelinessLostCallback c \<noteq> None), r_live = live\<rparr>)"

definition newSubscriberLocked ::
  "env \<Rightarrow> topic \<Rightarrow> gostring \<Rightarrow> QoS \<Rightarrow> SubscriberOption list \<Rightarrow> contentFilterSpec option \<Rightarrow> 'r participant
   \<Rightarrow> EntityId \<times> 'r participant \<times> out list"
where
  "newSubscriberLocked env t tn qos opts cf p =
     (let c = ApplySubscriberOpts opts;
          n = entityCounter p + 1;
          eid = entityIdForReader n;
          p1 = p\<lparr>entityCounter := n\<rparr>;
          r = newReader (envNow env) eid t qos c p1;
          (r1, p2, outs) = registerReader (envNet env) (envNow env) eid t tn qos r cf p1;
          (late, p3) = (if Durability qos = TransientLocal then lateSample t p2 else (None, p2))
      in (eid, updReader eid (offerLate late r1) p3, outs))"

definition canSubscribe :: "topic \<Rightarrow> 'r participant \<Rightarrow> rtpsError option" where
  "canSubscribe t p =
     (if p_closed p then Some (ErrDds ErrClosed)
      else if (case accessControl (cfg p) of Some ac \<Rightarrow> \<not> CanRead ac t | None \<Rightarrow> False)
        then Some (ErrDds ErrAccessDenied)
      else None)"

definition NewSubscriberWithType ::
  "env \<Rightarrow> topic \<Rightarrow> gostring \<Rightarrow> QoS \<Rightarrow> SubscriberOption list \<Rightarrow> 'r participant
   \<Rightarrow> (rtpsError + EntityId) \<times> 'r participant \<times> out list"
where
  "NewSubscriberWithType env t tn qos opts p =
     (if t = [] then (Inl (ErrDds ErrTopicEmpty), p, [])
      else
        (case canSubscribe t p of
           Some e \<Rightarrow> (Inl e, p, [])
         | None \<Rightarrow> let (eid, p1, outs) = newSubscriberLocked env t tn qos opts None p in (Inr eid, p1, outs)))"

definition NewSubscriber ::
  "env \<Rightarrow> topic \<Rightarrow> QoS \<Rightarrow> SubscriberOption list \<Rightarrow> 'r participant
   \<Rightarrow> (rtpsError + EntityId) \<times> 'r participant \<times> out list"
where
  "NewSubscriber env t qos opts p = NewSubscriberWithType env t defaultTypeName qos opts p"

definition NewFilteredSubscriber ::
  "(gostring \<Rightarrow> gostring list \<Rightarrow> (bytes \<Rightarrow> bool) option) \<Rightarrow> env \<Rightarrow> topic \<Rightarrow> gostring \<Rightarrow> gostring list \<Rightarrow> QoS
   \<Rightarrow> SubscriberOption list \<Rightarrow> 'r participant \<Rightarrow> (rtpsError + EntityId) \<times> 'r participant \<times> out list"
where
  "NewFilteredSubscriber parse env t expr ps qos opts p =
     (if t = [] then (Inl (ErrDds ErrTopicEmpty), p, [])
      else
        (case parse expr ps of
           None \<Rightarrow> (Inl ErrParse, p, [])
         | Some e \<Rightarrow>
             (case canSubscribe t p of
                Some err \<Rightarrow> (Inl err, p, [])
              | None \<Rightarrow>
                  let cf = \<lparr>cf_expr = Some e, cf_text = expr, cf_params = ps\<rparr>;
                      (eid, p1, outs) = newSubscriberLocked env t defaultTypeName qos opts (Some cf) p
                  in (Inr eid, p1, outs))))"

subsection \<open>Metrics and health\<close>

definition MetricsOf :: "'r participant \<Rightarrow> Metrics" where
  "MetricsOf p = (metrics p)\<lparr>ErrorCount := 0\<rparr>"

record DiscoveryMetrics =
  AnnouncesSent :: uint64
  AnnouncesReceived :: uint64
  PeersKnown :: uint64
  PeerEvictions :: uint64
  EndpointMatches :: uint64

definition DiscoveryMetricsOf :: "'r participant \<Rightarrow> DiscoveryMetrics" where
  "DiscoveryMetricsOf p =
     \<lparr>AnnouncesSent = announcesSent (spdp p), AnnouncesReceived = announcesReceived (spdp p),
      PeersKnown = word_of_nat (length (peers (spdp p))), PeerEvictions = peerEvictions (spdp p),
      EndpointMatches = endpointMatches (sedp p)\<rparr>"

definition TopicMetricsOf :: "'r participant \<Rightarrow> (topic \<times> Metrics) list" where
  "TopicMetricsOf p =
     map (\<lambda>(t, c). (t, \<lparr>WriteCount = writes c, DeliverCount = delivers c, DropCount = drops c,
                        BytesWritten = bytesW c, BytesDelivered = bytesD c, ErrorCount = 0\<rparr>)) (topicMetrics p)"

text \<open>The counts stand for the JSON text of the details.\<close>

datatype health_details = ClosedState | Endpoints nat nat

definition Health :: "'r participant \<Rightarrow> HealthStatus \<times> health_details" where
  "Health p =
     (if p_closed p then (HealthDown, ClosedState)
      else (HealthOK, Endpoints (length (writers p)) (length (readers p))))"

subsection \<open>Shutdown\<close>

text \<open>Closing the sockets and stopping the discovery goroutines leaves no trace in the state.\<close>

definition Close :: "'r participant \<Rightarrow> 'r participant" where
  "Close p = (if p_closed p then p else fold writerClose (map fst (writers p)) (p\<lparr>p_closed := True\<rparr>))"

fun drainAll :: "bool \<Rightarrow> rtpsWriter list \<Rightarrow> drain_result" where
  "drainAll ctxDone [] = Drained"
| "drainAll ctxDone (w # ws) = (case waitDrain ctxDone w of Drained \<Rightarrow> drainAll ctxDone ws | x \<Rightarrow> x)"

text \<open>\<open>None\<close> while the call waits.\<close>

definition CloseWithDrain :: "bool \<Rightarrow> 'r participant \<Rightarrow> (rtpsError option \<times> 'r participant) option" where
  "CloseWithDrain ctxDone p =
     (case drainAll ctxDone (filter w_reliable (map snd (writers p))) of
        Drained \<Rightarrow> Some (None, Close p)
      | DrainErr \<Rightarrow> Some (Some ErrCtx, Close p)
      | DrainBlocked \<Rightarrow> None)"

section \<open>Packets\<close>

text \<open>The message that carries one sample, and what taking in a sample means.\<close>

definition dataMsg :: "GuidPrefix \<Rightarrow> gotime \<Rightarrow> EntityId \<Rightarrow> SequenceNumber \<Rightarrow> bytes \<Rightarrow> bytes" where
  "dataMsg prefix ts eid sn wire =
     wrapInRTPSMessage prefix (marshalInfoTS ts @ marshalDataSubmessage eid EntityIdUnknown sn (cdrWrapPayload wire))"

definition takeSample ::
  "net \<Rightarrow> gotime \<Rightarrow> GUID \<Rightarrow> UDPAddr \<Rightarrow> SequenceNumber \<Rightarrow> gotime \<Rightarrow> bytes \<Rightarrow> 'r participant
   \<Rightarrow> ('r participant \<times> out list) option"
where
  "takeSample net now source from sn ts payload q =
     (let (fresh, q1) = replayCheck (snToU64 sn) ts q in
      if \<not> fresh then Some (q1, [])
      else (case notifyReliableReaders net source sn from q1 of
              None \<Rightarrow> None
            | Some (q2, outs) \<Rightarrow>
                map_option (\<lambda>q3. (q3, outs)) (dispatchToReaders now source [] payload ts (ucast (Low sn)) [] q2)))"

lemma handleData_body:
  assumes "wf_eid eid"
  shows "handleData net now prefix from (dataBody eid EntityIdUnknown sn (cdrWrapPayload wire)) ts q =
     (case openPayload wire q of
        None \<Rightarrow> Some (q, [])
      | Some payload \<Rightarrow> takeSample net now (GUID prefix eid) from sn ts payload q)"
  using parse_dataBody [OF assms, of EntityIdUnknown "cdrWrapPayload wire" sn]
  by (simp add: handleData_def takeSample_def Let_def cong: if_cong option.case_cong split: option.split)

lemma handle_dataMsg:
  fixes q :: "'a participant"
  assumes "wf_prefix prefix" "wf_eid eid" "prefix \<noteq> ownPrefix q" "length wire < 65512"
  shows "handleDataPacket net now (dataMsg prefix ts eid sn wire) from q =
     (case openPayload wire q of
        None \<Rightarrow> Some (q, [])
      | Some payload \<Rightarrow>
          takeSample net now (GUID prefix eid) from sn (the (parseInfoTS now (infoTSBody ts))) payload q)"
proof -
  have p: "parseInfoTS now (infoTSBody ts) = Some (the (parseInfoTS now (infoTSBody ts)))"
    by (simp add: parseInfoTS_def infoTSBody_def Let_def)
  have ts: "fst (dataSubmsg net now prefix from submsgINFO_TS flagEndianness (infoTSBody ts) (Some (zeroTime, q, [])))
      = Some (the (parseInfoTS now (infoTSBody ts)), q, [])"
    unfolding dataSubmsg_def by (subst p) simp
  have none: "snd (dataSubmsg net now prefix from i fl b st) = None" for i fl b and st :: "'a dataState"
    by (simp add: dataSubmsg_def)
  have it: "parseSubmessages (dataSubmsg net now prefix from) (marshalInfoTS ts @ rest) (Some (zeroTime, q, []))
      = parseSubmessages (dataSubmsg net now prefix from) rest (Some (the (parseInfoTS now (infoTSBody ts)), q, []))" for rest
    using infotsf.iterate [where x = ts and fn = "dataSubmsg net now prefix from" and rest = rest and s = "Some (zeroTime, q, [])"] ts none
    by (metis (no_types, lifting) case_prod_conv option.simps(4) prod.collapse)
  have data: "fst (dataSubmsg net now prefix from submsgDATA fl (dataBody eid EntityIdUnknown sn (cdrWrapPayload wire)) (Some (t, q, [])))
      = map_option (\<lambda>(p1, o1). (t, p1, o1)) (handleData net now prefix from (dataBody eid EntityIdUnknown sn (cdrWrapPayload wire)) t q)"
    for fl t
    by (simp add: dataSubmsg_def msg_const_defs)
  have "fst (parseSubmessages (dataSubmsg net now prefix from)
        (marshalDataSubmessage eid EntityIdUnknown sn (cdrWrapPayload wire)) (Some (t, q, [])))
      = map_option (\<lambda>(p1, o1). (t, p1, o1)) (handleData net now prefix from (dataBody eid EntityIdUnknown sn (cdrWrapPayload wire)) t q)" for t
    using iterate_data [OF assms(2), of EntityIdUnknown "cdrWrapPayload wire" "dataSubmsg net now prefix from" sn "[]" "Some (t, q, [])"]
      assms(4) data [of "flagEndianness OR flagData" t] none
    by (simp add: split: prod.splits option.splits)
  then show ?thesis
    using assms by (simp add: handleDataPacket_def dataMsg_def parseHeader_wrap it handleData_body option.map_comp comp_def
        option.map_ident split: option.split)
qed

lemma handle_heartbeat_msg:
  assumes "wf_prefix prefix" "wf_heartbeat hb" "prefix \<noteq> ownPrefix q"
  shows "handleDataPacket net now (wrapInRTPSMessage prefix (marshalHeartbeat hb)) from q =
     handleHeartbeat net now (GUID prefix (hbWriter hb)) hb from q"
proof -
  let ?fl = "if Liveliness hb then flagEndianness OR hbFlagLiveliness else flagEndianness"
  have "dataSubmsg net now prefix from submsgHEARTBEAT ?fl (heartbeatBody hb) (Some (zeroTime, q, []))
      = (map_option (\<lambda>(p1, o1). (zeroTime, p1, o1)) (handleHeartbeat net now (GUID prefix (hbWriter hb)) hb from q), None)"
    using heartbeatf.parse_body [OF assms(2)]
    by (auto simp: dataSubmsg_def recvHeartbeat_def msg_const_defs Let_def split: option.split)
  from heartbeatf.iterate_last [OF assms(2), of "dataSubmsg net now prefix from", OF this] show ?thesis
    using assms by (simp add: handleDataPacket_def parseHeader_wrap option.map_comp comp_def option.map_ident case_prod_beta)
qed

lemma handle_acknack_msg:
  assumes "wf_prefix prefix" "wf_acknack an" "prefix \<noteq> ownPrefix q"
  shows "handleDataPacket net now (wrapInRTPSMessage prefix (marshalAckNack an)) from q = Some (handleAckNack net an from q)"
proof -
  obtain q1 o1 where a: "handleAckNack net an from q = (q1, o1)" by (cases "handleAckNack net an from q")
  have "dataSubmsg net now prefix from submsgACKNACK flagEndianness (ackNackBody an) (Some (zeroTime, q, []))
      = (Some (zeroTime, q1, o1), None)"
    using acknackf.parse_body [OF assms(2)] a by (simp add: dataSubmsg_def msg_const_defs)
  from acknackf.iterate_last [OF assms(2), of "dataSubmsg net now prefix from", OF this] show ?thesis
    using assms a by (simp add: handleDataPacket_def parseHeader_wrap)
qed

section \<open>Taking in a sample\<close>

lemma getsSample_tracker [simp]:
  "getsSample now src tf payload ts sq parts q (setTracker g t r) = getsSample now src tf payload ts sq parts q r"
  by (simp add: getsSample_def wants_def acceptsSource_def sampleFor_def setTracker_def cong: conj_cong)

lemma sampleFor_tracker [simp]: "sampleFor src payload ts sq (setTracker g t r) = sampleFor src payload ts sq r"
  by (simp add: sampleFor_def setTracker_def)

lemma getsSample_rest:
  "same_rest p q \<Longrightarrow> getsSample now src tf payload ts sq parts q = getsSample now src tf payload ts sq parts p"
  by (simp add: getsSample_def same_rest_sel fun_eq_iff)

lemma notify_total:
  assumes "readers_ok q" and "snToU64 sn \<noteq> - 1"
  obtains q2 outs where "notifyReliableReaders net g sn from q = Some (q2, outs)" "same_rest q q2" "readers_ok q2"
    "\<And>eid r. map_of (readers q) eid = Some r \<Longrightarrow> map_of (readers q2) eid =
       Some (if dataAsks g q r then setTracker g (ackedTracker (snToU64 sn) (dataTracker g sn r)) r else r)"
    "outs = concat (map (\<lambda>(k, r). if dataAsks g q r
       then ackOut net g from q (ackFor g (snToU64 sn) r (dataTracker g sn r)) else []) (readers q))"
proof -
  have d: "distinct (map fst (readers q))" using assms(1) by (simp add: readers_ok_def)
  have t: "\<forall>k r. map_of (readers q) k = Some r \<longrightarrow> True" by simp
  note all = dat.all_turns [OF d t, where net = net and g = g and sn = sn and addr = "from"]
  have "seqM (notifyOne net g sn from) (map fst (readers q)) q \<noteq> None"
    unfolding all(1) using assms(2) by (auto simp: missing_None)
  then obtain q2 outs where s: "seqM (notifyOne net g sn from) (map fst (readers q)) q = Some (q2, outs)" by auto
  note S = all(2) [OF s]
  have keys: "map fst (readers q2) = map fst (readers q)" using S same_rest_sel(15) by blast
  have m: "map_of (readers q2) eid =
       Some (if dataAsks g q r then setTracker g (ackedTracker (snToU64 sn) (dataTracker g sn r)) r else r)"
    if "map_of (readers q) eid = Some r" for eid r
    using S that by blast
  have "ch_ok r' \<and> r_eid r' = eid" if r': "map_of (readers q2) eid = Some r'" for eid r'
  proof -
    have "eid \<in> fst ` set (readers q)" using r' keys by (metis list.set_map map_of_eq_None_iff option.distinct(1))
    then obtain r where r: "map_of (readers q) eid = Some r" by (metis map_of_eq_None_iff not_Some_eq)
    with assms(1) have "ch_ok r" "r_eid r = eid" by (auto simp: readers_ok_def)
    then show ?thesis using m [OF r] r' by (auto simp: ch_ok_def setTracker_def split: if_splits)
  qed
  then have "readers_ok q2" using d keys by (simp add: readers_ok_def)
  then show thesis using that [OF _ _ _ m] s S unfolding notifyReliableReaders_def by blast
qed

text \<open>A reader entry after a sample: as after a dispatch, with the tracker of the source moved on if it is reliable.\<close>

definition sampleTaken ::
  "GUID \<Rightarrow> SequenceNumber \<Rightarrow> gotime \<Rightarrow> bytes \<Rightarrow> gotime \<Rightarrow> 'r participant \<Rightarrow> rtpsReader \<Rightarrow> rtpsReader \<Rightarrow> bool"
where
  "sampleTaken g sn ts payload now q r r' \<longleftrightarrow>
     (let sq = ucast (Low sn);
          r1 = (if dataAsks g q r then setTracker g (ackedTracker (snToU64 sn) (dataTracker g sn r)) r else r)
      in moved (chanAfter (getsSample now g [] payload ts sq [] q r) (sampleFor g payload ts sq r) r) r1 r')"

lemma chanAfter_tracker [simp]: "chanAfter b s (setTracker g t r) = chanAfter b s r"
  by (simp add: chanAfter_def setTracker_def)

definition nonblocking :: "'r participant \<Rightarrow> bool" where
  "nonblocking q \<longleftrightarrow> list_all (\<lambda>(k, r). backPressure r \<noteq> Block) (readers q)"

lemma takeSample_exact:
  assumes "readers_ok q" and "antiReplay q = None" and "snToU64 sn \<noteq> - 1"
    and "nonblocking q"
  obtains q' outs where "takeSample net now g from sn ts payload q = Some (q', outs)" "same_rest q q'"
    "\<And>eid r. map_of (readers q) eid = Some r \<Longrightarrow>
       \<exists>r'. map_of (readers q') eid = Some r' \<and> sampleTaken g sn ts payload now q r r'"
    "outs = concat (map (\<lambda>(k, r). if dataAsks g q r
       then ackOut net g from q (ackFor g (snToU64 sn) r (dataTracker g sn r)) else []) (readers q))"
proof -
  let ?sq = "ucast (Low sn) :: uint64"
  obtain q2 outs where n: "notifyReliableReaders net g sn from q = Some (q2, outs)" "same_rest q q2" "readers_ok q2"
    "\<And>eid r. map_of (readers q) eid = Some r \<Longrightarrow> map_of (readers q2) eid =
       Some (if dataAsks g q r then setTracker g (ackedTracker (snToU64 sn) (dataTracker g sn r)) r else r)"
    "outs = concat (map (\<lambda>(k, r). if dataAsks g q r
       then ackOut net g from q (ackFor g (snToU64 sn) r (dataTracker g sn r)) else []) (readers q))"
    by (rule notify_total [OF assms(1,3)]) (rule that)
  have bk: "\<exists>r. map_of (readers q) eid = Some r" if "map_of (readers q2) eid = Some r2" for eid r2
    using that same_rest_sel(15) [OF n(2)] by (metis list.set_map map_of_eq_None_iff not_Some_eq)
  have d: "distinct (map fst (readers q2))" and ok: "\<forall>k r. map_of (readers q2) k = Some r \<longrightarrow> ch_ok r"
    using n(3) by (auto simp: readers_ok_def)
  note all = disp.all_turns [OF d ok, where now = now and source = g and tf = "[]" and payload = payload
      and ts = ts and seqNum = ?sq and wparts = "[]"]
  have "backPressure r2 \<noteq> Block" if r2: "map_of (readers q2) eid = Some r2" for eid r2
  proof -
    obtain r where r: "map_of (readers q) eid = Some r" using bk [OF r2] by blast
    show ?thesis using n(4) [OF r] map_of_SomeD [OF r] assms(4) r2
      by (auto simp: nonblocking_def list_all_iff setTracker_def split: if_splits)
  qed
  then have "dispatchToReaders now g [] payload ts ?sq [] q2 \<noteq> None"
    unfolding dispatchToReaders_def using all(1) by (auto simp: blocks_def)
  then obtain q3 o3 where s: "seqM (\<lambda>eid q. map_option (\<lambda>q'. (q', [] :: out list))
        (dispatchOne now g [] payload ts ?sq [] eid q)) (map fst (readers q2)) q2 = Some (q3, o3)"
    and disp: "dispatchToReaders now g [] payload ts ?sq [] q2 = Some q3"
    unfolding dispatchToReaders_def by auto
  note S = all(2) [OF s, unfolded getsSample_rest [OF n(2)]]
  have e: "\<exists>r'. map_of (readers q3) eid = Some r' \<and> sampleTaken g sn ts payload now q r r'"
    if "map_of (readers q) eid = Some r" for eid r
    using S [THEN conjunct2, THEN conjunct1, rule_format, OF n(4) [OF that]]
    by (simp add: sampleTaken_def Let_def split: if_splits)
  have t: "takeSample net now g from sn ts payload q = Some (q3, outs)"
    using assms(2) n(1) disp by (simp add: takeSample_def replayCheck_def)
  have "same_rest q q3" using same_rest_trans [OF n(2)] S by blast
  show thesis by (rule that [OF t \<open>same_rest q q3\<close> e n(5)])
qed

section \<open>End to end\<close>

text \<open>A write that returns without error, stage by stage, when its payload fits one DATA.\<close>

lemma writeMsgs_single:
  assumes "int (length wire) + 4 \<le> fragmentSize w"
  shows "writeMsgs prefix now w wire = Some [dataMsg prefix now (w_eid w) (u64ToSN (w_seq w)) wire]"
  using assms by (simp add: writeMsgs_def dataMsg_def Let_def)

lemma Write_sends:
  assumes "map_of (writers p) eid = Some w" and "Write env eid payload p = Some (None, p', outs)"
    and "sealPayload payload p = Some wire" and "int (length wire) + 4 \<le> fragmentSize w"
    and "lm \<in> set (matchedReaderLocators (w_topic w) (w_partitions w) p)" "udpAddr (Loc lm) = Some dst" "matches lm payload"
  shows "sentTo env w lm dst (dataMsg (ownPrefix p) (envNow env) (w_eid w) (u64ToSN (w_seq w + 1)) wire) p outs"
proof -
  define w1 where "w1 = (rearmDeadline (envNow env) w)\<lparr>w_seq := w_seq w + 1\<rparr>"
  define p1 where "p1 = updWriter eid w1 (countWrite (w_topic w) (length payload) p)"
  have p1: "cfg p1 = cfg p" "sedp p1 = sedp p" "spdp p1 = spdp p" "wsConns p1 = wsConns p" by (simp_all add: p1_def)
  have w1: "w_topic w1 = w_topic w" "w_partitions w1 = w_partitions w" "sendSock w1 = sendSock w"
    "w_reliable w1 = w_reliable w" "txTimeNS tai w1 = txTimeNS tai w" "w_eid w1 = w_eid w" "fragmentSize w1 = fragmentSize w"
    "w_seq w1 = w_seq w + 1" for tai
    by (simp_all add: w1_def sendSock_def txTimeNS_def fragmentSize_def)
  have pub: "publish env eid w1 payload wire p1 = Some (p', outs)"
    using assms(1-3) by (auto simp: Write_def Let_def w1_def p1_def split: if_splits)
  have m: "writeMsgs (ownPrefix p1) (envNow env) w1 wire
      = Some [dataMsg (ownPrefix p) (envNow env) (w_eid w) (u64ToSN (w_seq w + 1)) wire]"
    using writeMsgs_single [of wire w1 "ownPrefix p" "envNow env"] assms(4) by (simp only: w1 p1)
  have "sentTo env w1 lm dst (dataMsg (ownPrefix p) (envNow env) (w_eid w) (u64ToSN (w_seq w + 1)) wire) p1 outs"
    using assms(5) by (intro publish_sends [OF pub m _ assms(6,7)]) (simp_all add: w1 matchedReaderLocators_cong [OF p1(2)])
  then show ?thesis by (simp add: sentTo_def w1 p1 sendUnicast_cong [OF p1(1,3,4)])
qed


definition exEnv :: env where
  "exEnv = \<lparr>envNet = (\<lambda>_. False), envNow = 0, envTAI = None, envCreate = (\<lambda>_. False), envSocket = False\<rparr>"

definition exLinked :: "unit participant" where
  "exLinked = exSub\<lparr>readers := [([0, 0, 1, 7], exReader\<lparr>sources := [GUID (replicate 12 0) [0, 0, 1, 3]]\<rparr>)]\<rparr>"

lemma exPub_cfg: "cfg (exPub w) = plainConfig 0 0 (replicate 12 0)" "readers (exPub w) = []"
  by (simp_all add: exPub_def exMatched_def onRemoteReader_def updSedp_def initParticipant_def)

lemma exLinked_sel: "ownPrefix exLinked = replicate 12 8" "ownership exLinked = (\<lambda>_. None)" "antiReplay exLinked = None"
  "cfg exLinked = plainConfig 0 1 (replicate 12 8)" "readers_ok exLinked" "nonblocking exLinked"
  by (simp_all add: exLinked_def exSub_def updSedp_def initParticipant_def plainConfig_def readers_ok_def ch_ok_def
      exReader_def makeChan_def nonblocking_def)

lemma exWrite: "\<exists>p' outs. Write exEnv [0, 0, 1, 3] [1] (exPub (exWriter False newSendHistory 4)) = Some (None, p', outs)"
  by (simp add: Write_def exWriter_def DefaultQoS_def sealPayload_def exPub_cfg plainConfig_def rearmDeadline_def Let_def
      publish_def writeMsgs_def fragmentSize_def maxFragmentPayload_def storeFirst_def dispatchToReaders_def)


section \<open>Draining\<close>

text \<open>An ACKNACK of a reader of this implementation never acknowledges what it asks up to.\<close>

lemma ackFor_base:
  assumes "ackFor g lastSN r t = Some an"
  shows "snToU64 (Base an) \<le> lastSN" "anWriter an = Entity g"
proof -
  obtain base bm where m: "missing lastSN t = Some (base, bm, True)"
    and an: "snToU64 (Base an) = base" "anWriter an = Entity g"
    using assms by (auto simp: ackFor_def split: option.splits prod.splits bool.splits)
  then show "snToU64 (Base an) \<le> lastSN" "anWriter an = Entity g"
    by (auto simp: missing_def Let_def not_less split: if_splits)
qed

lemma advanceAcked_undrained:
  assumes "drainCh w = Some False" "acked w < w_seq w" "b \<le> w_seq w"
  shows "drainCh (advanceAcked b w) = Some False" "acked (advanceAcked b w) < w_seq (advanceAcked b w)"
proof -
  have "b - 1 < w_seq w" if "b \<noteq> 0"
  proof -
    have "0 < unat b" using that by (simp add: unat_gt_0)
    then show ?thesis using that assms(3) by (simp add: word_less_nat_alt word_le_nat_alt unat_minus_one)
  qed
  then show "drainCh (advanceAcked b w) = Some False" "acked (advanceAcked b w) < w_seq (advanceAcked b w)"
    using assms by (cases "b = 0"; fastforce simp: advanceAcked_def Let_def not_le)+
qed

text \<open>A run of ACKNACKs, each sent by some reader for a number the writer has already used.\<close>

definition readerAck :: "uint64 \<Rightarrow> AckNack \<Rightarrow> bool" where
  "readerAck sq an \<longleftrightarrow> (\<exists>g lastSN r t. lastSN \<le> sq \<and> ackFor g lastSN r t = Some an)"

primrec ackRun :: "net \<Rightarrow> (AckNack \<times> UDPAddr) list \<Rightarrow> 'r participant \<Rightarrow> 'r participant" where
  "ackRun net [] p = p"
| "ackRun net (a # as) p = ackRun net as (fst (handleAckNack net (fst a) (snd a) p))"

definition undrained :: "EntityId \<Rightarrow> uint64 \<Rightarrow> 'r participant \<Rightarrow> bool" where
  "undrained eid sq p \<longleftrightarrow> (\<exists>w. map_of (writers p) eid = Some w \<and> w_reliable w \<and> drainCh w = Some False
     \<and> w_seq w = sq \<and> acked w < sq)"

lemma handleAckNack_undrained:
  assumes "undrained eid sq p" and "readerAck sq an"
  shows "undrained eid sq (fst (handleAckNack net an from p))"
proof -
  obtain w where w: "map_of (writers p) eid = Some w" "w_reliable w" "drainCh w = Some False" "w_seq w = sq" "acked w < sq"
    using assms(1) by (auto simp: undrained_def)
  have b: "snToU64 (Base an) \<le> w_seq w" 
    using assms(2) order_trans [OF ackFor_base(1)] w(4) unfolding readerAck_def by blast
  note adv = advanceAcked_undrained [OF w(3) _ b]
  show ?thesis
  proof (cases "anWriter an = eid")
    case True
    then show ?thesis using w adv by (simp add: undrained_def handleAckNack_def Let_def)
  next
    case False
    then show ?thesis using w by (auto simp: undrained_def handleAckNack_def Let_def split: option.split)
  qed
qed

lemma drainAll_blocked: "w \<in> set ws \<Longrightarrow> waitDrain False w = DrainBlocked \<Longrightarrow> drainAll False ws = DrainBlocked"
proof (induction ws)
  case (Cons v ws)
  have "waitDrain False v \<noteq> DrainErr" by (simp add: waitDrain_def split: option.split)
  then show ?case using Cons by (cases "waitDrain False v") auto
qed simp


lemma exAck_reader: "readerAck 1 \<lparr>anReader = [0, 0, 1, 7], anWriter = [0, 0, 1, 3], Base = u64ToSN 1, Bitmap = 1, anCount = 1\<rparr>"
proof -
  let ?t = "\<lparr>expected = 1, ahead = [], initDone = True, ackCount = 0\<rparr> :: recvTracker"
  have "missing 1 ?t = Some (1, 1, True)"
    by (simp add: missing_def, subst missing_loop.simps, simp, subst missing_loop.simps, auto simp: word_le_nat_alt)
  then have "ackFor (GUID (replicate 12 0) [0, 0, 1, 3]) 1 exReader ?t
      = Some \<lparr>anReader = [0, 0, 1, 7], anWriter = [0, 0, 1, 3], Base = u64ToSN 1, Bitmap = 1, anCount = 1\<rparr>"
    by (simp add: ackFor_def exReader_def)
  then show ?thesis unfolding readerAck_def by (intro exI conjI) (rule order_refl)
qed


end
