(* ===== verification/Rtps_Run.thy ===== *)
theory Rtps_Run
  imports Rtps_Participant
begin

text \<open>
  Every run of a participant: a step relation with one rule per event (a call of the
  application, a received packet, a tick of one of its goroutines) and invariants of all
  reachable states, proved by rule induction.
\<close>

section \<open>Steps\<close>

text \<open>
  The participant creates fewer than \<open>2\<^sup>2\<^sup>4\<close> endpoints, so that their entity ids differ.
  \<open>parse\<close> is the compiler of content filter expressions.
\<close>

definition mayCreate :: "'r participant \<Rightarrow> bool" where
  "mayCreate p \<longleftrightarrow> unat (entityCounter p) + 1 < 2 ^ 24"

inductive pstep ::
  "(gostring \<Rightarrow> gostring list \<Rightarrow> (bytes \<Rightarrow> bool) option) \<Rightarrow> 'r participant \<Rightarrow> 'r participant \<Rightarrow> bool"
  for parse
where
  StepPublisher: "mayCreate p \<Longrightarrow> newPublisherLocked env t tn qos p = (res, p', outs) \<Longrightarrow> pstep parse p p'"
| StepSubscriber: "mayCreate p \<Longrightarrow> NewSubscriberWithType env t tn qos opts p = (res, p', outs) \<Longrightarrow> pstep parse p p'"
| StepFiltered: "mayCreate p \<Longrightarrow> NewFilteredSubscriber parse env t expr ps qos opts p = (res, p', outs) \<Longrightarrow> pstep parse p p'"
| StepWrite: "Write env eid payload p = Some (err, p', outs) \<Longrightarrow> pstep parse p p'"
| StepData: "handleDataPacket net now data from p = Some (p', outs) \<Longrightarrow> pstep parse p p'"
| StepSedp: "pstep parse p (sedpHandlePacket parse now data from p)"
| StepSpdp: "pstep parse p (fst (spdpHandlePacket net now data from p))"
| StepTcp: "dispatchTCPPacket parse net now data from p = Some (p', outs) \<Longrightarrow> pstep parse p p'"
| StepRelay: "dispatchRelayPacket parse net now data fromID p = Some (p', outs) \<Longrightarrow> pstep parse p p'"
| StepWsReply: "pstep parse p (fst (wsReplyToNewWSPeer data peer p))"
| StepAnnounce: "pstep parse p (fst (sendAnnouncement p))"
| StepEvict: "pstep parse p (fst (evictExpired now p))"
| StepHeartbeat: "pstep parse p (fst (heartbeatTick net eid p))"
| StepLiveliness: "pstep parse p (fst (livelinessTick net now eid p))"
| StepDeadline: "pstep parse p (fst (deadlineFires now eid p))"
| StepMonitor: "map_of (readers p) eid = Some r \<Longrightarrow> pstep parse p (updReader eid (snd (monitorTick now r)) p)"
| StepRead: "map_of (readers p) eid = Some r \<Longrightarrow> pstep parse p (updReader eid (snd (TryRead r)) p)"
| StepUnsubscribe: "map_of (readers p) eid = Some r \<Longrightarrow> pstep parse p (snd (Unsubscribe r p))"
| StepCloseReader: "map_of (readers p) eid = Some r \<Longrightarrow> pstep parse p (snd (readerClose r p))"
| StepCloseWriter: "pstep parse p (writerClose eid p)"
| StepClose: "pstep parse p (Close p)"

inductive reachable :: "(gostring \<Rightarrow> gostring list \<Rightarrow> (bytes \<Rightarrow> bool) option) \<Rightarrow> 'r participant \<Rightarrow> bool"
  for parse
where
  ReachInit: "reachable parse (initParticipant c ar)"
| ReachStep: "reachable parse p \<Longrightarrow> pstep parse p p' \<Longrightarrow> reachable parse p'"

section \<open>Packets of submessages\<close>

lemma parseSubmessages_preserves:
  assumes "\<And>i fl b s. P s \<Longrightarrow> P (fst (fn i fl b s))"
  shows "P s \<Longrightarrow> P (fst (parseSubmessages fn body s))"
proof (induction body arbitrary: s rule: length_induct)
  case (1 body)
  define len where "len = unat (if body ! 1 AND flagEndianness \<noteq> 0 then Uint16 (drop 2 body) else Uint16BE (drop 2 body))"
  have IH: "P (fst (parseSubmessages fn (drop len (drop 4 body)) s'))" if "4 \<le> length body" "P s'" for s'
    using 1(1) that by simp
  have e: "parseSubmessages fn body s =
     (if length body < 4 then (s, None)
      else if length (drop 4 body) < len then (s, Some (LengthExceeds len (length (drop 4 body))))
      else if \<not> (body ! 1 AND flagEndianness \<noteq> 0) then parseSubmessages fn (drop len (drop 4 body)) s
      else (case fn (body ! 0) (body ! 1) (take len (drop 4 body)) s of
              (s', Some e) \<Rightarrow> (s', Some (CallbackError e))
            | (s', None) \<Rightarrow> parseSubmessages fn (drop len (drop 4 body)) s'))"
    by (subst parseSubmessages.simps) (simp only: Let_def len_def)
  obtain s' er where f: "fn (body ! 0) (body ! 1) (take len (drop 4 body)) s = (s', er)" by fastforce
  have "P s'" using assms [OF 1(2), of "body ! 0" "body ! 1" "take len (drop 4 body)"] f by simp
  then show ?case unfolding e f using 1(2) IH by (auto split: option.split)
qed

section \<open>Counters\<close>

text \<open>The participant's counters are the sums over its topics, modulo \<open>2\<^sup>6\<^sup>4\<close>.\<close>

definition metrics_ok :: "'r participant \<Rightarrow> bool" where
  "metrics_ok p \<longleftrightarrow> distinct (map fst (topicMetrics p))
     \<and> WriteCount (metrics p) = sum_list (map (writes \<circ> snd) (topicMetrics p))
     \<and> DeliverCount (metrics p) = sum_list (map (delivers \<circ> snd) (topicMetrics p))
     \<and> DropCount (metrics p) = sum_list (map (drops \<circ> snd) (topicMetrics p))
     \<and> BytesWritten (metrics p) = sum_list (map (bytesW \<circ> snd) (topicMetrics p))
     \<and> BytesDelivered (metrics p) = sum_list (map (bytesD \<circ> snd) (topicMetrics p))"

lemma zeroCounter_sel [simp]:
  "writes zeroCounter = 0" "delivers zeroCounter = 0" "drops zeroCounter = 0" "bytesW zeroCounter = 0" "bytesD zeroCounter = 0"
  by (simp_all add: zeroCounter_def)

lemma sum_topicCounter:
  fixes f :: "topicCounter \<Rightarrow> uint64"
  assumes "distinct (map fst (topicMetrics p))" "f zeroCounter = 0"
  shows "sum_list (map (f \<circ> snd) (topicMetrics (updTopicCounter t g p)))
    = sum_list (map (f \<circ> snd) (topicMetrics p)) + f (g (topicCounterFor t p)) - f (topicCounterFor t p)"
  using assms by (simp add: updTopicCounter_def sum_list_alist_update topicCounterFor_def split: option.split)

lemma distinct_topicCounter:
  "distinct (map fst (topicMetrics p)) \<Longrightarrow> distinct (map fst (topicMetrics (updTopicCounter t g p)))"
  by (simp add: updTopicCounter_def distinct_update)

lemma topicCounterFor_metrics [simp]: "topicCounterFor t (p\<lparr>metrics := m\<rparr>) = topicCounterFor t p"
  by (simp add: topicCounterFor_def)

lemma updTopicCounter_metrics [simp]: "metrics (updTopicCounter t g p) = metrics p"
  by (simp add: updTopicCounter_def)

lemma count_metrics_ok:
  assumes "metrics_ok p"
  shows "metrics_ok (countDeliver t n p)" "metrics_ok (countDrop t p)" "metrics_ok (countWrite t n p)"
proof -
  have d: "distinct (map fst (topicMetrics (p\<lparr>metrics := m\<rparr>)))" for m using assms by (simp add: metrics_ok_def)
  note s = sum_topicCounter [OF d] distinct_topicCounter [OF d]
  show "metrics_ok (countDeliver t n p)" using assms by (simp add: metrics_ok_def countDeliver_def s)
  show "metrics_ok (countDrop t p)" using assms by (simp add: metrics_ok_def countDrop_def s)
  show "metrics_ok (countWrite t n p)" using assms by (simp add: metrics_ok_def countWrite_def s)
qed

lemma metrics_ok_cong: "metrics q = metrics p \<Longrightarrow> topicMetrics q = topicMetrics p \<Longrightarrow> metrics_ok q = metrics_ok p"
  by (simp add: metrics_ok_def)

lemma deliver_metrics:
  assumes "metrics_ok p" "deliverToReader now eid r s p = Some p'"
  shows "metrics_ok p'"
proof -
  have upd: "metrics_ok (updReader eid r' q) = metrics_ok q" for r' and q :: "'a participant"
    by (simp add: metrics_ok_def updReader_def)
  show ?thesis
    using assms count_metrics_ok(2) [OF assms(1)]
    by (auto simp: deliverToReader_def delivered_def Let_def upd count_metrics_ok
        split: if_splits BackPressurePolicy.splits option.splits prod.splits recv_result.splits)
qed

lemma updReader_metrics [simp]: "metrics_ok (updReader eid r p) = metrics_ok p"
  by (simp add: metrics_ok_def updReader_def)

lemma dispatchOne_metrics:
  "metrics_ok p \<Longrightarrow> dispatchOne now source tf payload ts sq wparts eid p = Some p' \<Longrightarrow> metrics_ok p'"
  using deliver_metrics [of "updReader eid r p" for r]
  by (fastforce simp: dispatchOne_def Let_def count_metrics_ok split: option.splits if_splits prod.splits)

lemma seqM_preserves:
  assumes "\<And>x s s' outs. P s \<Longrightarrow> f x s = Some (s', outs) \<Longrightarrow> P s'"
  shows "P s \<Longrightarrow> seqM f xs s = Some (s', outs) \<Longrightarrow> P s'"
proof (induction xs arbitrary: s outs)
  case (Cons x xs)
  then obtain s1 o1 o2 where "f x s = Some (s1, o1)" "seqM f xs s1 = Some (s', o2)" by (auto split: option.splits)
  then show ?case using assms Cons by blast
qed simp

lemma dispatch_metrics:
  assumes "metrics_ok p" "dispatchToReaders now source tf payload ts sq wparts p = Some p'"
  shows "metrics_ok p'"
proof -
  obtain outs where "seqM (\<lambda>eid q. map_option (\<lambda>q'. (q', [] :: out list))
      (dispatchOne now source tf payload ts sq wparts eid q)) (map fst (readers p)) p = Some (p', outs)"
    using assms(2) by (auto simp: dispatchToReaders_def)
  then show ?thesis by (rule seqM_preserves [where P = metrics_ok, rotated 2]) (auto intro: dispatchOne_metrics assms(1))
qed

section \<open>The invariant\<close>

definition reader_ok :: "EntityId \<Rightarrow> rtpsReader \<Rightarrow> bool" where
  "reader_ok eid r \<longleftrightarrow> ch_ok r \<and> r_eid r = eid \<and> (\<forall>g t. trackers r g = Some t \<longrightarrow> tracker_inv t)"

definition ring_ok :: "sendHistory \<Rightarrow> bool" where
  "ring_ok h \<longleftrightarrow> sh_depth h = 256 \<and> length (sh_msg h) = 256 \<and> length (sh_sn h) = 256 \<and> length (sh_filled h) = 256"

definition writer_ok :: "EntityId \<Rightarrow> rtpsWriter \<Rightarrow> bool" where
  "writer_ok eid w \<longleftrightarrow> w_eid w = eid \<and> ring_ok (w_history w)"

text \<open>The writers whose announcement decodes and, where an endpoint plug-in is configured, verifies.\<close>

definition verified ::
  "(gostring \<Rightarrow> gostring list \<Rightarrow> (bytes \<Rightarrow> bool) option) \<Rightarrow> pconfig \<Rightarrow> endpointInfo set"
where
  "verified parse c = {i. \<exists>prefix payload from a. decodeAnnounce prefix payload True from = Some a
     \<and> i = compileFilter parse a
     \<and> (case endpointPlugin c of None \<Rightarrow> True
        | Some ep \<Rightarrow> VerifyEndpoint ep prefix (topicName i) (endpointTag a))}"

definition ids_ok :: "'r participant \<Rightarrow> bool" where
  "ids_ok p \<longleftrightarrow> unat (entityCounter p) < 2 ^ 24
     \<and> (\<forall>k \<in> fst ` set (localReaders (sedp p)). \<exists>n. unat n \<le> unat (entityCounter p) \<and> k = entityIdForReader n)"

definition pinv :: "(gostring \<Rightarrow> gostring list \<Rightarrow> (bytes \<Rightarrow> bool) option) \<Rightarrow> 'r participant \<Rightarrow> bool" where
  "pinv parse p \<longleftrightarrow>
     distinct (map fst (readers p)) \<and> (\<forall>k r. map_of (readers p) k = Some r \<longrightarrow> reader_ok k r)
     \<and> distinct (map fst (writers p)) \<and> (\<forall>k w. map_of (writers p) k = Some w \<longrightarrow> writer_ok k w)
     \<and> metrics_ok p \<and> match_inv p (verified parse (cfg p)) \<and> ids_ok p"

lemma pinv_readers_ok: "pinv parse p \<Longrightarrow> readers_ok p"
  by (simp add: pinv_def readers_ok_def reader_ok_def)

lemma pinv_cong:
  assumes "readers q = readers p" "writers q = writers p" "metrics q = metrics p" "topicMetrics q = topicMetrics p"
    "cfg q = cfg p" "entityCounter q = entityCounter p"
    "localReaders (sedp q) = localReaders (sedp p)" "remoteWriters (sedp q) = remoteWriters (sedp p)"
  shows "pinv parse q = pinv parse p"
  unfolding pinv_def assms metrics_ok_cong [OF assms(3,4)] match_inv_cong [OF assms(7,8,1)] ids_ok_def ..

lemma pinv_update [simp]:
  "pinv parse (p\<lparr>lastSample := ls\<rparr>) = pinv parse p" "pinv parse (p\<lparr>files := fs\<rparr>) = pinv parse p"
  "pinv parse (p\<lparr>ownership := ow\<rparr>) = pinv parse p" "pinv parse (p\<lparr>antiReplay := ar\<rparr>) = pinv parse p"
  "pinv parse (p\<lparr>seqCounter := sc\<rparr>) = pinv parse p" "pinv parse (p\<lparr>spdp := sp\<rparr>) = pinv parse p"
  "pinv parse (p\<lparr>tsnSocks := ts\<rparr>) = pinv parse p" "pinv parse (p\<lparr>p_closed := cl\<rparr>) = pinv parse p"
  "pinv parse (p\<lparr>writerLocators := wl\<rparr>) = pinv parse p" "pinv parse (p\<lparr>wsConns := wc\<rparr>) = pinv parse p"
  by (rule pinv_cong; simp)+

lemma pinv_init: "pinv parse (initParticipant c ar)"
  by (simp add: pinv_def initParticipant_def metrics_ok_def match_inv_def tables_keyed_def newSEDPService_def ids_ok_def)

lemma pinv_updWriter:
  assumes "pinv parse p" "writer_ok eid w"
  shows "pinv parse (updWriter eid w p)"
proof -
  have "match_inv (updWriter eid w p) A = match_inv p A" for A by (rule match_inv_cong) simp_all
  then show ?thesis using assms
    by (auto simp: pinv_def ids_ok_def metrics_ok_def updWriter_def distinct_update update_conv' split: if_splits)
qed

lemma pinv_writer: "pinv parse p \<Longrightarrow> map_of (writers p) eid = Some w \<Longrightarrow> writer_ok eid w"
  by (simp add: pinv_def)

lemma pinv_countWrite: "pinv parse p \<Longrightarrow> pinv parse (countWrite t n p)"
proof -
  assume p: "pinv parse p"
  have "match_inv (countWrite t n p) A = match_inv p A" for A by (rule match_inv_cong) simp_all
  moreover have "entityCounter (countWrite t n p) = entityCounter p" by (simp add: countWrite_def updTopicCounter_def)
  ultimately show ?thesis using p by (simp add: pinv_def ids_ok_def count_metrics_ok(3))
qed

text \<open>
  Changes to reader entries that keep what matching and delivery rely on: topic, partitions and
  accepted sources, and the well-formedness of the entry.
\<close>

definition reader_le :: "EntityId \<Rightarrow> rtpsReader \<Rightarrow> rtpsReader \<Rightarrow> bool" where
  "reader_le eid r r' \<longleftrightarrow> r_topic r' = r_topic r \<and> r_partitions r' = r_partitions r \<and> sources r' = sources r
     \<and> (reader_ok eid r \<longrightarrow> reader_ok eid r')"

lemma pinv_readers:
  assumes "pinv parse p"
    and "cfg q = cfg p" "entityCounter q = entityCounter p" "writers q = writers p"
      "localReaders (sedp q) = localReaders (sedp p)" "remoteWriters (sedp q) = remoteWriters (sedp p)" "metrics_ok q"
    and "map fst (readers q) = map fst (readers p)"
    and "\<And>k r. map_of (readers p) k = Some r \<Longrightarrow> \<exists>r'. map_of (readers q) k = Some r' \<and> reader_le k r r'"
  shows "pinv parse q"
proof -
  have bk: "\<exists>r. map_of (readers p) k = Some r \<and> reader_le k r r'" if r': "map_of (readers q) k = Some r'" for k r'
  proof -
    have "k \<in> fst ` set (readers p)" using r' assms(8) by (metis list.set_map map_of_eq_None_iff option.distinct(1))
    then obtain r where r: "map_of (readers p) k = Some r" by (metis map_of_eq_None_iff not_Some_eq)
    with assms(9) [OF r] r' show ?thesis by auto
  qed
  have lk: "reader_linked q A k r' = reader_linked p A k r" if "reader_le k r r'" for A k r r'
    using that assms(5,6) by (simp add: reader_linked_def reader_le_def wmatch_def)
  have "match_inv q A" if m: "match_inv p A" for A
    unfolding match_inv_def
  proof (intro conjI allI impI)
    show "tables_keyed q A" using m assms(5,6) by (simp add: match_inv_def tables_keyed_def)
    fix k r' assume "map_of (readers q) k = Some r'"
    then obtain r where r: "map_of (readers p) k = Some r" "reader_le k r r'" using bk by blast
    show "reader_linked q A k r'" using m r(1) by (simp add: lk [OF r(2)] match_inv_def)
  qed
  moreover have "reader_ok k r'" if "map_of (readers q) k = Some r'" for k r'
    using bk [OF that] assms(1) by (auto simp: pinv_def reader_le_def)
  ultimately show ?thesis using assms(1-8) by (simp add: pinv_def ids_ok_def)
qed

lemma reader_le_refl [simp]: "reader_le k r r"
  by (simp add: reader_le_def)

lemma reader_le_live [simp]: "reader_le k r (r\<lparr>r_live := l\<rparr>)"
  by (simp add: reader_le_def reader_ok_def ch_ok_def)

lemma offered_length: "length (chBuf c) \<le> chCap c \<Longrightarrow> length (offered bp x c) \<le> chCap c"
  by (cases bp) (auto simp: offered_def)

lemma reader_le_moved: "moved (chanAfter b s r) r r' \<Longrightarrow> reader_le k r r'"
  by (auto simp: moved_def reader_le_def reader_ok_def ch_ok_def chanAfter_def offered_length split: if_splits)

lemma tracker_inv_steps:
  "tracker_inv newTracker" "tracker_inv t \<Longrightarrow> tracker_inv (snd (record_seq sq t))"
  "tracker_inv t \<Longrightarrow> tracker_inv (initExpected sq t)" "tracker_inv t \<Longrightarrow> tracker_inv (ackedTracker sq t)"
proof -
  show "tracker_inv newTracker" by (simp add: newTracker_def tracker_inv_def)
  show "tracker_inv t \<Longrightarrow> tracker_inv (snd (record_seq sq t))"
    using record_inv(1) [of t sq "fst (record_seq sq t)" "snd (record_seq sq t)"] by simp
  show "tracker_inv t \<Longrightarrow> tracker_inv (initExpected sq t)" by (auto simp: initExpected_def tracker_inv_def)
  show "tracker_inv t \<Longrightarrow> tracker_inv (ackedTracker sq t)"
    by (auto simp: ackedTracker_def tracker_inv_def split: option.split bool.split)
qed

lemma tracker_inv_for: "reader_ok k r \<Longrightarrow> tracker_inv (trackerFor g r)"
  by (auto simp: reader_ok_def trackerFor_def tracker_inv_steps split: option.split)

lemma reader_le_tracker:
  assumes "reader_ok k r \<Longrightarrow> tracker_inv t"
  shows "reader_le k r (setTracker g t r)"
  using assms by (auto simp: reader_le_def reader_ok_def ch_ok_def setTracker_def)

lemma reader_le_trans: "reader_le k a b \<Longrightarrow> reader_le k b c \<Longrightarrow> reader_le k a c"
  by (simp add: reader_le_def)

lemma reader_le_data:
  "reader_le k r (if b then setTracker g (ackedTracker n (dataTracker g sn r)) r else r)"
  by (auto intro!: reader_le_tracker tracker_inv_steps tracker_inv_for simp: dataTracker_def)

lemma reader_le_heartbeat: "reader_le k r (hbAfter now g hb p r)"
proof -
  let ?r1 = "r\<lparr>r_live := touchLiveliness now g (r_live r)\<rparr>"
  have "tracker_inv (ackedTracker n (hbTracker g hb r))" if "reader_ok k ?r1" for n
    using that tracker_inv_for [of k ?r1 g] by (simp add: hbTracker_def tracker_inv_steps)
  then have "reader_le k ?r1 (setTracker g (ackedTracker n (hbTracker g hb r)) ?r1)" for n
    by (rule reader_le_tracker)
  from reader_le_trans [OF reader_le_live this] show ?thesis by (simp add: hbAfter_def Let_def)
qed

lemma pinv_same_rest:
  assumes "pinv parse p" "same_rest p q" "metrics_ok q"
    and "\<And>k r. map_of (readers p) k = Some r \<Longrightarrow> \<exists>r'. map_of (readers q) k = Some r' \<and> reader_le k r r'"
  shows "pinv parse q"
  using same_rest_sel [OF assms(2)] by (intro pinv_readers [OF assms(1) _ _ _ _ _ assms(3) _ assms(4)]) simp_all

lemma pinv_dispatch:
  assumes "pinv parse p" and d: "dispatchToReaders now source tf payload ts sq wparts p = Some p'"
  shows "pinv parse p'"
proof -
  have ok: "distinct (map fst (readers p))" "\<forall>k r. map_of (readers p) k = Some r \<longrightarrow> ch_ok r"
    using assms(1) by (auto simp: pinv_def reader_ok_def)
  obtain outs where s: "seqM (\<lambda>eid q. map_option (\<lambda>q'. (q', [] :: out list))
      (dispatchOne now source tf payload ts sq wparts eid q)) (map fst (readers p)) p = Some (p', outs)"
    using d by (auto simp: dispatchToReaders_def)
  note S = disp.all_turns(2) [OF ok s]
  show ?thesis
  proof (rule pinv_same_rest [OF assms(1) dispatch_rest [OF d]])
    show "metrics_ok p'" using dispatch_metrics [OF _ d] assms(1) by (simp add: pinv_def)
    show "\<exists>r'. map_of (readers p') k = Some r' \<and> reader_le k r r'" if "map_of (readers p) k = Some r" for k r
      using S that reader_le_moved by blast
  qed
qed

lemma pinv_notify:
  assumes "pinv parse p" and d: "notifyReliableReaders net g sn from p = Some (p', outs)"
  shows "pinv parse p'"
proof -
  have ok: "distinct (map fst (readers p))" "\<forall>k r. map_of (readers p) k = Some r \<longrightarrow> True"
    using assms(1) by (auto simp: pinv_def)
  note S = dat.all_turns(2) [OF ok d [unfolded notifyReliableReaders_def]]
  show ?thesis
  proof (rule pinv_same_rest [OF assms(1) notify_rest [OF d]])
    have "metrics_ok s'" if "metrics_ok s" "notifyOne net g sn from x s = Some (s', o')" for x o' and s s' :: "'a participant"
      using that by (auto simp: notifyOne_def requestMissing_spec split: option.splits if_splits)
    from seqM_preserves [where P = metrics_ok, OF this _ d [unfolded notifyReliableReaders_def]]
    show "metrics_ok p'" using assms(1) by (simp add: pinv_def)
    show "\<exists>r'. map_of (readers p') k = Some r' \<and> reader_le k r r'" if "map_of (readers p) k = Some r" for k r
      using S that reader_le_data by blast
  qed
qed

lemma pinv_heartbeat:
  assumes "pinv parse p" and d: "handleHeartbeat net now g hb from p = Some (p', outs)"
  shows "pinv parse p'"
proof -
  have ok: "distinct (map fst (readers p))" "\<forall>k r. map_of (readers p) k = Some r \<longrightarrow> True"
    using assms(1) by (auto simp: pinv_def)
  note S = hbt.all_turns(2) [OF ok d [unfolded handleHeartbeat_def]]
  show ?thesis
  proof (rule pinv_same_rest [OF assms(1) heartbeat_rest [OF d]])
    have "metrics_ok s'" if "metrics_ok s" "heartbeatOne net now g hb from x s = Some (s', o')" for x o' and s s' :: "'a participant"
      using that by (auto simp: heartbeatOne_def requestMissing_spec Let_def split: option.splits if_splits)
    from seqM_preserves [where P = metrics_ok, OF this _ d [unfolded handleHeartbeat_def]]
    show "metrics_ok p'" using assms(1) by (simp add: pinv_def)
    show "\<exists>r'. map_of (readers p') k = Some r' \<and> reader_le k r r'" if "map_of (readers p) k = Some r" for k r
      using S that reader_le_heartbeat by blast
  qed
qed

lemma pinv_updReader:
  assumes "pinv parse p" "map_of (readers p) eid = Some r" "reader_le eid r r'"
  shows "pinv parse (updReader eid r' p)"
proof (rule pinv_same_rest [OF assms(1) same_rest_updReader [OF assms(2)]])
  show "metrics_ok (updReader eid r' p)" using assms(1) by (simp add: pinv_def)
  show "\<exists>r''. map_of (readers (updReader eid r' p)) k = Some r'' \<and> reader_le k r0 r''"
    if "map_of (readers p) k = Some r0" for k r0
    using that assms(2,3) by auto
qed

lemma pinv_mapReaders:
  assumes "pinv parse p" and "\<And>k r. reader_le k r (f r)"
  shows "pinv parse (p\<lparr>readers := map (\<lambda>(k, r). (k, f r)) (readers p)\<rparr>)"
proof (rule pinv_readers [OF assms(1)])
  show "metrics_ok (p\<lparr>readers := map (\<lambda>(k, r). (k, f r)) (readers p)\<rparr>)" using assms(1) by (simp add: pinv_def metrics_ok_def)
  show "\<exists>r'. map_of (readers (p\<lparr>readers := map (\<lambda>(k, r). (k, f r)) (readers p)\<rparr>)) k = Some r' \<and> reader_le k r r'"
    if "map_of (readers p) k = Some r" for k r
    using that assms(2) by (auto simp: map_of_map)
qed (simp_all add: comp_def case_prod_beta)

section \<open>Every step keeps the invariant\<close>

subsection \<open>Writers\<close>

lemma ring_store: "ring_ok h \<Longrightarrow> ring_ok (store sq m h)"
  by (simp add: ring_ok_def store_def Let_def)

lemma pinv_sendHeartbeat: "pinv parse p \<Longrightarrow> pinv parse (fst (sendHeartbeatLocked net eid p))"
proof (cases "map_of (writers p) eid")
  case (Some w)
  assume p: "pinv parse p"
  have w: "writer_ok eid (w\<lparr>w_history := (w_history w)\<lparr>sh_hbCount := n\<rparr>\<rparr>)" for n
    using pinv_writer [OF p Some] by (simp add: writer_ok_def ring_ok_def)
  show ?thesis using p pinv_updWriter [OF p w] Some
    by (auto simp: sendHeartbeatLocked_def Let_def split: option.split prod.split)
qed (simp add: sendHeartbeatLocked_def)

lemma pinv_heartbeatTick: "pinv parse p \<Longrightarrow> pinv parse (fst (heartbeatTick net eid p))"
  by (simp add: heartbeatTick_def pinv_sendHeartbeat split: option.split)

lemma pinv_handleAckNack: "pinv parse p \<Longrightarrow> pinv parse (fst (handleAckNack net an from p))"
proof (cases "map_of (writers p) (anWriter an)")
  case (Some w)
  assume p: "pinv parse p"
  have "w_eid (advanceAcked b w) = w_eid w" for b by (simp add: advanceAcked_def Let_def)
  then have w: "writer_ok (anWriter an) (advanceAcked b w)" for b
    using pinv_writer [OF p Some] by (simp add: writer_ok_def)
  show ?thesis using p pinv_updWriter [OF p w] Some by (simp add: handleAckNack_def Let_def)
qed (simp add: handleAckNack_def)

lemma pinv_persistFlush: "pinv parse p \<Longrightarrow> pinv parse (persistFlush c t x p)"
  by (simp add: persistFlush_def)

lemma pinv_publish:
  assumes "pinv parse p" "writer_ok eid w" "publish env eid w payload wire p = Some (p', outs)"
  shows "pinv parse p'"
proof -
  obtain msgs w1 p4 where m: "storeFirst msgs w = Some w1"
    and d: "dispatchToReaders (envNow env) (GUID (ownPrefix p) (w_eid w)) (w_topic w) payload (envNow env) (w_seq w)
      (w_partitions w) (persistFlush (envCreate env) (w_topic w) payload ((updWriter eid w1 p)\<lparr>lastSample :=
      (lastSample p)(w_topic w \<mapsto> \<lparr>Topic = w_topic w, Payload = payload, Timestamp = envNow env,
       SampleSeq = 0, WriterGUID = replicate 16 0\<rparr>)\<rparr>)) = Some p4"
    and p': "p' = p4 \<or> p' = fst (sendHeartbeatLocked (envNet env) eid p4)"
    using assms(3) by (auto simp: publish_def Let_def split: option.splits if_splits prod.splits)
  have "writer_ok eid w1"
    using m assms(2) by (auto simp: storeFirst_def writer_ok_def ring_store split: if_splits list.splits)
  from pinv_updWriter [OF assms(1) this] have "pinv parse p4"
    by (intro pinv_dispatch [OF _ d] pinv_persistFlush) simp
  then show ?thesis using p' pinv_sendHeartbeat by blast
qed

lemma pinv_Write:
  assumes "pinv parse p" "Write env eid payload p = Some (err, p', outs)"
  shows "pinv parse p'"
proof -
  obtain w where w: "map_of (writers p) eid = Some w" using assms(2) by (auto simp: Write_def split: option.splits)
  let ?w1 = "(rearmDeadline (envNow env) w)\<lparr>w_seq := w_seq w + 1\<rparr>"
  let ?p1 = "updWriter eid ?w1 (countWrite (w_topic w) (length payload) p)"
  have w1: "writer_ok eid ?w1" using pinv_writer [OF assms(1) w] by (simp add: writer_ok_def)
  have p1: "pinv parse ?p1" by (rule pinv_updWriter [OF pinv_countWrite [OF assms(1)] w1])
  show ?thesis
    using assms w p1 pinv_publish [OF p1 w1] by (auto simp: Write_def Let_def split: if_splits option.splits)
qed

lemma pinv_livelinessTick: "pinv parse p \<Longrightarrow> pinv parse (fst (livelinessTick net now eid p))"
proof (cases "map_of (writers p) eid")
  case (Some w)
  assume p: "pinv parse p"
  have w: "writer_ok eid (w\<lparr>livelinessSeq := n\<rparr>)" for n
    using pinv_writer [OF p Some] by (simp add: writer_ok_def)
  let ?f = "\<lambda>g r. if r_topic r = w_topic w \<and> partitionsMatch (w_partitions w) (r_partitions r)
      then r\<lparr>r_live := touchLiveliness now g (r_live r)\<rparr> else r"
  have "pinv parse ((updWriter eid (w\<lparr>livelinessSeq := n\<rparr>) p)\<lparr>readers := map (\<lambda>(k, r). (k, ?f g r)) (readers p)\<rparr>)" for n g
    using pinv_mapReaders [OF pinv_updWriter [OF p w], of "?f g" n] by simp
  then show ?thesis using p Some by (simp add: livelinessTick_def assertLiveliness_def Let_def)
qed (simp add: livelinessTick_def)

lemma pinv_deadline: "pinv parse p \<Longrightarrow> pinv parse (fst (deadlineFires now eid p))"
proof (cases "map_of (writers p) eid")
  case (Some w)
  assume p: "pinv parse p"
  have w: "writer_ok eid (w\<lparr>w_deadlineTimer := x\<rparr>)" for x
    using pinv_writer [OF p Some] by (simp add: writer_ok_def)
  show ?thesis using p Some pinv_updWriter [OF p w] by (simp add: deadlineFires_def split: option.split)
qed (simp add: deadlineFires_def)

lemma pinv_writerClose: "pinv parse p \<Longrightarrow> pinv parse (writerClose eid p)"
proof (cases "map_of (writers p) eid")
  case (Some w)
  assume p: "pinv parse p"
  have "writer_ok eid (w\<lparr>w_closed := True, hbRunning := False, livelinessRunning := False, w_deadlineTimer := None\<rparr>)"
    using pinv_writer [OF p Some] by (simp add: writer_ok_def)
  then show ?thesis using p Some pinv_updWriter [OF p] by (simp add: writerClose_def Let_def)
qed (simp add: writerClose_def)

lemma pinv_Close: "pinv parse p \<Longrightarrow> pinv parse (Close p)"
proof -
  have "pinv parse q \<Longrightarrow> pinv parse (fold writerClose es q)" for es and q :: "'a participant"
    by (induction es arbitrary: q) (auto simp: pinv_writerClose)
  then show "pinv parse p \<Longrightarrow> ?thesis" by (simp add: Close_def)
qed

subsection \<open>Packets\<close>

lemma pinv_replay: "pinv parse p \<Longrightarrow> pinv parse (snd (replayCheck sq ts p))"
  by (auto simp: replayCheck_def split: option.split prod.split)

lemma pinv_handleData:
  assumes "pinv parse p" "handleData net now prefix from body ts p = Some (p', outs)"
  shows "pinv parse p'"
proof -
  have tk: "pinv parse p'" if "notifyReliableReaders net g sn from (snd (replayCheck n ts p)) = Some x"
    "dispatchToReaders now g [] payload ts sq [] (fst x) = Some p'" for g sn n x payload sq
    using pinv_dispatch [OF pinv_notify [OF pinv_replay [OF assms(1)]] that(2)] that(1) by (cases x) auto
  show ?thesis
    using assms pinv_replay [OF assms(1)]
    by (auto simp: handleData_def Let_def case_prod_beta split: option.splits if_splits intro: tk)
qed

definition okState :: "(gostring \<Rightarrow> gostring list \<Rightarrow> (bytes \<Rightarrow> bool) option) \<Rightarrow> 'r dataState \<Rightarrow> bool" where
  "okState parse st \<longleftrightarrow> (case st of None \<Rightarrow> True | Some (ts, p, outs) \<Rightarrow> pinv parse p)"

lemma dataSubmsg_ok: "okState parse st \<Longrightarrow> okState parse (fst (dataSubmsg net now prefix from sid fl body st))"
proof (cases st)
  case (Some x)
  assume ok: "okState parse st"
  obtain ts p outs where x: "x = (ts, p, outs)" by (cases x)
  then have p: "pinv parse p" using ok Some by (simp add: okState_def)
  have data: "okState parse (map_option (\<lambda>(p1, o1). (ts, p1, outs @ o1)) (handleData net now prefix from body ts p))"
    using pinv_handleData [OF p] by (auto simp: okState_def split: option.split)
  have hb: "okState parse (map_option (\<lambda>(p1, o1). (ts, p1, outs @ o1)) (handleHeartbeat net now g hb from p))" for g hb
    using pinv_heartbeat [OF p] by (auto simp: okState_def split: option.split)
  have an: "okState parse (let (p1, o1) = handleAckNack net an from p in Some (ts, p1, outs @ o1))" for an
    using pinv_handleAckNack [OF p, of net an "from"] by (auto simp: okState_def split: prod.split)
  have id: "okState parse (Some (t, p, outs))" for t using p by (simp add: okState_def)
  show ?thesis
    using data hb an id by (simp add: dataSubmsg_def Some x Let_def split: option.split)
qed (simp add: dataSubmsg_def okState_def)

lemma pinv_handleDataPacket:
  assumes "pinv parse p" "handleDataPacket net now data from p = Some (p', outs)"
  shows "pinv parse p'"
proof -
  have "okState parse (fst (parseSubmessages (dataSubmsg net now prefix from) (drop 20 data) (Some (zeroTime, p, []))))"
    for prefix
    by (rule parseSubmessages_preserves [where P = "okState parse", OF dataSubmsg_ok])
      (use assms(1) in \<open>simp_all add: okState_def\<close>)
  then show ?thesis
    using assms by (fastforce simp: handleDataPacket_def okState_def split: option.splits if_splits)
qed

subsection \<open>Discovery\<close>

lemma readerByEID_sel [simp]:
  "cfg (readerByEID eid f p) = cfg p" "writers (readerByEID eid f p) = writers p" "metrics (readerByEID eid f p) = metrics p"
  "topicMetrics (readerByEID eid f p) = topicMetrics p" "entityCounter (readerByEID eid f p) = entityCounter p"
  by (simp_all add: readerByEID_def split: option.split)

lemma readerByEID_keys [simp]: "map fst (readers (readerByEID eid f p)) = map fst (readers p)"
proof (cases "map_of (readers p) eid")
  case (Some r)
  then have "eid \<in> set (map fst (readers p))" by (force dest: map_of_SomeD)
  with Some show ?thesis by (simp add: readerByEID_def map_fst_update del: set_map)
qed (simp add: readerByEID_def)

lemma fold_readerByEID_sel:
  "cfg (fold (\<lambda>eid. readerByEID eid f) es p) = cfg p" "writers (fold (\<lambda>eid. readerByEID eid f) es p) = writers p"
  "metrics (fold (\<lambda>eid. readerByEID eid f) es p) = metrics p"
  "topicMetrics (fold (\<lambda>eid. readerByEID eid f) es p) = topicMetrics p"
  "entityCounter (fold (\<lambda>eid. readerByEID eid f) es p) = entityCounter p"
  "map fst (readers (fold (\<lambda>eid. readerByEID eid f) es p)) = map fst (readers p)"
  by (induction es arbitrary: p) simp_all

lemma onRemoteWriter_sel:
  "cfg (onRemoteWriter now info loc p) = cfg p" "writers (onRemoteWriter now info loc p) = writers p"
  "metrics (onRemoteWriter now info loc p) = metrics p" "topicMetrics (onRemoteWriter now info loc p) = topicMetrics p"
  "entityCounter (onRemoteWriter now info loc p) = entityCounter p"
  "map fst (readers (onRemoteWriter now info loc p)) = map fst (readers p)"
  by (simp_all add: onRemoteWriter_def Let_def addWriterLocator_def updSedp_def fold_readerByEID_sel)

lemma reader_ok_linkWriter: "reader_ok k r \<Longrightarrow> reader_ok k (linkWriter now g l r)"
  by (simp add: reader_ok_def ch_ok_def linkWriter_def addSourceGUID_def Let_def)

lemma pinv_onRemoteWriter:
  assumes "pinv parse p" "info \<in> verified parse (cfg p)"
  shows "pinv parse (onRemoteWriter now info loc p)"
proof -
  let ?q = "onRemoteWriter now info loc p"
  have m: "match_inv p (verified parse (cfg p))" using assms(1) by (simp add: pinv_def)
  then have k: "tables_keyed p (verified parse (cfg p))" by (simp add: match_inv_def)
  have "match_inv ?q (verified parse (cfg ?q))"
    using onRemoteWriter_match_inv [OF m, of now info loc] assms(2) by (simp add: insert_absorb onRemoteWriter_sel)
  moreover have "reader_ok e r" if "map_of (readers ?q) e = Some r" for e r
    using that assms(1) unfolding onRemoteWriter_frame(1) [OF k]
    by (auto simp: pinv_def reader_ok_linkWriter split: if_splits)
  moreover have "ids_ok ?q" using assms(1) by (simp add: pinv_def ids_ok_def onRemoteWriter_sel onRemoteWriter_frame(2) [OF k])
  moreover have "metrics_ok ?q = metrics_ok p" by (rule metrics_ok_cong) (simp_all add: onRemoteWriter_sel)
  ultimately show ?thesis using assms(1) by (simp add: pinv_def onRemoteWriter_sel)
qed

lemma pinv_onRemoteReader: "pinv parse p \<Longrightarrow> pinv parse (onRemoteReader info loc p)"
  by (subst pinv_cong [of _ p]) (simp_all add: onRemoteReader_def updSedp_def)

lemma pinv_handleEndpointAnnounce:
  assumes "pinv parse p"
  shows "pinv parse (handleEndpointAnnounce parse now prefix payload w from p)"
proof (cases "decodeAnnounce prefix payload w from")
  case None
  then show ?thesis using assms by (simp add: handleEndpointAnnounce_def)
next
  case (Some a)
  have "compileFilter parse a \<in> verified parse (cfg p)"
    if "w" "\<not> (case endpointPlugin (cfg p) of
                Some ep \<Rightarrow> \<not> VerifyEndpoint ep prefix (topicName (compileFilter parse a)) (endpointTag a)
              | None \<Rightarrow> False)"
    using Some that unfolding verified_def by (auto split: option.splits)
  then show ?thesis
    using assms Some by (auto simp: handleEndpointAnnounce_def Let_def pinv_onRemoteWriter pinv_onRemoteReader)
qed

lemma pinv_sedp:
  assumes "pinv parse p"
  shows "pinv parse (sedpHandlePacket parse now data from p)"
proof -
  have c: "pinv parse (fst (sedpSubmsg parse now pre from i fl b s))" if "pinv parse s" for pre i fl b and s :: "'a participant"
    using that by (simp add: sedpSubmsg_def pinv_handleEndpointAnnounce split: option.split)
  show ?thesis
    using assms parseSubmessages_preserves [where P = "pinv parse", OF c]
    by (simp add: sedpHandlePacket_def split: option.split)
qed

lemma pinv_nextSeqNum: "pinv parse p \<Longrightarrow> pinv parse (snd (nextSeqNum p))"
  by (simp add: nextSeqNum_def)

lemma pinv_announceEndpoint: "pinv parse p \<Longrightarrow> pinv parse (fst (announceEndpoint net wid rid info proxy p))"
  by (simp add: announceEndpoint_def nextSeqNum_def Let_def)

lemma seqOps_preserves:
  assumes "\<And>x s. P s \<Longrightarrow> P (fst (f x s))"
  shows "P s \<Longrightarrow> P (fst (seqOps f xs s))"
proof (induction xs arbitrary: s)
  case (Cons x xs)
  then have "P (fst (f x s))" using assms by blast
  from Cons.IH [OF this] show ?case by (simp add: Let_def case_prod_beta)
qed simp

lemma pinv_onNewPeer: "pinv parse p \<Longrightarrow> pinv parse (fst (onNewPeer net proxy p))"
  by (simp add: onNewPeer_def Let_def case_prod_beta)
    (intro seqOps_preserves [where P = "pinv parse"]; simp add: announceWriter_def announceReader_def pinv_announceEndpoint)

lemma pinv_updSpdp [simp]: "pinv parse (updSpdp f p) = pinv parse p"
  by (simp add: updSpdp_def)

lemma pinv_storePeer: "pinv parse p \<Longrightarrow> pinv parse (fst (storePeer now proxy p))"
  by (simp add: storePeer_def Let_def)

lemma pinv_buildAnnouncement: "pinv parse p \<Longrightarrow> pinv parse (snd (buildAnnouncementMessage p))"
  by (simp add: buildAnnouncementMessage_def nextSeqNum_def Let_def)

lemma pinv_sendAnnouncement: "pinv parse p \<Longrightarrow> pinv parse (fst (sendAnnouncement p))"
  using pinv_buildAnnouncement [of parse "updSpdp (\<lambda>s. s\<lparr>announcesSent := announcesSent s + 1\<rparr>) p"]
  by (simp add: sendAnnouncement_def Let_def case_prod_beta)

lemma pinv_spdp:
  assumes "pinv parse p"
  shows "pinv parse (fst (spdpHandlePacket net now data from p))"
proof -
  have c: "(pinv parse \<circ> fst) (fst (spdpSubmsg net now pre from i fl b s))" if "(pinv parse \<circ> fst) s" for pre i fl b
    and s :: "'a participant \<times> out list"
    using that by (auto simp: spdpSubmsg_def Let_def pinv_onNewPeer pinv_storePeer case_prod_beta split: option.split)
  show ?thesis
    using assms parseSubmessages_preserves [where P = "pinv parse \<circ> fst", OF c, where s = "(p, [])"]
    by (simp add: spdpHandlePacket_def split: option.split)
qed

lemma pinv_onPeerEvicted:
  assumes "pinv parse p"
  shows "pinv parse (onPeerEvicted g p)"
proof -
  let ?q = "onPeerEvicted g p"
  have s: "cfg ?q = cfg p" "writers ?q = writers p" "readers ?q = readers p" "metrics ?q = metrics p"
    "topicMetrics ?q = topicMetrics p" "entityCounter ?q = entityCounter p"
    "localReaders (sedp ?q) = localReaders (sedp p)"
    by (simp_all add: onPeerEvicted_def updSedp_def Let_def)
  have "match_inv ?q (verified parse (cfg p))"
    by (rule onPeerEvicted_match_inv) (use assms in \<open>simp add: pinv_def\<close>)
  then show ?thesis using assms metrics_ok_cong [OF s(4,5)] by (simp add: pinv_def s ids_ok_def)
qed

lemma pinv_evictExpired: "pinv parse p \<Longrightarrow> pinv parse (fst (evictExpired now p))"
  by (simp add: evictExpired_def Let_def) (intro seqOps_preserves [where P = "pinv parse"]; simp add: pinv_onPeerEvicted)

lemma pinv_recordRelayID: "pinv parse p \<Longrightarrow> pinv parse (recordRelayID prefix rid p)"
  by (simp add: recordRelayID_def split: option.split)

lemma pinv_wsReply: "pinv parse p \<Longrightarrow> pinv parse (fst (wsReplyToNewWSPeer data peer p))"
  by (simp add: wsReplyToNewWSPeer_def pinv_buildAnnouncement case_prod_beta split: option.split)

lemma pinv_tcp:
  assumes "pinv parse p" "dispatchTCPPacket parse net now data from p = Some (p', outs)"
  shows "pinv parse p'"
proof -
  define P where "P = (\<lambda>s :: bool \<times> ('a participant \<times> out list) option.
     case snd s of None \<Rightarrow> True | Some (q, _) \<Rightarrow> pinv parse q)"
  have c: "P (fst (tcpSubmsg parse net now data from i fl b s))" if "P s" for i fl b s
  proof (cases "snd s")
    case None
    then show ?thesis by (cases s) (simp add: tcpSubmsg_def P_def)
  next
    case (Some x)
    obtain q o' where x: "x = (q, o')" by (cases x)
    have q: "pinv parse q" using that Some x by (simp add: P_def)
    show ?thesis
      using that Some x pinv_handleDataPacket [OF q] pinv_spdp [OF q, of net now data "from"]
      by (cases s) (auto simp: tcpSubmsg_def P_def pinv_sedp [OF q] case_prod_beta split: option.split)
  qed
  have "P (False, Some (p, []))" using assms(1) by (simp add: P_def)
  from parseSubmessages_preserves [where P = P and fn = "tcpSubmsg parse net now data from" and body = "drop 20 data", OF c this] show ?thesis
    using assms by (auto simp: dispatchTCPPacket_def P_def split: option.splits if_splits)
qed

lemma pinv_relay:
  assumes "pinv parse p" "dispatchRelayPacket parse net now data rid p = Some (p', outs)"
  shows "pinv parse p'"
  using assms(2) pinv_tcp [OF assms(1)]
  by (fastforce simp: dispatchRelayPacket_def pinv_recordRelayID split: option.splits)

subsection \<open>Creation\<close>

lemma entityIdForReader_fresh:
  assumes "ids_ok p" "mayCreate p"
  shows "entityIdForReader (entityCounter p + 1) \<notin> fst ` set (localReaders (sedp p))"
proof
  assume "entityIdForReader (entityCounter p + 1) \<in> fst ` set (localReaders (sedp p))"
  then obtain n where n: "unat n \<le> unat (entityCounter p)" "entityIdForReader (entityCounter p + 1) = entityIdForReader n"
    using assms(1) by (auto simp: ids_ok_def)
  have u: "unat (entityCounter p + 1) = unat (entityCounter p) + 1"
    using assms(2) by (simp add: mayCreate_def unat_plus_if')
  have "entityIdForWriter (entityCounter p + 1) = entityIdForWriter n"
    using n(2) by (simp add: entityIdForReader_def entityIdForWriter_def)
  then have "take_bit 24 (entityCounter p + 1) = take_bit 24 n" by (simp add: entityIdForWriter_inj)
  then have "unat (entityCounter p + 1) mod 2 ^ 24 = unat n mod 2 ^ 24"
    by (simp add: take_bit_eq_mod unat_mod_distrib word_unat_eq_iff)
  then show False using n(1) u assms(2) by (simp add: mayCreate_def)
qed

lemma wireTSN_pinv: "pinv parse p \<Longrightarrow> pinv parse (snd (snd (wireTSN canOpen t qos p)))"
  by (auto simp: wireTSN_def tsnSocketForPCP_def Let_def split: option.split)

lemma pinv_counter:
  assumes "pinv parse p" "mayCreate p"
  shows "pinv parse (p\<lparr>entityCounter := entityCounter p + 1\<rparr>)"
proof -
  have u: "unat (entityCounter p + 1) = unat (entityCounter p) + 1"
    using assms(2) by (simp add: mayCreate_def unat_plus_if')
  have "match_inv (p\<lparr>entityCounter := n\<rparr>) A = match_inv p A" for n A by (rule match_inv_cong) simp_all
  moreover have "ids_ok (p\<lparr>entityCounter := entityCounter p + 1\<rparr>)"
    unfolding ids_ok_def
  proof (intro conjI ballI)
    show "unat (entityCounter (p\<lparr>entityCounter := entityCounter p + 1\<rparr>)) < 2 ^ 24"
      using u assms(2) by (simp add: mayCreate_def)
    fix k assume "k \<in> fst ` set (localReaders (sedp (p\<lparr>entityCounter := entityCounter p + 1\<rparr>)))"
    then have "k \<in> fst ` set (localReaders (sedp p))" by simp
    then obtain n where "unat n \<le> unat (entityCounter p)" "k = entityIdForReader n"
      using assms(1) unfolding pinv_def ids_ok_def by blast
    then show "\<exists>n. unat n \<le> unat (entityCounter (p\<lparr>entityCounter := entityCounter p + 1\<rparr>)) \<and> k = entityIdForReader n"
      using u by (intro exI [of _ n]) simp
  qed
  moreover have "metrics_ok (p\<lparr>entityCounter := n\<rparr>) = metrics_ok p" for n by (rule metrics_ok_cong) simp_all
  ultimately show ?thesis using assms(1) by (simp add: pinv_def)
qed

lemma newHistory_ring: "ring_ok newSendHistory"
  by (simp add: ring_ok_def newSendHistory_def maxHistoryDepth_def)

lemma pinv_localWriters: "pinv parse (updSedp (\<lambda>s. s\<lparr>localWriters := f s\<rparr>) p) = pinv parse p"
  by (rule pinv_cong) (simp_all add: updSedp_def)

lemma pinv_registerWriter: "pinv parse p \<Longrightarrow> pinv parse (fst (registerWriter net eid t tn qos p))"
  unfolding registerWriter_def Let_def announceWriter_def
  by (rule pinv_announceEndpoint) (simp only: pinv_localWriters)

lemma pinv_leaseLocal: "pinv parse p \<Longrightarrow> pinv parse (leaseLocalReaders now t qos g p)"
  unfolding leaseLocalReaders_def by (rule pinv_mapReaders) simp_all

lemma pinv_createPublisher:
  assumes "pinv parse p" "mayCreate p"
  shows "pinv parse (fst (snd (createPublisher env t tn qos p)))"
proof -
  define n where "n = entityCounter p + 1"
  define g where "g = GUID (ownPrefix p) (entityIdForWriter n)"
  define p1 where "p1 = p\<lparr>entityCounter := n\<rparr>"
  define p2 where "p2 = (if Ownership qos = ExclusiveOwnership then p1\<lparr>ownership :=
      (ownership p1)(t \<mapsto> register g (OwnershipStrength qos) (ownershipStateFor t (ownership p1)))\<rparr> else p1)"
  define p3 where "p3 = (if LivelinessLeaseDuration qos > 0 then leaseLocalReaders (envNow env) t qos g p2 else p2)"
  obtain stream sock p4 where tsn: "wireTSN (envSocket env) t qos p3 = (stream, sock, p4)"
    by (cases "wireTSN (envSocket env) t qos p3")
  let ?w = "newWriter (envNow env) (entityIdForWriter n) t qos stream sock p"
  have e: "createPublisher env t tn qos p = (entityIdForWriter n,
      registerWriter (envNet env) (entityIdForWriter n) t tn qos (updWriter (entityIdForWriter n) ?w p4))"
    unfolding createPublisher_def Let_def n_def [symmetric] g_def [symmetric] p1_def [symmetric] p2_def [symmetric]
      p3_def [symmetric] tsn by simp
  have w: "writer_ok (entityIdForWriter n) ?w" by (simp add: newWriter_def Let_def writer_ok_def newHistory_ring)
  have "pinv parse p1" using pinv_counter [OF assms] by (simp add: p1_def n_def)
  then have "pinv parse p2" by (simp add: p2_def)
  then have "pinv parse p3" by (simp add: p3_def pinv_leaseLocal)
  then have "pinv parse p4" using wireTSN_pinv [of parse p3 "envSocket env" t qos] tsn by simp
  from pinv_registerWriter [OF pinv_updWriter [OF this w]] show ?thesis by (simp add: e)
qed

lemma pinv_newPublisher:
  assumes "pinv parse p" "mayCreate p" "newPublisherLocked env t tn qos p = (res, p', outs)"
  shows "pinv parse p'"
  using assms(3) pinv_createPublisher [OF assms(1,2), of env t tn qos] assms(1)
  by (auto simp: newPublisherLocked_def split: option.splits prod.splits)

lemma reader_ok_new: "reader_ok eid (newReader now eid t qos c p)"
  by (simp add: reader_ok_def ch_ok_def newReader_def Let_def makeChan_def)

lemma reader_ok_offerLate: "reader_ok eid r \<Longrightarrow> reader_ok eid (offerLate s r)"
  by (auto simp: reader_ok_def ch_ok_def offerLate_def trySend_def split: option.splits)

lemma offerLate_sel: "sources (offerLate s r) = sources r" "r_topic (offerLate s r) = r_topic r"
  "r_partitions (offerLate s r) = r_partitions r"
  by (auto simp: offerLate_def split: option.splits)

lemma lateSample_sel:
  "readers (snd (lateSample t p)) = readers p" "writers (snd (lateSample t p)) = writers p"
  "metrics (snd (lateSample t p)) = metrics p" "topicMetrics (snd (lateSample t p)) = topicMetrics p"
  "cfg (snd (lateSample t p)) = cfg p" "entityCounter (snd (lateSample t p)) = entityCounter p"
  "sedp (snd (lateSample t p)) = sedp p"
  by (simp_all add: lateSample_def Let_def split: option.split)

lemma reader_ok_registered:
  assumes "registerReader net now eid t tn qos r cf p = (r', p', outs)" "reader_ok eid r"
  shows "reader_ok eid r'"
proof -
  have l: "reader_ok eid (fold (\<lambda>rw. linkWriter now (ei_guid rw) (livelinessLease rw)) ws x)" if "reader_ok eid x"
    for ws :: "endpointInfo list" and x
    using that by (induction ws arbitrary: x) (auto simp: reader_ok_linkWriter)
  have "reader_ok eid (r\<lparr>r_contentFilter := cf\<rparr>)" using assms(2) by (simp add: reader_ok_def ch_ok_def)
  from l [OF this] show ?thesis using arg_cong [OF assms(1), of fst, symmetric] by (simp add: registerReader_def Let_def)
qed


lemma registerReader_sel:
  assumes "registerReader net now eid t tn qos r cf p = (r', p', outs)"
  shows "readers p' = readers p" "writers p' = writers p" "metrics p' = metrics p" "topicMetrics p' = topicMetrics p"
    "cfg p' = cfg p" "entityCounter p' = entityCounter p"
    "\<exists>i. localReaders (sedp p') = AList.update eid i (localReaders (sedp p))"
  using arg_cong [OF assms, of "fst \<circ> snd", symmetric]
  by (auto simp: registerReader_def Let_def announceReader_def announceEndpoint_def nextSeqNum_def updSedp_def)

lemma dom_update: "fst ` set (AList.update k v al) = insert k (fst ` set al)"
  by (induction al) auto

lemma pinv_newSubscriber:
  assumes "pinv parse p" "mayCreate p" "newSubscriberLocked env t tn qos opts cf p = (eid, p', outs)"
  shows "pinv parse p'"
proof -
  define n where "n = entityCounter p + 1"
  define p1 where "p1 = p\<lparr>entityCounter := n\<rparr>"
  define r where "r = newReader (envNow env) (entityIdForReader n) t qos (ApplySubscriberOpts opts) p1"
  obtain r1 p2 o2 where reg: "registerReader (envNet env) (envNow env) (entityIdForReader n) t tn qos r cf p1 = (r1, p2, o2)"
    by (cases "registerReader (envNet env) (envNow env) (entityIdForReader n) t tn qos r cf p1")
  define late p3 where "late = fst (if Durability qos = TransientLocal then lateSample t p2 else (None, p2))"
    and "p3 = snd (if Durability qos = TransientLocal then lateSample t p2 else (None, p2))"
  have p': "p' = updReader (entityIdForReader n) (offerLate late r1) p3"
    using assms(3) reg unfolding newSubscriberLocked_def Let_def n_def [symmetric] p1_def [symmetric] r_def [symmetric]
    by (auto simp: late_def p3_def case_prod_beta)
  have i1: "pinv parse p1" using pinv_counter [OF assms(1,2)] by (simp add: p1_def n_def)
  have fresh: "entityIdForReader n \<notin> fst ` set (localReaders (sedp p1))"
    using entityIdForReader_fresh [OF _ assms(2)] assms(1) by (simp add: pinv_def p1_def n_def)
  have r: "sources r = []" "r_topic r = t" "r_partitions r = Partition qos" "reader_ok (entityIdForReader n) r"
    by (simp_all add: r_def newReader_def Let_def reader_ok_def ch_ok_def makeChan_def)
  note sel = registerReader_sel [OF reg]
  have p3: "readers p3 = readers p2" "writers p3 = writers p2" "metrics p3 = metrics p2" "topicMetrics p3 = topicMetrics p2"
    "cfg p3 = cfg p2" "entityCounter p3 = entityCounter p2" "sedp p3 = sedp p2"
    by (simp_all add: p3_def lateSample_sel)
  define q where "q = p2\<lparr>readers := AList.update (entityIdForReader n) r1 (readers p2)\<rparr>"
  have mq: "match_inv q (verified parse (cfg p))"
    using i1 unfolding q_def by (intro registerReader_match_inv [OF _ reg r(1-3) fresh]) (simp add: pinv_def p1_def)
  have sq: "sedp p' = sedp q" by (simp add: p' p3 q_def updReader_def)
  have rl: "reader_linked p' A k x' = reader_linked q A k x"
    if "sources x' = sources x" "r_topic x' = r_topic x" "r_partitions x' = r_partitions x" for A k x x'
    using that by (simp add: reader_linked_def sq wmatch_def)
  have c: "cfg p' = cfg p" by (simp add: p' updReader_def p3 sel(5) p1_def)
  have m: "match_inv p' (verified parse (cfg p'))"
    unfolding match_inv_def c
  proof (intro conjI allI impI)
    show "tables_keyed p' (verified parse (cfg p))" using mq by (simp add: match_inv_def tables_keyed_def sq)
    fix k x' assume x': "map_of (readers p') k = Some x'"
    obtain x where x: "map_of (readers q) k = Some x" "sources x' = sources x" "r_topic x' = r_topic x"
      "r_partitions x' = r_partitions x"
      using x' by (auto simp: p' q_def p3 updReader_def update_conv' offerLate_sel split: if_splits)
    show "reader_linked p' (verified parse (cfg p)) k x'"
      unfolding rl [OF x(2-4)] using mq x(1) by (simp add: match_inv_def)
  qed
  have rk: "reader_ok (entityIdForReader n) (offerLate late r1)"
    by (rule reader_ok_offerLate [OF reader_ok_registered [OF reg r(4)]])
  have "ids_ok p'"
  proof -
    have "ids_ok p1" using i1 by (simp add: pinv_def)
    moreover obtain i where "localReaders (sedp p') = AList.update (entityIdForReader n) i (localReaders (sedp p1))"
      using sel(7) by (auto simp: p' p3 updReader_def)
    moreover have "entityCounter p' = n" "entityCounter p1 = n" by (simp_all add: p' p3 sel(6) p1_def updReader_def)
    ultimately show ?thesis by (auto simp: ids_ok_def dom_update)
  qed
  moreover have "metrics_ok p' = metrics_ok p1" by (rule metrics_ok_cong) (simp_all add: p' updReader_def p3 sel)
  ultimately show ?thesis
    using i1 m rk by (auto simp: pinv_def p' p3 sel updReader_def distinct_update update_conv' split: if_splits)
qed

lemma pinv_subscribe:
  assumes "pinv parse p" "mayCreate p"
  shows "NewSubscriberWithType env t tn qos opts p = (res, p', outs) \<Longrightarrow> pinv parse p'"
    and "NewFilteredSubscriber parse' env t expr ps qos opts p = (res, p', outs) \<Longrightarrow> pinv parse p'"
  using pinv_newSubscriber [OF assms] assms(1)
  by (auto simp: NewSubscriberWithType_def NewFilteredSubscriber_def Let_def split: if_splits option.splits prod.splits)

subsection \<open>The subscriber's methods\<close>

lemma reader_le_TryRead: "reader_le k r (snd (TryRead r))"
  by (auto simp: reader_le_def TryRead_def tryRecv_def reader_ok_def ch_ok_def split: list.splits)

lemma reader_le_monitor: "reader_le k r (snd (monitorTick now r))"
  by (simp add: monitorTick_def case_prod_beta)

lemma pinv_delete:
  assumes "pinv parse p"
  shows "pinv parse (p\<lparr>readers := AList.delete k (readers p)\<rparr>)"
proof -
  let ?q = "p\<lparr>readers := AList.delete k (readers p)\<rparr>"
  have "match_inv ?q A" if "match_inv p A" for A
  proof -
    have "reader_linked ?q A e x = reader_linked p A e x" for e x by (simp add: reader_linked_def)
    then show ?thesis using that by (simp add: match_inv_def tables_keyed_def)
  qed
  moreover have "metrics_ok ?q = metrics_ok p" by (rule metrics_ok_cong) simp_all
  ultimately show ?thesis using assms by (simp add: pinv_def ids_ok_def distinct_delete)
qed

lemma pinv_Unsubscribe: "pinv parse p \<Longrightarrow> pinv parse (snd (Unsubscribe r p))"
  by (simp add: Unsubscribe_def pinv_delete)

lemma pinv_readerClose: "pinv parse p \<Longrightarrow> pinv parse (snd (readerClose r p))"
  using pinv_Unsubscribe [of parse p r] by (simp add: readerClose_def case_prod_beta)

section \<open>All reachable states\<close>

lemma pstep_pinv: "pstep parse p p' \<Longrightarrow> pinv parse p \<Longrightarrow> pinv parse p'"
  by (induction rule: pstep.induct)
    (auto intro: pinv_newPublisher pinv_subscribe pinv_Write pinv_handleDataPacket pinv_sedp pinv_spdp pinv_tcp pinv_relay
      pinv_wsReply pinv_sendAnnouncement pinv_evictExpired pinv_heartbeatTick pinv_livelinessTick pinv_deadline
      pinv_updReader reader_le_monitor reader_le_TryRead pinv_Unsubscribe pinv_readerClose pinv_writerClose pinv_Close)

lemma reachable_pinv: "reachable parse p \<Longrightarrow> pinv parse p"
  by (induction rule: reachable.induct) (auto intro: pinv_init pstep_pinv)

end
