(* ===== verification/Rtps_Errors.thy ===== *)
theory Rtps_Errors
  imports Rtps_Participant
begin

text \<open>
  What a failed write leaves behind (\<^verbatim>\<open>rtps/participant.go\<close>). A rejected payload leaves no trace;
  but the sequence number is taken before the security plug-in is asked to seal the payload, so a
  failure to seal leaves a number that no message will ever carry.
\<close>

section \<open>Runs of writes\<close>

primrec writeRun :: "EntityId \<Rightarrow> (env \<times> bytes) list \<Rightarrow> 'r participant \<Rightarrow> 'r participant option" where
  "writeRun eid [] p = Some p"
| "writeRun eid (x # xs) p =
     (case Write (fst x) eid (snd x) p of None \<Rightarrow> None | Some (_, p', _) \<Rightarrow> writeRun eid xs p')"

text \<open>No slot of the history holds the number.\<close>

definition absent :: "uint64 \<Rightarrow> sendHistory \<Rightarrow> bool" where
  "absent k h \<longleftrightarrow> \<not> (sh_filled h ! unat (k mod sh_depth h) \<and> sh_sn h ! unat (k mod sh_depth h) = k)"

lemma absent_get: "absent k h \<Longrightarrow> get h k = None"
  by (auto simp: absent_def get_def Let_def)

lemma store_slots:
  "sh_depth (store s m h) = sh_depth h" "sh_sn (store s m h) = (sh_sn h)[unat (s mod sh_depth h) := s]"
  "sh_filled (store s m h) = (sh_filled h)[unat (s mod sh_depth h) := True]"
  by (simp_all add: store_def Let_def)

lemma absent_store:
  assumes "absent k h" "k \<noteq> s" "length (sh_sn h) = length (sh_filled h)"
  shows "absent k (store s m h)"
proof (cases "unat (s mod sh_depth h) = unat (k mod sh_depth h) \<and> unat (k mod sh_depth h) < length (sh_sn h)")
  case True
  then show ?thesis using assms(2) by (simp add: absent_def store_slots)
next
  case False
  then have "(sh_sn h)[unat (s mod sh_depth h) := s] ! unat (k mod sh_depth h) = sh_sn h ! unat (k mod sh_depth h)"
    "(sh_filled h)[unat (s mod sh_depth h) := True] ! unat (k mod sh_depth h) = sh_filled h ! unat (k mod sh_depth h)"
    using assms(3) by (cases "unat (s mod sh_depth h) = unat (k mod sh_depth h)"; simp add: list_update_beyond)+
  then show ?thesis using assms(1) by (simp add: absent_def store_slots)
qed

text \<open>The history of a writer after another write: nothing but its own number is stored.\<close>

definition grew :: "rtpsWriter \<Rightarrow> rtpsWriter \<Rightarrow> bool" where
  "grew w w' \<longleftrightarrow> (w_seq w' = w_seq w \<or> w_seq w' = w_seq w + 1)
     \<and> (length (sh_sn (w_history w)) = length (sh_filled (w_history w)) \<longrightarrow>
          length (sh_sn (w_history w')) = length (sh_filled (w_history w'))
          \<and> (\<forall>k. absent k (w_history w) \<and> k \<noteq> w_seq w + 1 \<longrightarrow> absent k (w_history w')))"

lemma sendHeartbeat_writer:
  assumes "map_of (writers p) eid = Some w"
  shows "\<exists>h. map_of (writers (fst (sendHeartbeatLocked net eid p))) eid = Some (w\<lparr>w_history := h\<rparr>)
    \<and> length (sh_sn h) = length (sh_sn (w_history w)) \<and> length (sh_filled h) = length (sh_filled (w_history w))
    \<and> (\<forall>k. absent k h = absent k (w_history w))"
proof (cases "firstLast (w_history w)")
  case None
  then show ?thesis using assms by (intro exI [of _ "w_history w"]) (simp add: sendHeartbeatLocked_def)
next
  case (Some x)
  then show ?thesis using assms
    by (intro exI [of _ "(w_history w)\<lparr>sh_hbCount := sh_hbCount (w_history w) + 1\<rparr>"])
      (auto simp: sendHeartbeatLocked_def Let_def absent_def split: prod.split)
qed

lemma publish_grew:
  assumes "publish env eid w1 payload wire p = Some (p', outs)" "w_seq w1 = w_seq w + 1" "w_history w1 = w_history w"
  shows "\<exists>w'. map_of (writers p') eid = Some w' \<and> grew w w'"
proof -
  obtain msgs w2 p4 where m: "storeFirst msgs w1 = Some w2"
    and d: "dispatchToReaders (envNow env) (GUID (ownPrefix p) (w_eid w1)) (w_topic w1) payload (envNow env) (w_seq w1)
      (w_partitions w1) (persistFlush (envCreate env) (w_topic w1) payload ((updWriter eid w2 p)\<lparr>lastSample :=
      (lastSample p)(w_topic w1 \<mapsto> \<lparr>Topic = w_topic w1, Payload = payload, Timestamp = envNow env,
       SampleSeq = 0, WriterGUID = replicate 16 0\<rparr>)\<rparr>)) = Some p4"
    and p': "p' = p4 \<or> p' = fst (sendHeartbeatLocked (envNet env) eid p4)"
    using assms(1) by (auto simp: publish_def Let_def split: option.splits if_splits prod.splits)
  have w2: "w_seq w2 = w_seq w + 1" "grew w w2"
    using m assms(2,3) by (auto simp: storeFirst_def grew_def absent_store store_slots split: if_splits list.splits)
  have p4: "map_of (writers p4) eid = Some w2" using same_rest_sel(5) [OF dispatch_rest [OF d]] by simp
  then obtain h where h: "map_of (writers (fst (sendHeartbeatLocked (envNet env) eid p4))) eid = Some (w2\<lparr>w_history := h\<rparr>)"
    "length (sh_sn h) = length (sh_sn (w_history w2))" "length (sh_filled h) = length (sh_filled (w_history w2))"
    "\<forall>k. absent k h = absent k (w_history w2)"
    using sendHeartbeat_writer by blast
  have "grew w (w2\<lparr>w_history := h\<rparr>)" using w2 h(2-4) by (simp add: grew_def)
  then show ?thesis using p' p4 h(1) w2 by auto
qed

lemma Write_grew:
  assumes "Write env eid payload p = Some (err, p', outs)" "map_of (writers p) eid = Some w"
  shows "\<exists>w'. map_of (writers p') eid = Some w' \<and> grew w w'"
proof -
  let ?w1 = "(rearmDeadline (envNow env) w)\<lparr>w_seq := w_seq w + 1\<rparr>"
  have w1: "w_seq ?w1 = w_seq w + 1" "w_history ?w1 = w_history w" by simp_all
  have r: "grew w w" "grew w ?w1" by (simp_all add: grew_def)
  show ?thesis
    using assms r publish_grew [OF _ w1] by (auto simp: Write_def Let_def split: if_splits option.splits)
qed

lemma writeRun_absent:
  assumes "writeRun eid xs p = Some p'" "map_of (writers p) eid = Some w" "map_of (writers p') eid = Some w'"
    and "length (sh_sn (w_history w)) = length (sh_filled (w_history w))" "absent k (w_history w)"
    and "unat (w_seq w - k) + length xs < 2 ^ 64"
  shows "absent k (w_history w')"
  using assms
proof (induction xs arbitrary: p w)
  case (Cons x xs)
  obtain err p1 outs where p1: "Write (fst x) eid (snd x) p = Some (err, p1, outs)" "writeRun eid xs p1 = Some p'"
    using Cons.prems(1) by (auto split: option.splits prod.splits)
  obtain w1 where w1: "map_of (writers p1) eid = Some w1" "grew w w1" using Write_grew [OF p1(1) Cons.prems(2)] by blast
  have ne: "k \<noteq> w_seq w + 1"
  proof
    assume "k = w_seq w + 1"
    then have "w_seq w - k = - 1" by simp
    then have "unat (w_seq w - k) = 2 ^ 64 - 1" by (simp add: unsigned_minus_1_eq_mask mask_eq_exp_minus_1)
    then show False using Cons.prems(6) by simp
  qed
  have u: "unat (w_seq w1 - k) \<le> unat (w_seq w - k) + 1"
  proof -
    have "unat (w_seq w + 1 - k) \<le> unat (w_seq w - k) + 1"
      by (simp add: unat_word_ariths diff_add_eq [symmetric] flip: add_diff_eq) 
    then show ?thesis using w1(2) by (auto simp: grew_def)
  qed
  show ?case
    by (rule Cons.IH [OF p1(2) w1(1) Cons.prems(3)]) (use w1(2) Cons.prems(4-6) ne u in \<open>auto simp: grew_def\<close>)
qed simp

text \<open>
  C12: a write whose payload the security plug-in cannot seal reports the error, sends nothing and
  delivers nothing, but it has used up a sequence number. Whatever is written afterwards, the
  history never holds a message with that number, so a reader that misses it asks for it forever:
  no retransmission ever answers it.
\<close>

theorem seal_failure_gap:
  assumes "map_of (writers p) eid = Some w" and "\<not> w_closed w"
    and "MaxSampleSize (w_qos w) \<le> 0 \<or> int (length payload) \<le> MaxSampleSize (w_qos w)" and "sealPayload payload p = None"
    and "length (sh_sn (w_history w)) = length (sh_filled (w_history w))" and "absent (w_seq w + 1) (w_history w)"
    and "length xs < 2 ^ 64"
  shows "\<exists>p1 w1. Write env eid payload p = Some (Some ErrSeal, p1, []) \<and> readers p1 = readers p
    \<and> map_of (writers p1) eid = Some w1 \<and> w_seq w1 = w_seq w + 1
    \<and> (\<forall>p2 w2. writeRun eid xs p1 = Some p2 \<and> map_of (writers p2) eid = Some w2 \<longrightarrow>
          get (w_history w2) (w_seq w + 1) = None
          \<and> resendRequested net \<lparr>anReader = rid, anWriter = eid, Base = u64ToSN (w_seq w + 1), Bitmap = 1, anCount = n\<rparr> w2 p2 = [])"
proof -
  define w1 where "w1 = (rearmDeadline (envNow env) w)\<lparr>w_seq := w_seq w + 1\<rparr>"
  define p1 where "p1 = updWriter eid w1 (countWrite (w_topic w) (length payload) p)"
  have wr: "Write env eid payload p = Some (Some ErrSeal, p1, [])"
    using assms(1-4) by (auto simp: Write_def Let_def w1_def p1_def)
  have w1: "map_of (writers p1) eid = Some w1" "w_seq w1 = w_seq w + 1" "w_history w1 = w_history w" by (simp_all add: p1_def w1_def)
  have "get (w_history w2) (w_seq w + 1) = None" if "writeRun eid xs p1 = Some p2" "map_of (writers p2) eid = Some w2" for p2 w2
    using writeRun_absent [OF that(1) w1(1) that(2), of "w_seq w + 1"] assms(5-7) w1(2,3) by (intro absent_get) simp
  moreover have "resendRequested net \<lparr>anReader = rid, anWriter = eid, Base = u64ToSN (w_seq w + 1), Bitmap = 1, anCount = n\<rparr> w2 p2 = []"
    if "get (w_history w2) (w_seq w + 1) = None" for w2 and p2 :: "'a participant"
    using that by (auto simp: resendRequested_def bit_1_iff)
  ultimately show ?thesis using wr w1(1,2) by (intro exI [of _ p1] exI [of _ w1]) (auto simp: p1_def)
qed

definition exSealing :: "unit participant" where
  "exSealing = (let p = exPub (exWriter True newSendHistory 4)
     in p\<lparr>cfg := (cfg p)\<lparr>security := Some \<lparr>Seal = (\<lambda>_. None), Open = Some\<rparr>\<rparr>\<rparr>)"

theorem seal_failure_gap_witness:
  "\<exists>p1 w1. Write exEnv [0, 0, 1, 3] [1] exSealing = Some (Some ErrSeal, p1, []) \<and> map_of (writers p1) [0, 0, 1, 3] = Some w1 \<and> w_seq w1 = 5"
proof -
  let ?w = "exWriter True newSendHistory 4"
  have w: "map_of (writers exSealing) [0, 0, 1, 3] = Some ?w" by (simp add: exSealing_def Let_def)
  have h: "\<not> w_closed ?w" "MaxSampleSize (w_qos ?w) \<le> 0 \<or> int (length [1 :: byte]) \<le> MaxSampleSize (w_qos ?w)"
    "sealPayload [1] exSealing = None" "length (sh_sn (w_history ?w)) = length (sh_filled (w_history ?w))"
    "absent (w_seq ?w + 1) (w_history ?w)" "length ([] :: (env \<times> bytes) list) < 2 ^ 64"
    by (simp_all add: exWriter_def DefaultQoS_def sealPayload_def exSealing_def Let_def newSendHistory_def absent_def
        maxHistoryDepth_def)
  have "w_seq ?w + 1 = 5" by (simp add: exWriter_def)
  then show ?thesis using seal_failure_gap [OF w h(1-6), of exEnv] by (simp only:) blast
qed

end
