(* ===== verification/Participant_Config.thy ===== *)
theory Participant_Config
  imports Dds_Core
begin

text \<open>
  The participant configuration file (\<^verbatim>\<open>config/config.go\<close>). Decoding JSON and parsing duration texts
  belong to the standard library: a decoded configuration is given, and \<open>parseDuration\<close> is an
  argument.
\<close>

record ParticipantConfig =
  pc_domain :: int
  pc_heartbeat :: string
  pc_interval :: string
  pc_jitter :: string
  pc_noMulticast :: bool
  pc_peerLocators :: "string list"
  pc_logLevel :: string
  pc_heartbeatDur :: duration
  pc_intervalDur :: duration
  pc_jitterDur :: duration

datatype configError = DomainRange | BadDuration | NotPositive | NegativeJitter | BadLogLevel

text \<open>A duration field: empty leaves the resolved value, else the text must parse and be admissible.\<close>

definition resolveDur ::
  "(string \<Rightarrow> duration option) \<Rightarrow> (duration \<Rightarrow> bool) \<Rightarrow> configError \<Rightarrow> string \<Rightarrow> duration \<Rightarrow> configError + duration"
where
  "resolveDur parseDuration ok err txt old =
     (if txt = [] then Inr old
      else case parseDuration txt of
        None \<Rightarrow> Inl BadDuration
      | Some d \<Rightarrow> if ok d then Inr d else Inl err)"

definition logLevels :: "string list" where
  "logLevels = ['''', ''debug'', ''info'', ''warn'', ''error'']"

definition Validate :: "(string \<Rightarrow> duration option) \<Rightarrow> ParticipantConfig \<Rightarrow> configError + ParticipantConfig" where
  "Validate parseDuration c =
     (if pc_domain c < 0 \<or> pc_domain c > 232 then Inl DomainRange
      else case resolveDur parseDuration (\<lambda>d. d > 0) NotPositive (pc_heartbeat c) (pc_heartbeatDur c) of
        Inl e \<Rightarrow> Inl e
      | Inr hb \<Rightarrow>
          (case resolveDur parseDuration (\<lambda>d. d > 0) NotPositive (pc_interval c) (pc_intervalDur c) of
             Inl e \<Rightarrow> Inl e
           | Inr iv \<Rightarrow>
               (case resolveDur parseDuration (\<lambda>d. d \<ge> 0) NegativeJitter (pc_jitter c) (pc_jitterDur c) of
                  Inl e \<Rightarrow> Inl e
                | Inr j \<Rightarrow>
                    if pc_logLevel c \<in> set logLevels
                    then Inr (c\<lparr>pc_heartbeatDur := hb, pc_intervalDur := iv, pc_jitterDur := j\<rparr>)
                    else Inl BadLogLevel)))"

text \<open>Parsing validates a decoded configuration; its resolved durations are zero at first.\<close>

definition ParseConfig ::
  "(string \<Rightarrow> duration option) \<Rightarrow> ParticipantConfig option \<Rightarrow> configError option + ParticipantConfig"
where
  "ParseConfig parseDuration decoded =
     (case decoded of
        None \<Rightarrow> Inl None
      | Some c \<Rightarrow> (case Validate parseDuration (c\<lparr>pc_heartbeatDur := 0, pc_intervalDur := 0, pc_jitterDur := 0\<rparr>) of
          Inl e \<Rightarrow> Inl (Some e)
        | Inr c' \<Rightarrow> Inr c'))"

lemma resolveDur_Inr:
  assumes "resolveDur pd ok err txt old = Inr d"
  shows "d = old \<and> txt = [] \<or> ok d \<and> pd txt = Some d" "resolveDur pd ok err txt d = Inr d"
  using assms by (auto simp: resolveDur_def split: if_splits option.splits)

text \<open>
  A configuration that passes has admissible values; validating it again changes nothing; only the
  resolved durations differ from the input.
\<close>

lemma Validate_Inr:
  assumes "Validate pd c = Inr c'"
  shows "ValidateDomain (pc_domain c') = None" "Validate pd c' = Inr c'"
    "\<exists>hb iv j. c' = c\<lparr>pc_heartbeatDur := hb, pc_intervalDur := iv, pc_jitterDur := j\<rparr>"
proof -
  obtain hb iv j where steps:
    "resolveDur pd (\<lambda>d. d > 0) NotPositive (pc_heartbeat c) (pc_heartbeatDur c) = Inr hb"
    "resolveDur pd (\<lambda>d. d > 0) NotPositive (pc_interval c) (pc_intervalDur c) = Inr iv"
    "resolveDur pd (\<lambda>d. d \<ge> 0) NegativeJitter (pc_jitter c) (pc_jitterDur c) = Inr j"
    and c': "c' = c\<lparr>pc_heartbeatDur := hb, pc_intervalDur := iv, pc_jitterDur := j\<rparr>"
    and rest: "\<not> (pc_domain c < 0 \<or> pc_domain c > 232)" "pc_logLevel c \<in> set logLevels"
    using assms by (auto simp: Validate_def split: if_splits sum.splits)
  show "ValidateDomain (pc_domain c') = None"
    using rest by (simp add: c' ValidateDomain_def)
  show "Validate pd c' = Inr c'"
    using rest steps[THEN resolveDur_Inr(2)] by (simp add: c' Validate_def)
  show "\<exists>hb iv j. c' = c\<lparr>pc_heartbeatDur := hb, pc_intervalDur := iv, pc_jitterDur := j\<rparr>"
    using c' by blast
qed

lemma ParseConfig_durations:
  assumes "ParseConfig pd (Some c) = Inr c'"
  shows "pc_heartbeatDur c' \<ge> 0 \<and> (pc_heartbeat c' \<noteq> [] \<longrightarrow> pc_heartbeatDur c' > 0)"
    "pc_intervalDur c' \<ge> 0 \<and> (pc_interval c' \<noteq> [] \<longrightarrow> pc_intervalDur c' > 0)" "pc_jitterDur c' \<ge> 0"
  using assms by (auto simp: ParseConfig_def Validate_def resolveDur_def split: if_splits sum.splits option.splits)

end
