(* ===== verification/Rtps_Startup.thy ===== *)
theory Rtps_Startup
  imports Rtps_Participant Participant_Config
begin

text \<open>
  Creating a participant (\<^verbatim>\<open>rtps/participant.go\<close>: the options and \<^verbatim>\<open>newParticipant\<close>; \<^verbatim>\<open>transport.go\<close>:
  the UDP sockets; \<^verbatim>\<open>discovery.go\<close>, \<^verbatim>\<open>loan.go\<close>). The question here is what is left open: the sockets
  that are open when creation ends, whether it succeeds, reports an error or panics.

  What the operating system grants is an argument: which UDP ports are free, whether a multicast
  join succeeds, and what the constructors of the other transports return.
\<close>

section \<open>Definitions\<close>

subsection \<open>Options\<close>

text \<open>
  The fields that options set. Certificates, loggers, tracers and contexts do not influence what is
  modelled, so their options are not listed. A discovery plug-in may also authenticate endpoints.
  The DTLS peers come with the address their host part denotes, as in the configuration.
\<close>

datatype wsFraming = wsFramingBinary | wsFramingJSON

record 'r popts =
  o_discoveryPlugin :: "(DiscoveryPlugin \<times> EndpointPlugin option) option"
  o_security :: "SecurityPlugin option"
  o_accessControl :: "AccessController option"
  o_antiReplay :: "('r \<times> (uint64 \<Rightarrow> gotime \<Rightarrow> 'r \<Rightarrow> bool \<times> 'r)) option"
  o_ipv6 :: bool
  o_noMulticast :: bool
  o_tcpAddr :: string
  o_tcpPeers :: "string list"
  o_peerLocators :: "string list"
  o_dtlsAddr :: string
  o_dtlsPeers :: "(IP option \<times> string) list"
  o_quicAddr :: string
  o_quicPeers :: "string list"
  o_wsAddr :: string
  o_wsPeers :: "string list"
  o_wsFraming :: wsFraming
  o_relayAddr :: string
  o_relayPeers :: "gostring list"
  o_stunServer :: string
  o_deadlineCb :: bool
  o_livelinessCb :: bool
  o_spdpInterval :: duration
  o_spdpJitter :: duration
  o_heartbeatPeriod :: duration
  o_tsnConfig :: "(topic \<Rightarrow> TSNParams option) option"
  o_persistDir :: string

definition noOpts :: "'r popts" where
  "noOpts =
     \<lparr>o_discoveryPlugin = None, o_security = None, o_accessControl = None, o_antiReplay = None, o_ipv6 = False,
      o_noMulticast = False, o_tcpAddr = [], o_tcpPeers = [], o_peerLocators = [], o_dtlsAddr = [], o_dtlsPeers = [],
      o_quicAddr = [], o_quicPeers = [], o_wsAddr = [], o_wsPeers = [], o_wsFraming = wsFramingBinary,
      o_relayAddr = [], o_relayPeers = [], o_stunServer = [], o_deadlineCb = False, o_livelinessCb = False,
      o_spdpInterval = 0, o_spdpJitter = 0, o_heartbeatPeriod = 0, o_tsnConfig = None, o_persistDir = []\<rparr>"

type_synonym 'r Option = "'r popts \<Rightarrow> 'r popts"

definition WithDiscoverySecurity :: "DiscoveryPlugin \<times> EndpointPlugin option \<Rightarrow> 'r Option" where
  "WithDiscoverySecurity plugin p = p\<lparr>o_discoveryPlugin := Some plugin\<rparr>"

definition WithSecurity :: "SecurityPlugin \<Rightarrow> 'r Option" where
  "WithSecurity plugin p = p\<lparr>o_security := Some plugin\<rparr>"

definition WithAccessControl :: "AccessController \<Rightarrow> 'r Option" where
  "WithAccessControl ac p = p\<lparr>o_accessControl := Some ac\<rparr>"

definition WithAntiReplay :: "'r \<times> (uint64 \<Rightarrow> gotime \<Rightarrow> 'r \<Rightarrow> bool \<times> 'r) \<Rightarrow> 'r Option" where
  "WithAntiReplay rc p = p\<lparr>o_antiReplay := Some rc\<rparr>"

definition WithIPv6 :: "'r Option" where
  "WithIPv6 p = p\<lparr>o_ipv6 := True\<rparr>"

definition WithNoMulticast :: "'r Option" where
  "WithNoMulticast p = p\<lparr>o_noMulticast := True\<rparr>"

definition WithTCPAddr :: "string \<Rightarrow> 'r Option" where
  "WithTCPAddr addr p = p\<lparr>o_tcpAddr := addr\<rparr>"

definition WithTCPPeers :: "string list \<Rightarrow> 'r Option" where
  "WithTCPPeers addrs p = p\<lparr>o_tcpPeers := o_tcpPeers p @ addrs\<rparr>"

definition WithPeerLocators :: "string list \<Rightarrow> 'r Option" where
  "WithPeerLocators addrs p = p\<lparr>o_peerLocators := o_peerLocators p @ addrs\<rparr>"

definition WithDTLSAddr :: "string \<Rightarrow> 'r Option" where
  "WithDTLSAddr addr p = p\<lparr>o_dtlsAddr := addr\<rparr>"

definition WithDTLSPeers :: "(IP option \<times> string) list \<Rightarrow> 'r Option" where
  "WithDTLSPeers addrs p = p\<lparr>o_dtlsPeers := o_dtlsPeers p @ addrs\<rparr>"

definition WithQUICAddr :: "string \<Rightarrow> 'r Option" where
  "WithQUICAddr addr p = p\<lparr>o_quicAddr := addr\<rparr>"

definition WithQUICPeers :: "string list \<Rightarrow> 'r Option" where
  "WithQUICPeers addrs p = p\<lparr>o_quicPeers := o_quicPeers p @ addrs\<rparr>"

definition WithWSAddr :: "string \<Rightarrow> 'r Option" where
  "WithWSAddr addr p = p\<lparr>o_wsAddr := addr\<rparr>"

definition WithWSPeers :: "string list \<Rightarrow> 'r Option" where
  "WithWSPeers addrs p = p\<lparr>o_wsPeers := o_wsPeers p @ addrs\<rparr>"

definition WithWSFraming :: "bool \<Rightarrow> 'r Option" where
  "WithWSFraming jsonFraming p = p\<lparr>o_wsFraming := (if jsonFraming then wsFramingJSON else wsFramingBinary)\<rparr>"

definition WithRelayAddr :: "string \<Rightarrow> 'r Option" where
  "WithRelayAddr addr p = p\<lparr>o_relayAddr := addr\<rparr>"

definition WithRelayPeers :: "gostring list \<Rightarrow> 'r Option" where
  "WithRelayPeers ids p = p\<lparr>o_relayPeers := o_relayPeers p @ ids\<rparr>"

definition WithSTUNServer :: "string \<Rightarrow> 'r Option" where
  "WithSTUNServer addr p = p\<lparr>o_stunServer := addr\<rparr>"

definition WithDeadlineCallback :: "'r Option" where
  "WithDeadlineCallback p = p\<lparr>o_deadlineCb := True\<rparr>"

definition WithLivelinessCallback :: "'r Option" where
  "WithLivelinessCallback p = p\<lparr>o_livelinessCb := True\<rparr>"

definition WithSPDPInterval :: "duration \<Rightarrow> 'r Option" where
  "WithSPDPInterval d p = p\<lparr>o_spdpInterval := d\<rparr>"

definition WithSPDPJitter :: "duration \<Rightarrow> 'r Option" where
  "WithSPDPJitter d p = p\<lparr>o_spdpJitter := d\<rparr>"

definition WithStaticPeers :: "string list \<Rightarrow> 'r Option" where
  "WithStaticPeers addrs = WithPeerLocators addrs"

definition WithHeartbeatPeriod :: "duration \<Rightarrow> 'r Option" where
  "WithHeartbeatPeriod d p = p\<lparr>o_heartbeatPeriod := d\<rparr>"

definition WithTSNConfig :: "(topic \<Rightarrow> TSNParams option) \<Rightarrow> 'r Option" where
  "WithTSNConfig c p = p\<lparr>o_tsnConfig := Some c\<rparr>"

definition WithPersistentHistory :: "string \<Rightarrow> 'r Option" where
  "WithPersistentHistory dir p = p\<lparr>o_persistDir := dir\<rparr>"

definition WithConfig :: "ParticipantConfig \<Rightarrow> 'r Option" where
  "WithConfig c p =
     (let p1 = (if pc_heartbeatDur c > 0 then p\<lparr>o_heartbeatPeriod := pc_heartbeatDur c\<rparr> else p);
          p2 = (if pc_intervalDur c > 0 then p1\<lparr>o_spdpInterval := pc_intervalDur c\<rparr> else p1);
          p3 = (if pc_jitterDur c > 0 then p2\<lparr>o_spdpJitter := pc_jitterDur c\<rparr> else p2);
          p4 = (if pc_noMulticast c then p3\<lparr>o_noMulticast := True\<rparr> else p3)
      in p4\<lparr>o_peerLocators := o_peerLocators p4 @ pc_peerLocators c\<rparr>)"

subsection \<open>Sockets\<close>

text \<open>An open socket: UDP at a port, a joined multicast group, or one of the other transports.\<close>

datatype sock = Udp4 int | Udp6 int | Mcast4 int | Mcast6 int | TcpListener | DtlsListener | QuicListener | WsEndpoint
  | RelayConn

text \<open>
  The operating system: the free ports of each family, the multicast joins it allows, and what the
  constructors of the other transports give for an address (the port they advertise).
\<close>

record osEnv =
  free4 :: "int \<Rightarrow> bool"
  free6 :: "int \<Rightarrow> bool"
  join4 :: "int \<Rightarrow> bool"
  join6 :: "int \<Rightarrow> bool"
  openTCP :: "string \<Rightarrow> int option"
  openDTLS :: "string \<Rightarrow> bool"
  openQUIC :: "string \<Rightarrow> int option"
  openWS :: "string \<Rightarrow> int option"
  openRelay :: "string \<Rightarrow> gostring \<Rightarrow> bool"
  stun :: "string \<Rightarrow> string option"

text \<open>Binding takes the first of sixteen ports that is free and not already held by this process.\<close>

definition newUnicastSocket :: "osEnv \<Rightarrow> sock list \<Rightarrow> int \<Rightarrow> int option" where
  "newUnicastSocket os opened port =
     find (\<lambda>q. free4 os q \<and> Udp4 q \<notin> set opened) (map (\<lambda>i. port + int i) [0..<16])"

definition newUnicastSocketV6 :: "osEnv \<Rightarrow> sock list \<Rightarrow> int \<Rightarrow> int option" where
  "newUnicastSocketV6 os opened port =
     find (\<lambda>q. free6 os q \<and> Udp6 q \<notin> set opened) (map (\<lambda>i. port + int i) [0..<16])"

text \<open>A multicast receiver falls back to a plain socket at the port; the flag tells if it joined.\<close>

definition newMulticastReceiveSocket :: "osEnv \<Rightarrow> sock list \<Rightarrow> int \<Rightarrow> (sock \<times> bool) option" where
  "newMulticastReceiveSocket os opened port =
     (if join4 os port then Some (Mcast4 port, True)
      else if free4 os port \<and> Udp4 port \<notin> set opened then Some (Udp4 port, False)
      else None)"

definition newMulticastReceiveSocketV6 :: "osEnv \<Rightarrow> sock list \<Rightarrow> int \<Rightarrow> (sock \<times> bool) option" where
  "newMulticastReceiveSocketV6 os opened port =
     (if join6 os port then Some (Mcast6 port, True)
      else if free6 os port \<and> Udp6 port \<notin> set opened then Some (Udp6 port, False)
      else None)"

text \<open>The sockets a participant holds.\<close>

record psocks =
  mcastS :: sock
  metaS :: sock
  dataS :: sock
  dataMcastS :: "sock option"
  mcastV6S :: "sock option"
  metaV6S :: "sock option"
  dataV6S :: "sock option"
  tcpS :: "sock option"
  dtlsS :: "sock option"
  quicS :: "sock option"
  wsS :: "sock option"
  relayS :: "sock option"

definition optList :: "'a option \<Rightarrow> 'a list" where
  "optList x = (case x of None \<Rightarrow> [] | Some y \<Rightarrow> [y])"

definition closing :: "sock list \<Rightarrow> sock list \<Rightarrow> sock list" where
  "closing xs opened = filter (\<lambda>s. s \<notin> set xs) opened"

text \<open>What \<^verbatim>\<open>Close\<close> closes.\<close>

definition closeSockets :: "psocks \<Rightarrow> sock list" where
  "closeSockets s =
     [mcastS s, metaS s, dataS s] @ optList (dataMcastS s) @ optList (mcastV6S s) @ optList (metaV6S s)
     @ optList (dataV6S s) @ optList (tcpS s) @ optList (dtlsS s) @ optList (quicS s) @ optList (wsS s) @ optList (relayS s)"

subsection \<open>newParticipant\<close>

datatype startError = BadDomain | NoPrefix | NoPortPair | NoMulticast | NoTCP | NoDTLS | NoQUIC | NoWS | NoRelay

datatype 'c start_result = Started 'c | StartErr startError | StartPanic

text \<open>
  The search for a pair of ports: the last value of \<^verbatim>\<open>metaSock\<close>, \<^verbatim>\<open>dataSock\<close> and the index. A
  meta socket whose data socket could not be bound is closed, but the variable keeps it until the
  next turn assigns it again.
\<close>

fun portLoop :: "osEnv \<Rightarrow> int \<Rightarrow> nat list \<Rightarrow> int option \<Rightarrow> int option \<times> int option \<times> nat" where
  "portLoop os d [] meta = (meta, None, 0)"
| "portLoop os d (i # rest) meta =
     (case newUnicastSocket os [] (metaUnicastPort d (int i)) of
        None \<Rightarrow> portLoop os d rest None
      | Some m \<Rightarrow>
          (case newUnicastSocket os [Udp4 m] (userUnicastPort d (int i)) of
             None \<Rightarrow> portLoop os d rest (Some m)
           | Some dt \<Rightarrow> (Some m, Some dt, i)))"

definition openV6 :: "osEnv \<Rightarrow> int \<Rightarrow> nat \<Rightarrow> bool \<Rightarrow> sock option \<times> sock option \<times> sock option" where
  "openV6 os d idx ipv6 =
     (if \<not> ipv6 then (None, None, None)
      else
        let mc = map_option fst (newMulticastReceiveSocketV6 os [] (metaMulticastPort d));
            me = map_option Udp6 (newUnicastSocketV6 os (optList mc) (metaUnicastPort d (int idx)));
            da = map_option Udp6 (newUnicastSocketV6 os (optList mc @ optList me) (userUnicastPort d (int idx)))
        in (mc, me, da))"

text \<open>
  The optional transports in order. Each is opened when its address is configured; on a failure
  the sockets named in the code are closed, and the error is returned with the sockets still open.
\<close>

definition tryTCP :: "osEnv \<Rightarrow> 'r popts \<Rightarrow> int option" where
  "tryTCP os p = (if o_tcpAddr p \<noteq> [] then openTCP os (o_tcpAddr p) else None)"

definition tryQUIC :: "osEnv \<Rightarrow> 'r popts \<Rightarrow> int option" where
  "tryQUIC os p = (if o_quicAddr p \<noteq> [] then openQUIC os (o_quicAddr p) else None)"

definition tryWS :: "osEnv \<Rightarrow> 'r popts \<Rightarrow> int option" where
  "tryWS os p = (if o_wsAddr p \<noteq> [] \<or> o_wsPeers p \<noteq> [] then openWS os (o_wsAddr p) else None)"

definition tryDTLS :: "osEnv \<Rightarrow> 'r popts \<Rightarrow> unit option" where
  "tryDTLS os p = (if o_dtlsAddr p \<noteq> [] \<and> openDTLS os (o_dtlsAddr p) then Some () else None)"

definition tryRelay :: "osEnv \<Rightarrow> 'r popts \<Rightarrow> gostring \<Rightarrow> unit option" where
  "tryRelay os p rid = (if o_relayAddr p \<noteq> [] \<and> openRelay os (o_relayAddr p) rid then Some () else None)"

definition openTransports ::
  "osEnv \<Rightarrow> 'r popts \<Rightarrow> gostring \<Rightarrow> psocks \<Rightarrow> (startError \<times> sock list) + psocks"
where
  "openTransports os p rid s =
     (let base = [mcastS s, metaS s, dataS s] @ optList (dataMcastS s);
          s1 = s\<lparr>tcpS := map_option (\<lambda>_. TcpListener) (tryTCP os p)\<rparr>;
          s2 = s1\<lparr>dtlsS := map_option (\<lambda>_. DtlsListener) (tryDTLS os p)\<rparr>;
          s3 = s2\<lparr>quicS := map_option (\<lambda>_. QuicListener) (tryQUIC os p)\<rparr>;
          s4 = s3\<lparr>wsS := map_option (\<lambda>_. WsEndpoint) (tryWS os p)\<rparr>;
          s5 = s4\<lparr>relayS := map_option (\<lambda>_. RelayConn) (tryRelay os p rid)\<rparr>
      in if o_tcpAddr p \<noteq> [] \<and> tryTCP os p = None then Inl (NoTCP, closing base (closeSockets s))
         else if o_dtlsAddr p \<noteq> [] \<and> tryDTLS os p = None
           then Inl (NoDTLS, closing (base @ optList (tcpS s1)) (closeSockets s1))
         else if o_quicAddr p \<noteq> [] \<and> tryQUIC os p = None
           then Inl (NoQUIC, closing (base @ optList (tcpS s2) @ optList (dtlsS s2)) (closeSockets s2))
         else if (o_wsAddr p \<noteq> [] \<or> o_wsPeers p \<noteq> []) \<and> tryWS os p = None
           then Inl (NoWS, closing (base @ optList (tcpS s3) @ optList (dtlsS s3) @ optList (quicS s3)) (closeSockets s3))
         else if o_relayAddr p \<noteq> [] \<and> tryRelay os p rid = None
           then Inl (NoRelay,
             closing (base @ optList (tcpS s4) @ optList (dtlsS s4) @ optList (quicS s4) @ optList (wsS s4)) (closeSockets s4))
         else Inr s5)"

definition startConfig ::
  "int \<Rightarrow> GuidPrefix \<Rightarrow> int \<Rightarrow> int \<Rightarrow> bool \<Rightarrow> psocks \<Rightarrow> int option \<Rightarrow> int option \<Rightarrow> int option \<Rightarrow> 'r popts \<Rightarrow> pconfig"
where
  "startConfig d prefix meta dt joined s tcp quic ws p =
     \<lparr>domain = d, guidPrefix = prefix, metaPort = meta, dataPort = dt, dataMcastSock = (dataMcastS s \<noteq> None),
      udpMulticastAvailable = joined, tcpSock = tcp, tcpPeers = o_tcpPeers p, dtlsSock = (dtlsS s \<noteq> None),
      dtlsPeers = o_dtlsPeers p, quicSock = quic, quicPeers = o_quicPeers p, wsSock = ws, wsPeers = o_wsPeers p,
      relaySock = (if relayS s \<noteq> None then Some (relayIDFromGuidPrefix prefix) else None), relayPeers = o_relayPeers p,
      hasLivelinessCb = o_livelinessCb p, hasDeadlineCb = o_deadlineCb p, persistDir = (o_persistDir p \<noteq> []),
      heartbeatPeriodOverride = o_heartbeatPeriod p, tsnConfig = o_tsnConfig p, security = o_security p,
      accessControl = o_accessControl p, discoveryPlugin = map_option fst (o_discoveryPlugin p),
      endpointPlugin = Option.bind (o_discoveryPlugin p) snd\<rparr>"

type_synonym 'r started = "'r participant \<times> psocks \<times> string"

text \<open>
  The part after the three mandatory sockets are open. The result is the participant, its sockets
  and the public address found, and the sockets open at the end.
\<close>

definition startTransports ::
  "osEnv \<Rightarrow> int \<Rightarrow> GuidPrefix \<Rightarrow> 'r popts \<Rightarrow> int \<Rightarrow> int \<Rightarrow> nat \<Rightarrow> sock \<Rightarrow> bool \<Rightarrow> 'r started start_result \<times> sock list"
where
  "startTransports os d prefix p m dt idx mc joined =
     (let (mc6, me6, da6) = openV6 os d idx (o_ipv6 p);
          dm = (if o_noMulticast p then None
                else map_option fst (newMulticastReceiveSocket os [Udp4 m, Udp4 dt, mc] (userMulticastPort d)));
          s = \<lparr>mcastS = mc, metaS = Udp4 m, dataS = Udp4 dt, dataMcastS = dm, mcastV6S = mc6, metaV6S = me6, dataV6S = da6,
               tcpS = None, dtlsS = None, quicS = None, wsS = None, relayS = None\<rparr>
      in (case openTransports os p (relayIDFromGuidPrefix prefix) s of
            Inl (e, left) \<Rightarrow> (StartErr e, left)
          | Inr s' \<Rightarrow>
              (Started (initParticipant (startConfig d prefix m dt joined s' (tryTCP os p) (tryQUIC os p) (tryWS os p) p)
                  (o_antiReplay p), s',
                 if o_stunServer p \<noteq> [] then (case stun os (o_stunServer p) of Some a \<Rightarrow> a | None \<Rightarrow> []) else []),
               closeSockets s')))"

text \<open>
  With no data socket in the end, every continuation panics: an error path closes the meta socket a
  second time, and the receive loop dereferences the missing data socket.
\<close>

definition newParticipant ::
  "osEnv \<Rightarrow> bytes option \<Rightarrow> uint32 \<Rightarrow> int \<Rightarrow> 'r Option list \<Rightarrow> 'r started start_result \<times> sock list"
where
  "newParticipant os rnd pid d opts =
     (case ValidateDomain d of
        Some e \<Rightarrow> (StartErr BadDomain, [])
      | None \<Rightarrow>
          (case newGuidPrefixSafe rnd pid of
             Inl e \<Rightarrow> (StartErr NoPrefix, [])
           | Inr prefix \<Rightarrow>
               (case portLoop os d [0..<16] None of
                  (None, _, _) \<Rightarrow> (StartErr NoPortPair, [])
                | (Some m, None, _) \<Rightarrow> (StartPanic, [])
                | (Some m, Some dt, idx) \<Rightarrow>
                    (case newMulticastReceiveSocket os [Udp4 m, Udp4 dt] (metaMulticastPort d) of
                       None \<Rightarrow> (StartErr NoMulticast, [])
                     | Some (mc, joined) \<Rightarrow> startTransports os d prefix (fold (\<lambda>f. f) opts noOpts) m dt idx mc joined))))"

section \<open>Lemmas\<close>

lemma newUnicastSocket_Some:
  assumes "newUnicastSocket os opened port = Some q"
  shows "port \<le> q" "q < port + 16" "free4 os q" "Udp4 q \<notin> set opened"
proof -
  obtain i where "i < 16" "q = port + int i" "free4 os q \<and> Udp4 q \<notin> set opened"
    using assms unfolding newUnicastSocket_def find_Some_iff by auto
  then show "port \<le> q" "q < port + 16" "free4 os q" "Udp4 q \<notin> set opened"
    by simp_all
qed

lemma newUnicastSocketV6_Some: "newUnicastSocketV6 os opened port = Some q \<Longrightarrow> Udp6 q \<notin> set opened"
  unfolding newUnicastSocketV6_def find_Some_iff by auto

text \<open>A successful search: the pair is bound at the first index at which both ports can be.\<close>

lemma portLoop_Some:
  assumes "portLoop os d xs meta = (Some m, Some dt, idx)"
  shows "idx \<in> set xs \<and> newUnicastSocket os [] (metaUnicastPort d (int idx)) = Some m
    \<and> newUnicastSocket os [Udp4 m] (userUnicastPort d (int idx)) = Some dt"
  using assms by (induction os d xs meta rule: portLoop.induct) (auto split: option.splits)

definition bindsPair :: "osEnv \<Rightarrow> int \<Rightarrow> nat \<Rightarrow> bool" where
  "bindsPair os d i =
     (case newUnicastSocket os [] (metaUnicastPort d (int i)) of
        None \<Rightarrow> False
      | Some m \<Rightarrow> newUnicastSocket os [Udp4 m] (userUnicastPort d (int i)) \<noteq> None)"

text \<open>
  An unsuccessful search: no index has a pair, and whether the meta variable is left set depends on
  the last index alone.
\<close>

lemma portLoop_None:
  "fst (snd (portLoop os d xs meta)) = None \<longleftrightarrow> list_all (\<lambda>i. \<not> bindsPair os d i) xs"
  by (induction os d xs meta rule: portLoop.induct) (auto simp: bindsPair_def split: option.splits)

lemma portLoop_stale:
  assumes "list_all (\<lambda>i. \<not> bindsPair os d i) xs"
  shows "fst (portLoop os d xs meta) = (if xs = [] then meta else newUnicastSocket os [] (metaUnicastPort d (int (List.last xs))))"
  using assms by (induction os d xs meta rule: portLoop.induct) (auto simp: bindsPair_def split: option.splits)

lemma portLoop_no_meta: "portLoop os d xs meta = (None, dt, idx) \<Longrightarrow> dt = None"
  by (induction os d xs meta rule: portLoop.induct) (auto split: option.splits)

lemma set_optList [simp]: "set (optList x) = set_option x"
  by (cases x) (simp_all add: optList_def)

lemma distinct_optList [simp]: "distinct (optList x)"
  by (simp add: optList_def split: option.split)

lemma optList_none: "optList None = []"
  by (simp add: optList_def)

lemma closing_append: "closing xs (ys @ zs) = closing xs ys @ closing xs zs"
  by (simp add: closing_def)

lemma closing_all: "set ys \<subseteq> set xs \<Longrightarrow> closing xs ys = []"
  by (auto simp: closing_def filter_empty_conv)

lemma closing_none: "set ys \<inter> set xs = {} \<Longrightarrow> closing xs ys = ys"
  by (auto simp: closing_def filter_id_conv)

definition v6Sockets :: "psocks \<Rightarrow> sock list" where
  "v6Sockets s = optList (mcastV6S s) @ optList (metaV6S s) @ optList (dataV6S s)"

fun isV6 :: "sock \<Rightarrow> bool" where
  "isV6 (Udp6 q) = True"
| "isV6 (Mcast6 q) = True"
| "isV6 s = False"

definition v6Apart :: "psocks \<Rightarrow> bool" where
  "v6Apart s =
     (list_all isV6 (v6Sockets s) \<and> list_all (\<lambda>x. \<not> isV6 x) ([mcastS s, metaS s, dataS s] @ optList (dataMcastS s)))"

definition otherTransports :: "psocks \<Rightarrow> sock list" where
  "otherTransports s = optList (tcpS s) @ optList (dtlsS s) @ optList (quicS s) @ optList (wsS s) @ optList (relayS s)"

text \<open>Closing everything but the IPv6 sockets leaves exactly those.\<close>

lemma closing_v6:
  assumes "v6Apart s" "list_all (\<lambda>x. \<not> isV6 x) (otherTransports s)"
    "set xs = set ([mcastS s, metaS s, dataS s] @ optList (dataMcastS s) @ otherTransports s)"
  shows "closing xs (closeSockets s) = v6Sockets s"
proof -
  let ?base = "[mcastS s, metaS s, dataS s] @ optList (dataMcastS s)"
  have all: "closeSockets s = ?base @ (v6Sockets s @ otherTransports s)"
    by (simp add: closeSockets_def v6Sockets_def otherTransports_def)
  have "closing xs (v6Sockets s) = v6Sockets s"
    using assms(1,2) unfolding v6Apart_def list_all_iff assms(3) by (intro closing_none) (auto simp: assms(3))
  moreover have "closing xs ?base = []" "closing xs (otherTransports s) = []"
    by (rule closing_all, simp only: assms(3) set_append, blast)+
  ultimately show ?thesis
    unfolding all closing_append[of xs ?base] closing_append[of xs "v6Sockets s"] by (simp only: append_Nil append_Nil2)
qed

lemma list_all_not_isV6:
  "\<not> isV6 t \<Longrightarrow> list_all (\<lambda>x. \<not> isV6 x) (optList (map_option (\<lambda>_. t) e))"
  by (cases e) (simp_all add: optList_def)

lemma if_chain_Inl:
  "(if c1 then Inl a1 else if c2 then Inl a2 else if c3 then Inl a3 else if c4 then Inl a4 else if c5 then Inl a5 else Inr b)
     = Inl y \<Longrightarrow> y = a1 \<or> y = a2 \<or> y = a3 \<or> y = a4 \<or> y = a5"
  by (simp split: if_splits)

text \<open>Every failing transport leaves exactly the IPv6 sockets open.\<close>

lemma openTransports_Inl:
  assumes "openTransports os p rid s = Inl (e, left)" "v6Apart s" "otherTransports s = []"
  shows "left = v6Sockets s"
proof -
  have apart: "v6Apart s' \<and> v6Sockets s' = v6Sockets s"
    if "mcastS s' = mcastS s" "metaS s' = metaS s" "dataS s' = dataS s" "dataMcastS s' = dataMcastS s"
      "mcastV6S s' = mcastV6S s" "metaV6S s' = metaV6S s" "dataV6S s' = dataV6S s" for s' :: psocks
    using assms(2) that by (simp add: v6Apart_def v6Sockets_def)
  have closed: "closing xs (closeSockets s') = v6Sockets s"
    if "v6Apart s' \<and> v6Sockets s' = v6Sockets s" "list_all (\<lambda>x. \<not> isV6 x) (otherTransports s')"
      "set xs = set ([mcastS s', metaS s', dataS s'] @ optList (dataMcastS s') @ otherTransports s')" for xs s'
    using closing_v6[of s' xs] that by simp
  have none: "tcpS s = None" "dtlsS s = None" "quicS s = None" "wsS s = None" "relayS s = None"
    using assms(3) by (simp_all add: otherTransports_def optList_def split: option.splits)
  show ?thesis
    using if_chain_Inl[OF assms(1)[unfolded openTransports_def Let_def]]
    by (elim disjE Pair_inject; hypsubst; intro closed apart)
      (simp_all add: none otherTransports_def optList_none list_all_not_isV6 Un_assoc split del: if_split)
qed

lemma openTransports_Inr:
  assumes "openTransports os p rid s = Inr s'"
  shows "[mcastS s', metaS s', dataS s'] @ optList (dataMcastS s') = [mcastS s, metaS s, dataS s] @ optList (dataMcastS s)"
    and "v6Sockets s' = v6Sockets s" and "metaS s' = metaS s" and "dataS s' = dataS s"
    and "otherTransports s' = optList (map_option (\<lambda>_. TcpListener) (tryTCP os p)) @ optList (map_option (\<lambda>_. DtlsListener) (tryDTLS os p))
      @ optList (map_option (\<lambda>_. QuicListener) (tryQUIC os p)) @ optList (map_option (\<lambda>_. WsEndpoint) (tryWS os p))
      @ optList (map_option (\<lambda>_. RelayConn) (tryRelay os p rid))"
proof -
  have s': "s' = s\<lparr>tcpS := map_option (\<lambda>_. TcpListener) (tryTCP os p), dtlsS := map_option (\<lambda>_. DtlsListener) (tryDTLS os p),
      quicS := map_option (\<lambda>_. QuicListener) (tryQUIC os p), wsS := map_option (\<lambda>_. WsEndpoint) (tryWS os p),
      relayS := map_option (\<lambda>_. RelayConn) (tryRelay os p rid)\<rparr>"
    using assms by (simp add: openTransports_def Let_def split: if_splits)
  show "[mcastS s', metaS s', dataS s'] @ optList (dataMcastS s') = [mcastS s, metaS s, dataS s] @ optList (dataMcastS s)"
    "v6Sockets s' = v6Sockets s" "metaS s' = metaS s" "dataS s' = dataS s"
    by (simp_all add: s' v6Sockets_def)
  show "otherTransports s' = optList (map_option (\<lambda>_. TcpListener) (tryTCP os p)) @ optList (map_option (\<lambda>_. DtlsListener) (tryDTLS os p))
      @ optList (map_option (\<lambda>_. QuicListener) (tryQUIC os p)) @ optList (map_option (\<lambda>_. WsEndpoint) (tryWS os p))
      @ optList (map_option (\<lambda>_. RelayConn) (tryRelay os p rid))"
    by (simp add: s' otherTransports_def)
qed

lemma distinct_otherTransports:
  assumes "openTransports os p rid s = Inr s'"
  shows "distinct (otherTransports s')" "set (otherTransports s') \<subseteq> {TcpListener, DtlsListener, QuicListener, WsEndpoint, RelayConn}"
  unfolding openTransports_Inr(5)[OF assms]
  by (cases "tryTCP os p"; cases "tryDTLS os p"; cases "tryQUIC os p"; cases "tryWS os p"; cases "tryRelay os p rid";
      simp add: optList_def)+

lemma newMulticastReceiveSocket_Some:
  assumes "newMulticastReceiveSocket os opened port = Some (x, joined)"
  shows "x = Mcast4 port \<and> joined \<or> x = Udp4 port \<and> Udp4 port \<notin> set opened \<and> \<not> joined"
  using assms by (auto simp: newMulticastReceiveSocket_def split: if_splits)

lemma openV6_sockets:
  assumes "openV6 os d idx v6 = (mc, me, da)"
  shows "distinct (optList mc @ optList me @ optList da) \<and> list_all isV6 (optList mc @ optList me @ optList da)
    \<and> (\<not> v6 \<longrightarrow> optList mc @ optList me @ optList da = [])"
proof (cases v6)
  case True
  define me' where "me' = newUnicastSocketV6 os (optList mc) (metaUnicastPort d (int idx))"
  define da' where "da' = newUnicastSocketV6 os (optList mc @ optList me) (userUnicastPort d (int idx))"
  have mc: "mc = map_option fst (newMulticastReceiveSocketV6 os [] (metaMulticastPort d))" and me: "me = map_option Udp6 me'"
    and da: "da = map_option Udp6 da'"
    using assms True by (auto simp: openV6_def Let_def me'_def da'_def)
  have "list_all isV6 (optList mc)"
    by (auto simp: mc newMulticastReceiveSocketV6_def optList_def)
  moreover have "Udp6 q \<notin> set (optList mc)" if "me' = Some q" for q
    using newUnicastSocketV6_Some that unfolding me'_def by blast
  moreover have "Udp6 q \<notin> set (optList mc @ optList me)" if "da' = Some q" for q
    using newUnicastSocketV6_Some that unfolding da'_def by blast
  ultimately show ?thesis
    using True unfolding me da by (cases mc; cases me'; cases da') (auto simp: optList_def me)
next
  case False
  then show ?thesis
    using assms by (simp add: openV6_def optList_def)
qed

text \<open>The IPv6 sockets a start opens.\<close>

definition openedV6 :: "osEnv \<Rightarrow> int \<Rightarrow> 'r Option list \<Rightarrow> sock list" where
  "openedV6 os d opts =
     (case openV6 os d (snd (snd (portLoop os d [0..<16] None))) (o_ipv6 (fold (\<lambda>f. f) opts noOpts)) of
        (a, b, c) \<Rightarrow> optList a @ optList b @ optList c)"

definition transportErrors :: "startError list" where
  "transportErrors = [NoTCP, NoDTLS, NoQUIC, NoWS, NoRelay]"

lemma openTransports_error:
  assumes "openTransports os p rid s = Inl (e, left)"
  shows "e \<in> set transportErrors"
  using if_chain_Inl[OF assms[unfolded openTransports_def Let_def]]
  by (elim disjE Pair_inject) (simp_all add: transportErrors_def)

text \<open>The sockets of a participant as assembled before the optional transports.\<close>

lemma multicast_option:
  "optList (map_option fst (newMulticastReceiveSocket os opened port)) = []
    \<or> optList (map_option fst (newMulticastReceiveSocket os opened port)) = [Mcast4 port]
    \<or> optList (map_option fst (newMulticastReceiveSocket os opened port)) = [Udp4 port] \<and> Udp4 port \<notin> set opened"
  by (simp add: newMulticastReceiveSocket_def optList_def)

lemma base_sockets:
  assumes pl: "portLoop os d xs None = (Some m, Some dt, idx)"
    and mc: "newMulticastReceiveSocket os [Udp4 m, Udp4 dt] (metaMulticastPort d) = Some (mc, joined)"
    and dm: "dm = None \<or> dm = map_option fst (newMulticastReceiveSocket os [Udp4 m, Udp4 dt, mc] (userMulticastPort d))"
  shows "distinct ([mc, Udp4 m, Udp4 dt] @ optList dm)
    \<and> list_all (\<lambda>x. x \<in> range Udp4 \<union> range Mcast4) ([mc, Udp4 m, Udp4 dt] @ optList dm)"
proof -
  have "Udp4 dt \<notin> set [Udp4 m]"
    using portLoop_Some[OF pl] by (elim conjE) (rule newUnicastSocket_Some(4))
  then have "m \<noteq> dt"
    by auto
  moreover have "mc = Mcast4 (metaMulticastPort d) \<or> mc = Udp4 (metaMulticastPort d) \<and> mc \<notin> set [Udp4 m, Udp4 dt]"
    using newMulticastReceiveSocket_Some[OF mc] by blast
  moreover have "optList dm = [] \<or> optList dm = [Mcast4 (userMulticastPort d)]
      \<or> optList dm = [Udp4 (userMulticastPort d)] \<and> Udp4 (userMulticastPort d) \<notin> set [Udp4 m, Udp4 dt, mc]"
    using dm
  proof
    assume "dm = None"
    then show ?thesis by (simp add: optList_def)
  next
    assume "dm = map_option fst (newMulticastReceiveSocket os [Udp4 m, Udp4 dt, mc] (userMulticastPort d))"
    then show ?thesis using multicast_option by blast
  qed
  moreover have "metaMulticastPort d \<noteq> userMulticastPort d"
    by (simp add: metaMulticastPort_def userMulticastPort_def port_defs)
  ultimately show ?thesis
    by (elim disjE conjE) simp_all
qed

lemma isV6_range: "x \<in> range Udp4 \<union> range Mcast4 \<Longrightarrow> \<not> isV6 x"
  by auto

lemma distinct_kinds:
  assumes "distinct a" "list_all (\<lambda>x. x \<in> range Udp4 \<union> range Mcast4) a" "distinct b" "list_all isV6 b" "distinct c"
    "set c \<subseteq> {TcpListener, DtlsListener, QuicListener, WsEndpoint, RelayConn}"
  shows "distinct (a @ b @ c)"
proof -
  have "set a \<inter> set b = {}"
    using assms(2,4) isV6_range by (auto simp: list_all_iff)
  moreover have "set a \<inter> set c = {}"
    using assms(2,6) by (auto simp: list_all_iff)
  moreover have "list_all (\<lambda>x. \<not> isV6 x) c"
    using assms(6) by (auto simp: list_all_iff)
  then have "set b \<inter> set c = {}"
    using assms(4) by (auto simp: list_all_iff)
  ultimately show ?thesis
    using assms(1,3,5) by auto
qed

lemma startTransports_outcome:
  assumes pl: "portLoop os d [0..<16] None = (Some m, Some dt, idx)"
    and mc: "newMulticastReceiveSocket os [Udp4 m, Udp4 dt] (metaMulticastPort d) = Some (mc, joined)"
    and r: "startTransports os d prefix (fold (\<lambda>f. f) opts noOpts) m dt idx mc joined = (r, left)"
  shows "(\<exists>e. r = StartErr e \<and> e \<in> set transportErrors \<and> left = openedV6 os d opts)
    \<or> (\<exists>p s a. r = Started (p, s, a) \<and> left = closeSockets s \<and> distinct left \<and> metaS s = Udp4 (metaPort (cfg p))
        \<and> dataS s = Udp4 (dataPort (cfg p)))"
proof -
  let ?p = "fold (\<lambda>f. f) opts noOpts" and ?rid = "relayIDFromGuidPrefix prefix"
  obtain mc6 me6 da6 where v6: "openV6 os d idx (o_ipv6 ?p) = (mc6, me6, da6)"
    by (cases "openV6 os d idx (o_ipv6 ?p)")
  define dm where "dm = (if o_noMulticast ?p then None
      else map_option fst (newMulticastReceiveSocket os [Udp4 m, Udp4 dt, mc] (userMulticastPort d)))"
  define s where "s = \<lparr>mcastS = mc, metaS = Udp4 m, dataS = Udp4 dt, dataMcastS = dm, mcastV6S = mc6, metaV6S = me6,
      dataV6S = da6, tcpS = None, dtlsS = None, quicS = None, wsS = None, relayS = None\<rparr>"
  have base: "distinct ([mc, Udp4 m, Udp4 dt] @ optList dm)
      \<and> list_all (\<lambda>x. x \<in> range Udp4 \<union> range Mcast4) ([mc, Udp4 m, Udp4 dt] @ optList dm)"
    by (rule base_sockets[OF pl mc]) (simp add: dm_def)
  have six: "v6Sockets s = openedV6 os d opts" "v6Sockets s = optList mc6 @ optList me6 @ optList da6"
    by (simp_all add: s_def v6Sockets_def openedV6_def pl v6)
  have fields: "[mcastS s, metaS s, dataS s] @ optList (dataMcastS s) = [mc, Udp4 m, Udp4 dt] @ optList dm"
    by (simp add: s_def)
  have apart: "v6Apart s"
    unfolding v6Apart_def fields six(2) using openV6_sockets[OF v6] base isV6_range by (auto simp: list_all_iff)
  have none: "otherTransports s = []"
    by (simp add: s_def otherTransports_def optList_def)
  show ?thesis
  proof (cases "openTransports os ?p ?rid s")
    case (Inl x)
    then obtain e l where x: "openTransports os ?p ?rid s = Inl (e, l)"
      by (cases x) simp
    then have "r = StartErr e" "left = l"
      using r by (simp_all add: startTransports_def v6 Let_def flip: dm_def s_def)
    then show ?thesis
      using openTransports_error[OF x] openTransports_Inl[OF x apart none] six(1) by simp
  next
    case (Inr s')
    have "closeSockets s' = ([mc, Udp4 m, Udp4 dt] @ optList dm) @ (optList mc6 @ optList me6 @ optList da6) @ otherTransports s'"
      using openTransports_Inr(1,2)[OF Inr] six(2) fields
      by (simp add: closeSockets_def v6Sockets_def otherTransports_def)
    moreover have "distinct \<dots>"
      using base openV6_sockets[OF v6] distinct_otherTransports[OF Inr]
      by (elim conjE) (rule distinct_kinds; assumption)
    ultimately have "distinct (closeSockets s')"
      by (simp only:)
    moreover obtain p a where "r = Started (p, s', a)" "left = closeSockets s'" "metaPort (cfg p) = m" "dataPort (cfg p) = dt"
      using r Inr by (auto simp: startTransports_def v6 Let_def startConfig_def initParticipant_def simp flip: dm_def s_def)
    moreover have "metaS s = Udp4 m" "dataS s = Udp4 dt"
      by (simp_all add: s_def)
    ultimately show ?thesis
      using openTransports_Inr(3,4)[OF Inr] by simp
  qed
qed

definition exOS :: osEnv where
  "exOS =
     \<lparr>free4 = (\<lambda>_. True), free6 = (\<lambda>_. True), join4 = (\<lambda>_. False), join6 = (\<lambda>_. True), openTCP = (\<lambda>_. None),
      openDTLS = (\<lambda>_. False), openQUIC = (\<lambda>_. None), openWS = (\<lambda>_. None), openRelay = (\<lambda>_ _. False), stun = (\<lambda>_. None)\<rparr>"

lemma exPorts: "portLoop exOS 0 [0..<16] None = (Some 7410, Some 7411, 0)"
  by code_simp

lemma exV6: "openV6 exOS 0 0 True = (Some (Mcast6 7400), Some (Udp6 7410), Some (Udp6 7411))"
  by code_simp

lemma exStart:
  "newParticipant exOS (Some (replicate 8 7)) 1 0 [WithIPv6, WithTCPAddr ''[::]:7000'']
     = (StartErr NoTCP, [Mcast6 7400, Udp6 7410, Udp6 7411])"
proof -
  have "newMulticastReceiveSocket exOS [Udp4 7410, Udp4 7411] (metaMulticastPort 0) = Some (Udp4 7400, False)"
    by code_simp
  moreover have "newMulticastReceiveSocket exOS [Udp4 7410, Udp4 7411, Udp4 7400] (userMulticastPort 0) = Some (Udp4 7401, False)"
    by code_simp
  ultimately show ?thesis
    by (simp add: newParticipant_def ValidateDomain_def newGuidPrefixSafe_def newGuidPrefix_def exPorts startTransports_def
        WithIPv6_def WithTCPAddr_def noOpts_def exV6 openTransports_def tryTCP_def exOS_def[THEN arg_cong[of _ _ openTCP]]
        closing_def closeSockets_def optList_def)
qed

text \<open>
  C11: what creating a participant leaves open. It panics exactly when no index has a free pair of
  ports while the meta port of the last index can be bound. An error leaves no socket open, except
  that the five optional transports leave the IPv6 sockets open that were opened before them. A
  started participant holds pairwise different sockets, exactly the ones that \<^verbatim>\<open>Close\<close> closes, and
  its configuration names the ports that its unicast sockets are bound to.
\<close>

theorem startup_sockets:
  fixes opts :: "'r Option list"
  assumes "newParticipant os rnd pid d opts = (r, left)"
  shows "(r = StartPanic \<longleftrightarrow>
      ValidateDomain d = None \<and> \<not> isl (newGuidPrefixSafe rnd pid) \<and> list_all (\<lambda>i. \<not> bindsPair os d i) [0..<16]
      \<and> newUnicastSocket os [] (metaUnicastPort d 15) \<noteq> None)
    \<and> (\<forall>e. r = StartErr e \<longrightarrow> left = (if e \<in> set transportErrors then openedV6 os d opts else []))
    \<and> (\<forall>p s a. r = Started (p, s, a) \<longrightarrow> left = closeSockets s \<and> distinct left
         \<and> metaS s = Udp4 (metaPort (cfg p)) \<and> dataS s = Udp4 (dataPort (cfg p)))"
proof (cases "ValidateDomain d = None \<and> \<not> isl (newGuidPrefixSafe rnd pid)")
  case False
  then show ?thesis
    using assms by (auto simp: newParticipant_def transportErrors_def split: option.splits sum.splits)
next
  case True
  then obtain prefix where ok: "ValidateDomain d = None" "newGuidPrefixSafe rnd pid = Inr prefix"
    by (cases "newGuidPrefixSafe rnd pid") auto
  obtain mo dto idx where pl: "portLoop os d [0..<16] None = (mo, dto, idx)"
    by (cases "portLoop os d [0..<16] None")
  show ?thesis
  proof (cases dto)
    case None
    then have no_pair: "list_all (\<lambda>i. \<not> bindsPair os d i) [0..<16]"
      using portLoop_None[of os d "[0..<16]" None] pl by simp
    then have meta: "newUnicastSocket os [] (metaUnicastPort d 15) = mo"
      using portLoop_stale[OF no_pair, of None] pl by simp
    then show ?thesis
      using assms no_pair True by (cases mo) (auto simp: newParticipant_def ok pl None transportErrors_def meta)
  next
    case (Some dt)
    then obtain m where m: "mo = Some m"
      using portLoop_no_meta[of os d "[0..<16]" None dto idx] pl by (cases mo) auto
    have pair: "\<not> list_all (\<lambda>i. \<not> bindsPair os d i) [0..<16]"
      using portLoop_None[of os d "[0..<16]" None] pl Some by simp
    show ?thesis
    proof (cases "newMulticastReceiveSocket os [Udp4 m, Udp4 dt] (metaMulticastPort d)")
      case None
      then show ?thesis
        using assms pair by (auto simp: newParticipant_def ok pl Some m transportErrors_def)
    next
      case mc: (Some x)
      have "startTransports os d prefix (fold (\<lambda>f. f) opts noOpts) m dt idx (fst x) (snd x) = (r, left)"
        using assms mc by (simp add: newParticipant_def ok pl Some m case_prod_beta)
      from startTransports_outcome[OF pl[unfolded m Some] _ this] mc show ?thesis
        using pair by auto
    qed
  qed
qed

theorem startup_sockets_witness:
  "openedV6 exOS 0 [WithIPv6, WithTCPAddr ''[::]:7000'' :: unit Option] = [Mcast6 7400, Udp6 7410, Udp6 7411]"
  using startup_sockets[where 'r = unit, OF exStart] by (auto simp: transportErrors_def)

end
