(* ===== verification/Sample_Pool.thy ===== *)
theory Sample_Pool
  imports Dds_Core
begin

text \<open>
  The pools of \<^verbatim>\<open>src/pool/pool.go\<close>: a ring buffer of samples, shown to be a bounded queue, and a
  pool of byte buffers of a minimum capacity.
\<close>

section \<open>Definitions\<close>

record SampleBuffer =
  sb_buf :: "Sample list"
  sb_head :: nat
  sb_tail :: nat
  sb_len :: nat
  sb_cap :: nat

definition zeroSample :: Sample where
  "zeroSample = \<lparr>Topic = [], Payload = [], Timestamp = zeroTime, SampleSeq = 0, WriterGUID = replicate 16 0\<rparr>"

definition NewSampleBuffer :: "int \<Rightarrow> SampleBuffer" where
  "NewSampleBuffer capacity =
     (let c = nat (if capacity \<le> 0 then 64 else capacity)
      in \<lparr>sb_buf = replicate c zeroSample, sb_head = 0, sb_tail = 0, sb_len = 0, sb_cap = c\<rparr>)"

definition PushSample :: "Sample \<Rightarrow> SampleBuffer \<Rightarrow> SampleBuffer option" where
  "PushSample s sb =
     (if sb_len sb = sb_cap sb then None
      else Some (sb\<lparr>sb_buf := (sb_buf sb)[sb_tail sb := s], sb_tail := (sb_tail sb + 1) mod sb_cap sb,
                    sb_len := sb_len sb + 1\<rparr>))"

definition PopSample :: "SampleBuffer \<Rightarrow> (Sample \<times> SampleBuffer) option" where
  "PopSample sb =
     (if sb_len sb = 0 then None
      else Some (sb_buf sb ! sb_head sb,
                 sb\<lparr>sb_buf := (sb_buf sb)[sb_head sb := zeroSample], sb_head := (sb_head sb + 1) mod sb_cap sb,
                    sb_len := sb_len sb - 1\<rparr>))"

text \<open>
  A byte buffer counts by its capacity. The runtime's pool hands out any buffer it holds, or none:
  \<open>pick\<close> is its choice.
\<close>

record BytePool =
  bp_held :: "nat list"
  bp_size :: nat

definition NewBytePool :: "int \<Rightarrow> BytePool" where
  "NewBytePool n = \<lparr>bp_held = [], bp_size = nat (if n \<le> 0 then 4096 else n)\<rparr>"

definition GetBuf :: "nat option \<Rightarrow> BytePool \<Rightarrow> nat \<times> BytePool" where
  "GetBuf pick bp =
     (case pick of
        Some i \<Rightarrow>
          if i < length (bp_held bp)
          then (bp_held bp ! i, bp\<lparr>bp_held := take i (bp_held bp) @ drop (Suc i) (bp_held bp)\<rparr>)
          else (bp_size bp, bp)
      | None \<Rightarrow> (bp_size bp, bp))"

definition PutBuf :: "nat \<Rightarrow> BytePool \<Rightarrow> BytePool" where
  "PutBuf cap bp = (if cap < bp_size bp then bp else bp\<lparr>bp_held := cap # bp_held bp\<rparr>)"

section \<open>The ring buffer is a bounded queue\<close>

definition ringItems :: "SampleBuffer \<Rightarrow> Sample list" where
  "ringItems sb = map (\<lambda>i. sb_buf sb ! ((sb_head sb + i) mod sb_cap sb)) [0..<sb_len sb]"

definition ring_inv :: "SampleBuffer \<Rightarrow> bool" where
  "ring_inv sb \<longleftrightarrow> length (sb_buf sb) = sb_cap sb \<and> sb_head sb < sb_cap sb \<and> sb_len sb \<le> sb_cap sb
     \<and> sb_tail sb = (sb_head sb + sb_len sb) mod sb_cap sb"

lemma ring_slots_differ:
  assumes "i < (n :: nat)" "j < n" "i \<noteq> j"
  shows "(h + i) mod n \<noteq> (h + j) mod n"
proof
  assume "(h + i) mod n = (h + j) mod n"
  then have "(int h + int i) mod int n = (int h + int j) mod int n" by (metis of_nat_add of_nat_mod)
  then have "int i mod int n = int j mod int n" by (metis add_diff_cancel_left' mod_diff_left_eq)
  then show False using assms by (simp add: of_nat_mod [symmetric])
qed

interpretation ring: bounded_fifo PushSample PopSample ringItems sb_cap ring_inv
proof unfold_locales
  fix q x assume q: "ring_inv q" and room: "length (ringItems q) < sb_cap q"
  then have n: "sb_len q < sb_cap q" by (simp add: ringItems_def)
  have "(sb_head q + sb_len q) mod sb_cap q \<noteq> (sb_head q + i) mod sb_cap q" if "i < sb_len q" for i
    using ring_slots_differ [of "sb_len q" "sb_cap q" i] that n by simp
  moreover have "sb_tail q < length (sb_buf q)" using q n by (simp add: ring_inv_def)
  ultimately show "\<exists>q'. PushSample x q = Some q' \<and> ringItems q' = ringItems q @ [x] \<and> sb_cap q' = sb_cap q \<and> ring_inv q'"
    using q n by (auto simp: PushSample_def ringItems_def ring_inv_def mod_Suc_eq intro!: nth_list_update_neq)
next
  fix q x xs assume q: "ring_inv q" and it: "ringItems q = x # xs"
  then obtain m where m: "sb_len q = Suc m" by (cases "sb_len q") (auto simp: ringItems_def)
  have "[0..<sb_len q] = 0 # map Suc [0..<m]" unfolding m by (simp add: map_Suc_upt upt_conv_Cons)
  then have xs: "x = sb_buf q ! sb_head q" "xs = map (\<lambda>i. sb_buf q ! ((sb_head q + Suc i) mod sb_cap q)) [0..<m]"
    using it q by (auto simp: ringItems_def ring_inv_def comp_def)
  have "sb_head q \<noteq> Suc (sb_head q + i) mod sb_cap q" if "i < m" for i
    using ring_slots_differ [of 0 "sb_cap q" "Suc i" "sb_head q"] that q m by (simp add: ring_inv_def)
  then show "\<exists>q'. PopSample q = Some (x, q') \<and> ringItems q' = xs \<and> sb_cap q' = sb_cap q \<and> ring_inv q'"
    using q m by (auto simp: PopSample_def ringItems_def ring_inv_def xs mod_simps intro!: nth_list_update_neq)
qed (auto simp: PushSample_def PopSample_def ringItems_def ring_inv_def)

text \<open>
  C16: the sample buffer is a bounded first-in first-out queue. Over any sequence of pushes and
  pops, the samples it accepted are those it returned followed by those it holds, in order, and it
  never holds more than its capacity, 64 if none was asked for; a push is refused exactly when it
  is full and a pop exactly when it is empty.
\<close>

theorem sample_buffer_fifo:
  assumes "runFifo PushSample PopSample ops (NewSampleBuffer capacity) = (acc, out, sb)"
  shows "acc = out @ ringItems sb \<and> int (sb_len sb) \<le> (if capacity \<le> 0 then 64 else capacity)
    \<and> (PushSample s sb = None \<longleftrightarrow> int (sb_len sb) = (if capacity \<le> 0 then 64 else capacity))
    \<and> (PopSample sb = None \<longleftrightarrow> ringItems sb = [])"
proof -
  have i: "ring_inv (NewSampleBuffer capacity)" "ringItems (NewSampleBuffer capacity) = []"
    "int (sb_cap (NewSampleBuffer capacity)) = (if capacity \<le> 0 then 64 else capacity)"
    by (simp_all add: NewSampleBuffer_def Let_def ring_inv_def ringItems_def)
  note r = ring.run_fifo [OF i(1) assms]
  have l: "length (ringItems sb) = sb_len sb" by (simp add: ringItems_def)
  show ?thesis using r l i(2,3) by (auto simp: PushSample_def PopSample_def)
qed

theorem sample_buffer_fifo_witness:
  "\<exists>acc out sb. runFifo PushSample PopSample [Push zeroSample, Push zeroSample, Pop] (NewSampleBuffer 1) = (acc, out, sb)
     \<and> acc = [zeroSample] \<and> acc = out @ ringItems sb"
proof -
  obtain acc out sb where r: "runFifo PushSample PopSample [Push zeroSample, Push zeroSample, Pop] (NewSampleBuffer 1) = (acc, out, sb)"
    by (metis prod_cases3)
  then have "acc = [zeroSample]" by (simp add: NewSampleBuffer_def Let_def PushSample_def PopSample_def)
  then show ?thesis using sample_buffer_fifo [OF r, of zeroSample] r by blast
qed

section \<open>Byte buffers\<close>

text \<open>A buffer from the pool never has less than the pool's capacity.\<close>

definition pool_inv :: "BytePool \<Rightarrow> bool" where
  "pool_inv bp \<longleftrightarrow> list_all (\<lambda>c. bp_size bp \<le> c) (bp_held bp)"

lemma pool_inv_ops:
  "pool_inv (NewBytePool n)"
  "pool_inv bp \<Longrightarrow> pool_inv (PutBuf c bp)"
  "pool_inv bp \<Longrightarrow> pool_inv (snd (GetBuf pick bp)) \<and> bp_size bp \<le> fst (GetBuf pick bp)"
  by (auto simp: pool_inv_def NewBytePool_def PutBuf_def GetBuf_def list_all_iff dest: nth_mem
      dest: in_set_takeD in_set_dropD split: option.splits)

end
