(* ===== verification/Rtps_Loan.thy ===== *)
theory Rtps_Loan
  imports Rtps_Participant Sample_Pool
begin

text \<open>
  Publishing from loaned buffers (\<^verbatim>\<open>rtps/loan.go\<close>) over the byte pool, and the introspection of the
  discovery tables (\<^verbatim>\<open>rtps/discovery.go\<close>). A buffer counts by its capacity, as in the pool.
\<close>

section \<open>Definitions\<close>

subsection \<open>Loaned samples\<close>

record loaningWriter =
  lw_writer :: EntityId
  lw_bp :: BytePool

datatype loan_result = Loaned nat | LoanErr dds_error | LoanPanics

text \<open>A negative size passes the capacity check and panics when the buffer is sliced.\<close>

definition Loan :: "nat option \<Rightarrow> int \<Rightarrow> rtpsWriter \<Rightarrow> loaningWriter \<Rightarrow> loan_result \<times> loaningWriter" where
  "Loan pick n w lw =
     (if w_closed w then (LoanErr ErrClosed, lw)
      else
        let (cap, bp) = GetBuf pick (lw_bp lw) in
        if int cap < n then (LoanErr ErrLoanBuffer, lw\<lparr>lw_bp := PutBuf cap bp\<rparr>)
        else if n < 0 then (LoanPanics, lw\<lparr>lw_bp := bp\<rparr>)
        else (Loaned cap, lw\<lparr>lw_bp := bp\<rparr>))"

text \<open>The buffer goes back to the pool whether or not the write succeeds.\<close>

definition Commit ::
  "env \<Rightarrow> nat \<Rightarrow> bytes \<Rightarrow> loaningWriter \<Rightarrow> 'r participant
    \<Rightarrow> (rtpsError option \<times> 'r participant \<times> out list \<times> loaningWriter) option"
where
  "Commit env cap payload lw p =
     (case Write env (lw_writer lw) payload p of
        None \<Rightarrow> None
      | Some (e, p', outs) \<Rightarrow> Some (e, p', outs, lw\<lparr>lw_bp := PutBuf cap (lw_bp lw)\<rparr>))"

text \<open>On a participant of this package the created publisher is always an RTPS writer.\<close>

definition NewLoaningPublisher ::
  "env \<Rightarrow> topic \<Rightarrow> QoS \<Rightarrow> int \<Rightarrow> 'r participant \<Rightarrow> (rtpsError + loaningWriter) \<times> 'r participant \<times> out list"
where
  "NewLoaningPublisher env t qos bufSize p =
     (case NewPublisher env t qos p of
        (Inl e, p', outs) \<Rightarrow> (Inl e, p', outs)
      | (Inr eid, p', outs) \<Rightarrow> (Inr \<lparr>lw_writer = eid, lw_bp = NewBytePool bufSize\<rparr>, p', outs))"

subsection \<open>Introspection\<close>

record DiscoveredEndpoint =
  de_guid :: GUID
  de_topic :: topic
  de_typeName :: gostring
  de_isWriter :: bool
  de_local :: bool
  de_partitions :: "bytes list"

definition endpointView :: "bool \<Rightarrow> endpointInfo \<Rightarrow> DiscoveredEndpoint" where
  "endpointView loc info =
     \<lparr>de_guid = ei_guid info, de_topic = topicName info, de_typeName = typeName info, de_isWriter = isWriter info,
      de_local = loc, de_partitions = partitions info\<rparr>"

definition DiscoveredEndpoints :: "'r participant \<Rightarrow> DiscoveredEndpoint list" where
  "DiscoveredEndpoints p =
     (let s = sedp p in
      map (\<lambda>(_, i). endpointView True i) (localWriters s) @ map (\<lambda>(_, i). endpointView True i) (localReaders s)
      @ map (\<lambda>(_, i). endpointView False i) (remoteWriters s) @ map (\<lambda>(_, i). endpointView False i) (remoteReaders s))"

section \<open>Lemmas\<close>

text \<open>A loan is at least as large as asked; with the pool's own sizes it is refused only for larger requests.\<close>

lemma Loan_outcome:
  assumes "pool_inv (lw_bp lw)" "0 \<le> n" "\<not> w_closed w"
  shows "n \<le> int (bp_size (lw_bp lw)) \<longrightarrow> (\<exists>cap. fst (Loan pick n w lw) = Loaned cap)"
    "fst (Loan pick n w lw) = Loaned cap \<longrightarrow> n \<le> int cap \<and> bp_size (lw_bp lw) \<le> cap"
    "pool_inv (lw_bp (snd (Loan pick n w lw)))"
proof -
  obtain cap' bp where g: "GetBuf pick (lw_bp lw) = (cap', bp)"
    by (cases "GetBuf pick (lw_bp lw)")
  then have "pool_inv bp" "bp_size (lw_bp lw) \<le> cap'"
    using pool_inv_ops(3)[OF assms(1), of pick] by simp_all
  then show "n \<le> int (bp_size (lw_bp lw)) \<longrightarrow> (\<exists>cap. fst (Loan pick n w lw) = Loaned cap)"
    "fst (Loan pick n w lw) = Loaned cap \<longrightarrow> n \<le> int cap \<and> bp_size (lw_bp lw) \<le> cap"
    "pool_inv (lw_bp (snd (Loan pick n w lw)))"
    using assms(2,3) by (auto simp: Loan_def g pool_inv_ops(2))
qed

text \<open>Committing a loan takes the pool back to one that hands out the same buffer.\<close>

lemma loan_commit_reuse:
  assumes "pool_inv (lw_bp lw)" "0 \<le> n" "\<not> w_closed w" "Loan pick n w lw = (Loaned cap, lw')"
    "Commit env cap payload lw' p = Some (e, p', outs, lw'')"
  shows "fst (Loan (Some 0) n w lw'') = Loaned cap"
proof -
  obtain bp where g: "GetBuf pick (lw_bp lw) = (cap, bp)" "lw' = lw\<lparr>lw_bp := bp\<rparr>" "n \<le> int cap"
    using assms(2-4) by (auto simp: Loan_def split: prod.splits if_splits)
  have "bp_size bp = bp_size (lw_bp lw)"
    using g(1) by (auto simp: GetBuf_def split: option.splits if_splits)
  moreover have "bp_size (lw_bp lw) \<le> cap"
    using pool_inv_ops(3)[OF assms(1), of pick] g(1) by simp
  ultimately have "lw_bp lw'' = bp\<lparr>bp_held := cap # bp_held bp\<rparr>"
    using assms(5) g(2) by (auto simp: Commit_def PutBuf_def split: option.splits)
  then show ?thesis
    using assms(2,3) g(3) by (simp add: Loan_def GetBuf_def)
qed

end
