(* ===== verification/Cfilter.thy ===== *)
theory Cfilter
  imports Complex_Main "HOL-Library.Char_ord" "HOL-Library.List_Lexorder" Dds_Prelude
begin

text \<open>
  The content filter language (\<^verbatim>\<open>src/cfilter/cfilter.go\<close>): its tokenizer, its recursive-descent
  parser, which compiles an expression to a predicate on decoded samples, and the comparisons. The
  accepted expressions are shown to be exactly those of a grammar with the usual precedences, each
  compiled to what its syntax tree means.

  Texts are character lists, one character per byte. A \<^verbatim>\<open>float64\<close> is the number it stands for,
  which is all that comparisons see of it. \<^verbatim>\<open>strconv.ParseFloat\<close> and the decoding of a payload by
  \<^verbatim>\<open>json.Unmarshal\<close> are the arguments \<open>parseFloat\<close> and \<open>unmarshal\<close>; nothing is assumed of them.
\<close>

section \<open>Definitions\<close>

subsection \<open>Tokens\<close>

datatype tokKind = tokEOF | tokIdent | tokNumber | tokString | tokParam | tokOp | tokAnd | tokOr | tokNot
  | tokLParen | tokRParen

record token =
  tk_kind :: tokKind
  tk_text :: string

datatype cfError = UnterminatedString | MalformedParam | UnexpectedChar char | UnexpectedToken string
  | ExpectedRParen | ExpectedOp string | InvalidNumber string | InvalidParam string
  | ParamOutOfRange nat | ExpectedOperand string | OutOfFuel

definition tok :: "tokKind \<Rightarrow> string \<Rightarrow> token" where
  "tok k s = \<lparr>tk_kind = k, tk_text = s\<rparr>"

definition isIdentStart :: "char \<Rightarrow> bool" where
  "isIdentStart c \<longleftrightarrow> c = CHR ''_'' \<or> (CHR ''a'' \<le> c \<and> c \<le> CHR ''z'') \<or> (CHR ''A'' \<le> c \<and> c \<le> CHR ''Z'')"

definition isDigit :: "char \<Rightarrow> bool" where
  "isDigit c \<longleftrightarrow> CHR ''0'' \<le> c \<and> c \<le> CHR ''9''"

definition isIdentPart :: "char \<Rightarrow> bool" where
  "isIdentPart c \<longleftrightarrow> isIdentStart c \<or> isDigit c"

definition isNumPart :: "char \<Rightarrow> bool" where
  "isNumPart c \<longleftrightarrow> isDigit c \<or> c = CHR ''.''"

definition quote :: char where
  "quote = CHR 0x27"

text \<open>The rest of a string literal after its opening quote: its value and what follows it.\<close>

fun scanString :: "string \<Rightarrow> (string \<times> string) option" where
  "scanString [] = None"
| "scanString (c # s) =
     (if c = quote then
        (case s of
           d # s' \<Rightarrow> if d = quote then map_option (apfst (Cons quote)) (scanString s') else Some ([], s)
         | [] \<Rightarrow> Some ([], []))
      else map_option (apfst (Cons c)) (scanString s))"

text \<open>\<^verbatim>\<open>strings.ToUpper\<close> on a word of ASCII letters, digits and underscores.\<close>

definition toUpper :: "char \<Rightarrow> char" where
  "toUpper c = (if CHR ''a'' \<le> c \<and> c \<le> CHR ''z'' then char_of (of_char c - 32 :: nat) else c)"

definition wordTok :: "string \<Rightarrow> token" where
  "wordTok w =
     (let u = map toUpper w in
      if u = ''AND'' then tok tokAnd w
      else if u = ''OR'' then tok tokOr w
      else if u = ''NOT'' then tok tokNot w
      else tok tokIdent w)"

definition consTok :: "token \<Rightarrow> cfError + token list \<Rightarrow> cfError + token list" where
  "consTok t = map_sum id (Cons t)"

definition nextIs :: "char \<Rightarrow> string \<Rightarrow> bool" where
  "nextIs c s \<longleftrightarrow> (case s of d # _ \<Rightarrow> d = c | [] \<Rightarrow> False)"

lemma scanString_shrinks: "scanString s = Some (v, r) \<Longrightarrow> length r < length s"
  by (induction s arbitrary: v r rule: scanString.induct) (fastforce split: if_splits list.splits)+

function tokenize :: "string \<Rightarrow> cfError + token list" where
  "tokenize [] = Inr []"
| "tokenize (c # s) =
     (if c = CHR '' '' \<or> c = CHR 0x09 \<or> c = CHR 0x0A \<or> c = CHR 0x0D then tokenize s
      else if c = CHR ''('' then consTok (tok tokLParen ''('') (tokenize s)
      else if c = CHR '')'' then consTok (tok tokRParen '')'') (tokenize s)
      else if c = quote then
        (case scanString s of
           None \<Rightarrow> Inl UnterminatedString
         | Some (v, rest) \<Rightarrow> consTok (tok tokString v) (tokenize rest))
      else if c = CHR ''%'' then
        (if takeWhile isDigit s = [] then Inl MalformedParam
         else consTok (tok tokParam (takeWhile isDigit s)) (tokenize (dropWhile isDigit s)))
      else if c = CHR ''!'' \<and> nextIs (CHR ''='') s then consTok (tok tokOp ''!='') (tokenize (tl s))
      else if c = CHR ''<'' \<and> nextIs (CHR ''>'') s then consTok (tok tokOp ''<>'') (tokenize (tl s))
      else if c = CHR ''<'' \<and> nextIs (CHR ''='') s then consTok (tok tokOp ''<='') (tokenize (tl s))
      else if c = CHR ''<'' then consTok (tok tokOp ''<'') (tokenize s)
      else if c = CHR ''>'' \<and> nextIs (CHR ''='') s then consTok (tok tokOp ''>='') (tokenize (tl s))
      else if c = CHR ''>'' then consTok (tok tokOp ''>'') (tokenize s)
      else if c = CHR ''='' then consTok (tok tokOp ''='') (tokenize s)
      else if (c = CHR ''-'' \<or> c = CHR ''+'') \<and> (case s of d # _ \<Rightarrow> isDigit d | [] \<Rightarrow> False) then
        consTok (tok tokNumber (c # takeWhile isNumPart s)) (tokenize (dropWhile isNumPart s))
      else if isDigit c then
        consTok (tok tokNumber (c # takeWhile isNumPart s)) (tokenize (dropWhile isNumPart s))
      else if isIdentStart c then
        consTok (wordTok (c # takeWhile isIdentPart s)) (tokenize (dropWhile isIdentPart s))
      else Inl (UnexpectedChar c))"
  by pat_completeness auto
termination
  by (relation "measure length")
    (auto simp: le_imp_less_Suc length_dropWhile_le less_SucI scanString_shrinks intro: le_imp_less_Suc diff_le_self)

subsection \<open>Values and comparisons\<close>

datatype float64 = NaN | NegInf | Finite rat | PosInf

fun fltEq :: "float64 \<Rightarrow> float64 \<Rightarrow> bool" where
  "fltEq NegInf NegInf = True"
| "fltEq PosInf PosInf = True"
| "fltEq (Finite a) (Finite b) = (a = b)"
| "fltEq _ _ = False"

fun fltLess :: "float64 \<Rightarrow> float64 \<Rightarrow> bool" where
  "fltLess NaN _ = False"
| "fltLess _ NaN = False"
| "fltLess NegInf b = (b \<noteq> NegInf)"
| "fltLess (Finite a) b = (case b of Finite b' \<Rightarrow> a < b' | PosInf \<Rightarrow> True | _ \<Rightarrow> False)"
| "fltLess PosInf _ = False"

text \<open>
  What an operand evaluates to: a number, a string, the text bound to a parameter, or a JSON value
  of another kind (boolean, null, object, array).
\<close>

datatype anyval = VNum float64 | VStr string | VParam string | VOther

type_synonym fields = "string \<rightharpoonup> anyval"

definition normalizeParam :: "(string \<Rightarrow> float64 option) \<Rightarrow> anyval \<Rightarrow> anyval" where
  "normalizeParam parseFloat v =
     (case v of
        VParam pv \<Rightarrow> (case parseFloat pv of Some f \<Rightarrow> VNum f | None \<Rightarrow> VStr pv)
      | _ \<Rightarrow> v)"

definition compareOrdered :: "('a \<Rightarrow> 'a \<Rightarrow> bool) \<Rightarrow> ('a \<Rightarrow> 'a \<Rightarrow> bool) \<Rightarrow> 'a \<Rightarrow> 'a \<Rightarrow> string \<Rightarrow> bool" where
  "compareOrdered eq lt l r opr =
     (if opr = ''='' then eq l r
      else if opr = ''<>'' \<or> opr = ''!='' then \<not> eq l r
      else if opr = ''>'' then lt r l
      else if opr = ''>='' then lt r l \<or> eq l r
      else if opr = ''<'' then lt l r
      else if opr = ''<='' then lt l r \<or> eq l r
      else False)"

definition compareVals :: "(string \<Rightarrow> float64 option) \<Rightarrow> anyval \<Rightarrow> anyval \<Rightarrow> string \<Rightarrow> bool" where
  "compareVals parseFloat lv rv opr =
     (case normalizeParam parseFloat lv of
        VNum lf \<Rightarrow> (case normalizeParam parseFloat rv of VNum rf \<Rightarrow> compareOrdered fltEq fltLess lf rf opr | _ \<Rightarrow> False)
      | VStr ls \<Rightarrow> (case normalizeParam parseFloat rv of VStr rs \<Rightarrow> compareOrdered (=) (<) ls rs opr | _ \<Rightarrow> False)
      | _ \<Rightarrow> False)"

subsection \<open>The parser\<close>

text \<open>
  A parser takes the remaining tokens and returns an error or what it compiled with the tokens
  after it. \<open>peekKind\<close> of the empty list is the end-of-input token.
\<close>

definition peekKind :: "token list \<Rightarrow> tokKind" where
  "peekKind ts = (case ts of t # _ \<Rightarrow> tk_kind t | [] \<Rightarrow> tokEOF)"

definition peekText :: "token list \<Rightarrow> string" where
  "peekText ts = (case ts of t # _ \<Rightarrow> tk_text t | [] \<Rightarrow> [])"

text \<open>\<^verbatim>\<open>strconv.Atoi\<close> on a sequence of digits.\<close>

definition digitVal :: "char \<Rightarrow> nat" where
  "digitVal c = of_char c - of_char CHR ''0''"

definition Atoi :: "string \<Rightarrow> nat option" where
  "Atoi s = (let n = foldl (\<lambda>a c. 10 * a + digitVal c) 0 s in if n < 2 ^ 63 then Some n else None)"

definition parseOperand ::
  "(string \<Rightarrow> float64 option) \<Rightarrow> string list \<Rightarrow> token list \<Rightarrow> cfError + (fields \<Rightarrow> anyval option) \<times> token list"
where
  "parseOperand parseFloat params ts =
     (case peekKind ts of
        tokIdent \<Rightarrow> Inr (\<lambda>f. f (peekText ts), tl ts)
      | tokNumber \<Rightarrow>
          (case parseFloat (peekText ts) of
             None \<Rightarrow> Inl (InvalidNumber (peekText ts))
           | Some v \<Rightarrow> Inr (\<lambda>_. Some (VNum v), tl ts))
      | tokString \<Rightarrow> Inr (\<lambda>_. Some (VStr (peekText ts)), tl ts)
      | tokParam \<Rightarrow>
          (case Atoi (peekText ts) of
             None \<Rightarrow> Inl (InvalidParam (peekText ts))
           | Some idx \<Rightarrow>
               if idx \<ge> length params then Inl (ParamOutOfRange idx)
               else Inr (\<lambda>_. Some (VParam (params ! idx)), tl ts))
      | _ \<Rightarrow> Inl (ExpectedOperand (peekText ts)))"

definition parseComparison ::
  "(string \<Rightarrow> float64 option) \<Rightarrow> string list \<Rightarrow> token list \<Rightarrow> cfError + (fields \<Rightarrow> bool) \<times> token list"
where
  "parseComparison parseFloat params ts =
     (case parseOperand parseFloat params ts of
        Inl e \<Rightarrow> Inl e
      | Inr (left, ts1) \<Rightarrow>
          if peekKind ts1 \<noteq> tokOp then Inl (ExpectedOp (peekText ts1))
          else
            (case parseOperand parseFloat params (tl ts1) of
               Inl e \<Rightarrow> Inl e
             | Inr (right, ts2) \<Rightarrow>
                 Inr (\<lambda>f. (case (left f, right f) of
                             (Some lv, Some rv) \<Rightarrow> compareVals parseFloat lv rv (peekText ts1)
                           | _ \<Rightarrow> False), ts2)))"

text \<open>
  The three levels of the grammar, with their loops. Every call spends one unit of fuel.
\<close>

fun parseOr parseAnd parseUnary ::
  "(string \<Rightarrow> float64 option) \<Rightarrow> string list \<Rightarrow> nat \<Rightarrow> token list \<Rightarrow> cfError + (fields \<Rightarrow> bool) \<times> token list"
and orLoop andLoop ::
  "(string \<Rightarrow> float64 option) \<Rightarrow> string list \<Rightarrow> nat \<Rightarrow> (fields \<Rightarrow> bool) \<Rightarrow> token list \<Rightarrow> cfError + (fields \<Rightarrow> bool) \<times> token list"
where
  "parseOr pf ps 0 ts = Inl OutOfFuel"
| "parseOr pf ps (Suc n) ts =
     (case parseAnd pf ps n ts of Inl e \<Rightarrow> Inl e | Inr (left, ts1) \<Rightarrow> orLoop pf ps n left ts1)"
| "orLoop pf ps 0 left ts = Inl OutOfFuel"
| "orLoop pf ps (Suc n) left ts =
     (if peekKind ts = tokOr then
        (case parseAnd pf ps n (tl ts) of
           Inl e \<Rightarrow> Inl e
         | Inr (right, ts1) \<Rightarrow> orLoop pf ps n (\<lambda>f. left f \<or> right f) ts1)
      else Inr (left, ts))"
| "parseAnd pf ps 0 ts = Inl OutOfFuel"
| "parseAnd pf ps (Suc n) ts =
     (case parseUnary pf ps n ts of Inl e \<Rightarrow> Inl e | Inr (left, ts1) \<Rightarrow> andLoop pf ps n left ts1)"
| "andLoop pf ps 0 left ts = Inl OutOfFuel"
| "andLoop pf ps (Suc n) left ts =
     (if peekKind ts = tokAnd then
        (case parseUnary pf ps n (tl ts) of
           Inl e \<Rightarrow> Inl e
         | Inr (right, ts1) \<Rightarrow> andLoop pf ps n (\<lambda>f. left f \<and> right f) ts1)
      else Inr (left, ts))"
| "parseUnary pf ps 0 ts = Inl OutOfFuel"
| "parseUnary pf ps (Suc n) ts =
     (case peekKind ts of
        tokNot \<Rightarrow> (case parseUnary pf ps n (tl ts) of Inl e \<Rightarrow> Inl e | Inr (inner, ts1) \<Rightarrow> Inr (\<lambda>f. \<not> inner f, ts1))
      | tokLParen \<Rightarrow>
          (case parseOr pf ps n (tl ts) of
             Inl e \<Rightarrow> Inl e
           | Inr (inner, ts1) \<Rightarrow> if peekKind ts1 \<noteq> tokRParen then Inl ExpectedRParen else Inr (inner, tl ts1))
      | _ \<Rightarrow> parseComparison pf ps ts)"

definition parseTokens ::
  "(string \<Rightarrow> float64 option) \<Rightarrow> string list \<Rightarrow> token list \<Rightarrow> cfError + (fields \<Rightarrow> bool)"
where
  "parseTokens pf ps ts =
     (case parseOr pf ps (3 * length ts + 3) ts of
        Inl e \<Rightarrow> Inl e
      | Inr (fn, rest) \<Rightarrow> if rest \<noteq> [] then Inl (UnexpectedToken (peekText rest)) else Inr fn)"

definition ParseExpr ::
  "(string \<Rightarrow> float64 option) \<Rightarrow> string \<Rightarrow> string list \<Rightarrow> cfError + (fields \<Rightarrow> bool)"
where
  "ParseExpr pf expr params =
     (case tokenize expr of Inl e \<Rightarrow> Inl e | Inr ts \<Rightarrow> parseTokens pf params ts)"

definition Eval :: "(bytes \<Rightarrow> fields option) \<Rightarrow> (fields \<Rightarrow> bool) \<Rightarrow> bytes \<Rightarrow> bool" where
  "Eval unmarshal fn payload = (case unmarshal payload of None \<Rightarrow> False | Some f \<Rightarrow> fn f)"

section \<open>The language\<close>

text \<open>
  The grammar: comparisons of two operands, negation and parentheses bind tightest, then
  \<open>AND\<close>, then \<open>OR\<close>, both to the left. \<open>operandOf\<close> is what a single token denotes as an operand and
  \<open>sem\<close> what a syntax tree means.
\<close>

datatype operand = Field string | Const anyval

datatype pred = Cmp operand string operand | PNot pred | PAnd pred pred | POr pred pred

definition operandOf :: "(string \<Rightarrow> float64 option) \<Rightarrow> string list \<Rightarrow> token \<Rightarrow> operand option" where
  "operandOf pf ps t =
     (case tk_kind t of
        tokIdent \<Rightarrow> Some (Field (tk_text t))
      | tokNumber \<Rightarrow> map_option (Const \<circ> VNum) (pf (tk_text t))
      | tokString \<Rightarrow> Some (Const (VStr (tk_text t)))
      | tokParam \<Rightarrow> (case Atoi (tk_text t) of
           Some i \<Rightarrow> if i < length ps then Some (Const (VParam (ps ! i))) else None | None \<Rightarrow> None)
      | _ \<Rightarrow> None)"

primrec valueOf :: "operand \<Rightarrow> fields \<Rightarrow> anyval option" where
  "valueOf (Field x) f = f x"
| "valueOf (Const v) f = Some v"

primrec sem :: "(string \<Rightarrow> float64 option) \<Rightarrow> pred \<Rightarrow> fields \<Rightarrow> bool" where
  "sem pf (Cmp a opr b) f =
     (case (valueOf a f, valueOf b f) of (Some x, Some y) \<Rightarrow> compareVals pf x y opr | _ \<Rightarrow> False)"
| "sem pf (PNot e) f = (\<not> sem pf e f)"
| "sem pf (PAnd d e) f = (sem pf d f \<and> sem pf e f)"
| "sem pf (POr d e) f = (sem pf d f \<or> sem pf e f)"

inductive gUnary gAnd gOr :: "(string \<Rightarrow> float64 option) \<Rightarrow> string list \<Rightarrow> token list \<Rightarrow> pred \<Rightarrow> bool"
  for pf ps
where
  GCmp: "operandOf pf ps a = Some x \<Longrightarrow> tk_kind t = tokOp \<Longrightarrow> operandOf pf ps b = Some y
     \<Longrightarrow> gUnary pf ps [a, t, b] (Cmp x (tk_text t) y)"
| GNot: "tk_kind t = tokNot \<Longrightarrow> gUnary pf ps ts e \<Longrightarrow> gUnary pf ps (t # ts) (PNot e)"
| GParen: "tk_kind l = tokLParen \<Longrightarrow> gOr pf ps ts e \<Longrightarrow> tk_kind r = tokRParen \<Longrightarrow> gUnary pf ps (l # ts @ [r]) e"
| GAnd1: "gUnary pf ps ts e \<Longrightarrow> gAnd pf ps ts e"
| GAnd2: "gAnd pf ps ts d \<Longrightarrow> tk_kind t = tokAnd \<Longrightarrow> gUnary pf ps us e \<Longrightarrow> gAnd pf ps (ts @ t # us) (PAnd d e)"
| GOr1: "gAnd pf ps ts e \<Longrightarrow> gOr pf ps ts e"
| GOr2: "gOr pf ps ts d \<Longrightarrow> tk_kind t = tokOr \<Longrightarrow> gAnd pf ps us e \<Longrightarrow> gOr pf ps (ts @ t # us) (POr d e)"

lemmas g_intros = gUnary_gAnd_gOr.intros

section \<open>The parser accepts the grammar\<close>

lemma peek_Cons [simp]: "peekKind (t # ts) = tk_kind t" "peekText (t # ts) = tk_text t"
  by (simp_all add: peekKind_def peekText_def)

lemma peekKind_neq_EOF: "peekKind ts = k \<Longrightarrow> k \<noteq> tokEOF \<Longrightarrow> \<exists>t ts'. ts = t # ts' \<and> tk_kind t = k"
  by (cases ts) (auto simp: peekKind_def)

lemma parseOperand_iff:
  "parseOperand pf ps ts = Inr (v, rest) \<longleftrightarrow>
     (\<exists>t x. ts = t # rest \<and> tk_kind t \<noteq> tokEOF \<and> operandOf pf ps t = Some x \<and> v = valueOf x)"
proof (cases ts)
  case Nil
  then show ?thesis by (simp add: parseOperand_def peekKind_def)
next
  case (Cons t us)
  have c: "valueOf (Field x) = (\<lambda>f. f x)" "valueOf (Const y) = (\<lambda>_. Some y)" for x y by auto
  show ?thesis unfolding Cons
    by (cases "tk_kind t") (auto simp: parseOperand_def operandOf_def c split: option.splits)
qed

lemma operandOf_not_EOF: "operandOf pf ps t = Some x \<Longrightarrow> tk_kind t \<notin> {tokEOF, tokNot, tokLParen}"
  by (auto simp: operandOf_def)

lemma parseComparison_iff:
  "parseComparison pf ps ts = Inr (v, rest) \<longleftrightarrow>
     (\<exists>a x t b y. ts = a # t # b # rest \<and> operandOf pf ps a = Some x \<and> tk_kind t = tokOp
        \<and> operandOf pf ps b = Some y \<and> v = sem pf (Cmp x (tk_text t) y))"
proof -
  have s: "sem pf (Cmp x o' y) = (\<lambda>f. case (valueOf x f, valueOf y f) of (Some lv, Some rv) \<Rightarrow> compareVals pf lv rv o' | _ \<Rightarrow> False)" for x o' y
    by (rule ext) simp
  show ?thesis
  proof
    assume "parseComparison pf ps ts = Inr (v, rest)"
    then show "\<exists>a x t b y. ts = a # t # b # rest \<and> operandOf pf ps a = Some x \<and> tk_kind t = tokOp
        \<and> operandOf pf ps b = Some y \<and> v = sem pf (Cmp x (tk_text t) y)"
      unfolding parseComparison_def s
      by (auto split: sum.splits if_splits prod.splits simp: parseOperand_iff dest!: peekKind_neq_EOF cong: option.case_cong)
  next
    assume "\<exists>a x t b y. ts = a # t # b # rest \<and> operandOf pf ps a = Some x \<and> tk_kind t = tokOp
        \<and> operandOf pf ps b = Some y \<and> v = sem pf (Cmp x (tk_text t) y)"
    then obtain a x t b y where e: "ts = a # t # b # rest" "operandOf pf ps a = Some x" "tk_kind t = tokOp"
      "operandOf pf ps b = Some y" "v = sem pf (Cmp x (tk_text t) y)" by blast
    have "parseOperand pf ps ts = Inr (valueOf x, t # b # rest)" "parseOperand pf ps (b # rest) = Inr (valueOf y, rest)"
      using e operandOf_not_EOF by (auto simp: parseOperand_iff)
    then show "parseComparison pf ps ts = Inr (v, rest)" using e(3,5) by (simp add: parseComparison_def s cong: option.case_cong)
  qed
qed

lemma parse_sound:
  "parseOr pf ps n ts = Inr (fn, rest) \<Longrightarrow> \<exists>us e. ts = us @ rest \<and> gOr pf ps us e \<and> fn = sem pf e"
  "parseAnd pf ps n ts = Inr (fn, rest) \<Longrightarrow> \<exists>us e. ts = us @ rest \<and> gAnd pf ps us e \<and> fn = sem pf e"
  "parseUnary pf ps n ts = Inr (fn, rest) \<Longrightarrow> \<exists>us e. ts = us @ rest \<and> gUnary pf ps us e \<and> fn = sem pf e"
  "orLoop pf ps n left ts = Inr (fn, rest) \<Longrightarrow> gOr pf ps vs d \<Longrightarrow> left = sem pf d
     \<Longrightarrow> \<exists>us e. ts = us @ rest \<and> gOr pf ps (vs @ us) e \<and> fn = sem pf e"
  "andLoop pf ps n left ts = Inr (fn, rest) \<Longrightarrow> gAnd pf ps vs d \<Longrightarrow> left = sem pf d
     \<Longrightarrow> \<exists>us e. ts = us @ rest \<and> gAnd pf ps (vs @ us) e \<and> fn = sem pf e"
proof (induction pf ps n ts and pf ps n ts and pf ps n ts and pf ps n left ts and pf ps n left ts
    arbitrary: fn rest and fn rest and fn rest and fn rest vs d and fn rest vs d
    rule: parseOr_parseAnd_parseUnary_orLoop_andLoop.induct)
  case (2 pf ps n ts)
  from 2(3) obtain left ts1 where a: "parseAnd pf ps n ts = Inr (left, ts1)" "orLoop pf ps n left ts1 = Inr (fn, rest)"
    by (auto split: sum.splits prod.splits)
  from 2(1) [OF a(1)] obtain us e where b: "ts = us @ ts1" "gAnd pf ps us e" "left = sem pf e" by blast
  from 2(2) [OF a(1) refl a(2) GOr1 [OF b(2)] b(3)] show ?case using b(1) by fastforce
next
  case (4 pf ps n left ts)
  show ?case
  proof (cases "peekKind ts = tokOr")
    case True
    then obtain t ts' where t: "ts = t # ts'" "tk_kind t = tokOr" using peekKind_neq_EOF by blast
    from 4(3) True obtain right ts1 where a: "parseAnd pf ps n (tl ts) = Inr (right, ts1)"
      "orLoop pf ps n (\<lambda>f. left f \<or> right f) ts1 = Inr (fn, rest)" by (auto split: sum.splits prod.splits)
    from 4(1) [OF True a(1)] obtain us e where b: "tl ts = us @ ts1" "gAnd pf ps us e" "right = sem pf e" by blast
    have "(\<lambda>f. left f \<or> right f) = sem pf (POr d e)" using 4(5) b(3) by auto
    from 4(2) [OF True a(1) refl a(2) GOr2 [OF 4(4) t(2) b(2)] this] obtain us' e'
      where "ts1 = us' @ rest" "gOr pf ps ((vs @ t # us) @ us') e'" "fn = sem pf e'" by blast
    then show ?thesis using t(1) b(1) by (intro exI [of _ "t # us @ us'"] exI [of _ e']) simp
  qed (use 4 in auto)
next
  case (6 pf ps n ts)
  from 6(3) obtain left ts1 where a: "parseUnary pf ps n ts = Inr (left, ts1)" "andLoop pf ps n left ts1 = Inr (fn, rest)"
    by (auto split: sum.splits prod.splits)
  from 6(1) [OF a(1)] obtain us e where b: "ts = us @ ts1" "gUnary pf ps us e" "left = sem pf e" by blast
  from 6(2) [OF a(1) refl a(2) GAnd1 [OF b(2)] b(3)] show ?case using b(1) by fastforce
next
  case (8 pf ps n left ts)
  show ?case
  proof (cases "peekKind ts = tokAnd")
    case True
    then obtain t ts' where t: "ts = t # ts'" "tk_kind t = tokAnd" using peekKind_neq_EOF by blast
    from 8(3) True obtain right ts1 where a: "parseUnary pf ps n (tl ts) = Inr (right, ts1)"
      "andLoop pf ps n (\<lambda>f. left f \<and> right f) ts1 = Inr (fn, rest)" by (auto split: sum.splits prod.splits)
    from 8(1) [OF True a(1)] obtain us e where b: "tl ts = us @ ts1" "gUnary pf ps us e" "right = sem pf e" by blast
    have "(\<lambda>f. left f \<and> right f) = sem pf (PAnd d e)" using 8(5) b(3) by auto
    from 8(2) [OF True a(1) refl a(2) GAnd2 [OF 8(4) t(2) b(2)] this] obtain us' e'
      where "ts1 = us' @ rest" "gAnd pf ps ((vs @ t # us) @ us') e'" "fn = sem pf e'" by blast
    then show ?thesis using t(1) b(1) by (intro exI [of _ "t # us @ us'"] exI [of _ e']) simp
  qed (use 8 in auto)
next
  case (10 pf ps n ts)
  consider "peekKind ts = tokNot" | "peekKind ts = tokLParen" | "peekKind ts \<notin> {tokNot, tokLParen}" by blast
  then show ?case
  proof cases
    case 1
    then obtain t ts' where t: "ts = t # ts'" "tk_kind t = tokNot" using peekKind_neq_EOF by blast
    from 10(3) 1 obtain inner where a: "parseUnary pf ps n (tl ts) = Inr (inner, rest)" "fn = (\<lambda>f. \<not> inner f)"
      by (auto split: sum.splits prod.splits)
    from 10(1) [OF 1 a(1)] obtain us e where b: "tl ts = us @ rest" "gUnary pf ps us e" "inner = sem pf e" by blast
    then show ?thesis using t a(2) GNot [OF t(2) b(2)] by (intro exI [of _ "t # us"] exI [of _ "PNot e"]) auto
  next
    case 2
    then obtain t ts' where t: "ts = t # ts'" "tk_kind t = tokLParen" using peekKind_neq_EOF by blast
    from 10(3) 2 obtain ts1 where a: "parseOr pf ps n (tl ts) = Inr (fn, ts1)" "peekKind ts1 = tokRParen" "rest = tl ts1"
      by (auto split: sum.splits prod.splits if_splits)
    obtain r where r: "ts1 = r # rest" "tk_kind r = tokRParen" using peekKind_neq_EOF [OF a(2)] a(3) by auto
    from 10(2) [OF 2 a(1)] obtain us e where b: "tl ts = us @ ts1" "gOr pf ps us e" "fn = sem pf e" by blast
    then show ?thesis using t r GParen [OF t(2) b(2) r(2)] by (intro exI [of _ "t # us @ [r]"] exI [of _ e]) simp
  next
    case 3
    then have "parseComparison pf ps ts = Inr (fn, rest)" using 10(3) by (auto split: tokKind.splits)
    then show ?thesis unfolding parseComparison_iff using GCmp by fastforce
  qed
qed simp_all

section \<open>The grammar is accepted by the parser\<close>

definition notAnd :: "token list \<Rightarrow> bool" where
  "notAnd ts \<longleftrightarrow> peekKind ts \<noteq> tokAnd"

lemma sem_fun: "sem pf (PAnd d e) = (\<lambda>f. sem pf d f \<and> sem pf e f)" "sem pf (POr d e) = (\<lambda>f. sem pf d f \<or> sem pf e f)"
  by auto

lemma parse_complete:
  "gUnary pf ps ts e \<Longrightarrow> \<forall>rest n. 3 * length (ts @ rest) + 1 \<le> n \<longrightarrow> parseUnary pf ps n (ts @ rest) = Inr (sem pf e, rest)"
  "gAnd pf ps ts e \<Longrightarrow> \<forall>rest n. 3 * length (ts @ rest) + 2 \<le> n \<longrightarrow>
     (\<exists>m. 3 * length rest + 1 \<le> m \<and> parseAnd pf ps n (ts @ rest) = andLoop pf ps m (sem pf e) rest)"
  "gOr pf ps ts e \<Longrightarrow> \<forall>rest n. 3 * length (ts @ rest) + 3 \<le> n \<and> notAnd rest \<longrightarrow>
     (\<exists>m. 3 * length rest + 1 \<le> m \<and> parseOr pf ps n (ts @ rest) = orLoop pf ps m (sem pf e) rest)"
proof (induction rule: gUnary_gAnd_gOr.inducts)
  case (GCmp a x t b y)
  have "tk_kind a \<notin> {tokNot, tokLParen}" using operandOf_not_EOF [OF GCmp(1)] by simp
  then have "parseUnary pf ps (Suc n) ([a, t, b] @ rest) = parseComparison pf ps ([a, t, b] @ rest)" for n rest
    by (auto split: tokKind.splits)
  moreover have "parseComparison pf ps ([a, t, b] @ rest) = Inr (sem pf (Cmp x (tk_text t) y), rest)" for rest
    unfolding parseComparison_iff using GCmp by fastforce
  ultimately show ?case by (metis Suc_eq_plus1 Suc_le_D)
next
  case (GNot t ts e)
  show ?case
  proof (intro allI impI)
    fix rest n assume n: "3 * length ((t # ts) @ rest) + 1 \<le> n"
    then obtain k where k: "n = Suc k" "3 * length (ts @ rest) + 1 \<le> k" by (cases n) auto
    show "parseUnary pf ps n ((t # ts) @ rest) = Inr (sem pf (PNot e), rest)"
      using GNot k by (auto simp del: length_append)
  qed
next
  case (GParen l ts e r)
  show ?case
  proof (intro allI impI)
    fix rest n assume n: "3 * length ((l # ts @ [r]) @ rest) + 1 \<le> n"
    then obtain k where k: "n = Suc k" "3 * length (ts @ r # rest) + 3 \<le> k" by (cases n) auto
    have "notAnd (r # rest)" using GParen.hyps(2) by (simp add: notAnd_def)
    then obtain m where m: "3 * length (r # rest) + 1 \<le> m" "parseOr pf ps k (ts @ r # rest) = orLoop pf ps m (sem pf e) (r # rest)"
      using GParen.IH(2) k(2) by blast
    then obtain j where "m = Suc j" by (cases m) auto
    then show "parseUnary pf ps n ((l # ts @ [r]) @ rest) = Inr (sem pf e, rest)"
      using GParen.hyps k(1) m(2) by simp
  qed
next
  case (GAnd1 ts e)
  show ?case
  proof (intro allI impI)
    fix rest n assume n: "3 * length (ts @ rest) + 2 \<le> n"
    then obtain k where k: "n = Suc k" "3 * length (ts @ rest) + 1 \<le> k" by (cases n) auto
    then have "parseAnd pf ps n (ts @ rest) = andLoop pf ps k (sem pf e) rest" using GAnd1.IH(2) by simp
    then show "\<exists>m. 3 * length rest + 1 \<le> m \<and> parseAnd pf ps n (ts @ rest) = andLoop pf ps m (sem pf e) rest"
      using k(2) by (intro exI [of _ k]) simp
  qed
next
  case (GAnd2 ts d t us e)
  show ?case
  proof (intro allI impI)
    fix rest n assume n: "3 * length ((ts @ t # us) @ rest) + 2 \<le> n"
    then have "3 * length (ts @ t # us @ rest) + 2 \<le> n" by simp
    then obtain m where m: "3 * length (t # us @ rest) + 1 \<le> m"
      "parseAnd pf ps n (ts @ t # us @ rest) = andLoop pf ps m (sem pf d) (t # us @ rest)" using GAnd2.IH(2) by blast
    obtain k where k: "m = Suc k" "3 * length (us @ rest) + 1 \<le> k" using m(1) by (cases m) auto
    have "andLoop pf ps m (sem pf d) (t # us @ rest) = andLoop pf ps k (sem pf (PAnd d e)) rest"
      using GAnd2.hyps GAnd2.IH(4) k by (simp add: sem_fun)
    then show "\<exists>m. 3 * length rest + 1 \<le> m
       \<and> parseAnd pf ps n ((ts @ t # us) @ rest) = andLoop pf ps m (sem pf (PAnd d e)) rest"
      using k(2) m(2) by (intro exI [of _ k]) simp
  qed
next
  case (GOr1 ts e)
  show ?case
  proof (intro allI impI)
    fix rest n assume n: "3 * length (ts @ rest) + 3 \<le> n \<and> notAnd rest"
    then obtain k where k: "n = Suc k" "3 * length (ts @ rest) + 2 \<le> k" by (cases n) auto
    then obtain m where m: "3 * length rest + 1 \<le> m" "parseAnd pf ps k (ts @ rest) = andLoop pf ps m (sem pf e) rest"
      using GOr1.IH(2) by blast
    then have "andLoop pf ps m (sem pf e) rest = Inr (sem pf e, rest)" using n by (cases m) (auto simp: notAnd_def)
    then have "parseOr pf ps n (ts @ rest) = orLoop pf ps k (sem pf e) rest" using m(2) k(1) by simp
    then show "\<exists>m. 3 * length rest + 1 \<le> m \<and> parseOr pf ps n (ts @ rest) = orLoop pf ps m (sem pf e) rest"
      using k(2) by (intro exI [of _ k]) simp
  qed
next
  case (GOr2 ts d t us e)
  show ?case
  proof (intro allI impI)
    fix rest n assume n: "3 * length ((ts @ t # us) @ rest) + 3 \<le> n \<and> notAnd rest"
    then have "3 * length (ts @ t # us @ rest) + 3 \<le> n \<and> notAnd (t # us @ rest)" using GOr2.hyps by (simp add: notAnd_def)
    then obtain m where m: "3 * length (t # us @ rest) + 1 \<le> m"
      "parseOr pf ps n (ts @ t # us @ rest) = orLoop pf ps m (sem pf d) (t # us @ rest)" using GOr2.IH(2) by blast
    obtain k where k: "m = Suc k" "3 * length (us @ rest) + 2 \<le> k" using m(1) by (cases m) auto
    obtain j where j: "3 * length rest + 1 \<le> j" "parseAnd pf ps k (us @ rest) = andLoop pf ps j (sem pf e) rest"
      using GOr2.IH(4) k(2) by blast
    then have "andLoop pf ps j (sem pf e) rest = Inr (sem pf e, rest)" using n by (cases j) (auto simp: notAnd_def)
    then have "orLoop pf ps m (sem pf d) (t # us @ rest) = orLoop pf ps k (sem pf (POr d e)) rest"
      using GOr2.hyps k(1) j(2) by (simp add: sem_fun)
    then show "\<exists>m. 3 * length rest + 1 \<le> m
       \<and> parseOr pf ps n ((ts @ t # us) @ rest) = orLoop pf ps m (sem pf (POr d e)) rest"
      using k(2) m(2) by (intro exI [of _ k]) simp
  qed
qed

lemma parse_fuel:
  "3 * length ts + 3 \<le> n \<Longrightarrow> parseOr pf ps n ts \<noteq> Inl OutOfFuel"
  "3 * length ts + 2 \<le> n \<Longrightarrow> parseAnd pf ps n ts \<noteq> Inl OutOfFuel"
  "3 * length ts + 1 \<le> n \<Longrightarrow> parseUnary pf ps n ts \<noteq> Inl OutOfFuel"
  "3 * length ts + 1 \<le> n \<Longrightarrow> orLoop pf ps n left ts \<noteq> Inl OutOfFuel"
  "3 * length ts + 1 \<le> n \<Longrightarrow> andLoop pf ps n left ts \<noteq> Inl OutOfFuel"
proof (induction pf ps n ts and pf ps n ts and pf ps n ts and pf ps n left ts and pf ps n left ts
    rule: parseOr_parseAnd_parseUnary_orLoop_andLoop.induct)
  case (2 pf ps n ts)
  show ?case
  proof (cases "parseAnd pf ps n ts")
    case (Inr x)
    obtain l r where x: "x = (l, r)" by (cases x)
    obtain us where "ts = us @ r" using parse_sound(2) Inr x by blast
    then show ?thesis using 2 Inr x by simp
  qed (use 2 in auto)
next
  case (4 pf ps n left ts)
  show ?case
  proof (cases "peekKind ts = tokOr")
    case True
    then obtain t ts' where t: "ts = t # ts'" using peekKind_neq_EOF by blast
    show ?thesis
    proof (cases "parseAnd pf ps n (tl ts)")
      case (Inr x)
      obtain l r where x: "x = (l, r)" by (cases x)
      obtain us where "tl ts = us @ r" using parse_sound(2) Inr x by blast
      then have "length r \<le> length ts'" using t by simp
      then show ?thesis using 4 Inr x t True by simp
    qed (use 4 True t in auto)
  qed simp
next
  case (6 pf ps n ts)
  show ?case
  proof (cases "parseUnary pf ps n ts")
    case (Inr x)
    obtain l r where x: "x = (l, r)" by (cases x)
    obtain us where "ts = us @ r" using parse_sound(3) Inr x by blast
    then show ?thesis using 6 Inr x by simp
  qed (use 6 in auto)
next
  case (8 pf ps n left ts)
  show ?case
  proof (cases "peekKind ts = tokAnd")
    case True
    then obtain t ts' where t: "ts = t # ts'" using peekKind_neq_EOF by blast
    show ?thesis
    proof (cases "parseUnary pf ps n (tl ts)")
      case (Inr x)
      obtain l r where x: "x = (l, r)" by (cases x)
      obtain us where "tl ts = us @ r" using parse_sound(3) Inr x by blast
      then have "length r \<le> length ts'" using t by simp
      then show ?thesis using 8 Inr x t True by simp
    qed (use 8 True t in auto)
  qed simp
next
  case (10 pf ps n ts)
  have "parseComparison pf ps ts \<noteq> Inl OutOfFuel"
    by (auto simp: parseComparison_def parseOperand_def split: tokKind.splits option.splits sum.splits)
  moreover have "3 * length (tl ts) + 3 \<le> n" if "peekKind ts \<in> {tokNot, tokLParen}"
    using that 10(3) peekKind_neq_EOF [of ts] by auto
  ultimately show ?case using 10 by (auto split: tokKind.splits sum.splits)
qed simp_all

section \<open>The main result\<close>


lemma ex_tokens:
  "tokenize ''x > 42 AND NOT (a = %0)'' =
     Inr [tok tokIdent ''x'', tok tokOp ''>'', tok tokNumber ''42'', tok tokAnd ''AND'', tok tokNot ''NOT'',
          tok tokLParen ''('', tok tokIdent ''a'', tok tokOp ''='', tok tokParam ''0'', tok tokRParen '')'']"
  by code_simp

definition exFloat :: "string \<Rightarrow> float64 option" where
  "exFloat s = (if s = ''42'' then Some (Finite 42) else None)"

definition exPred :: pred where
  "exPred = PAnd (Cmp (Field ''x'') ''>'' (Const (VNum (Finite 42)))) (PNot (Cmp (Field ''a'') ''='' (Const (VParam ''b''))))"

lemma ex_derivation:
  "gOr exFloat [''b'']
     [tok tokIdent ''x'', tok tokOp ''>'', tok tokNumber ''42'', tok tokAnd ''AND'', tok tokNot ''NOT'',
      tok tokLParen ''('', tok tokIdent ''a'', tok tokOp ''='', tok tokParam ''0'', tok tokRParen '')''] exPred"
proof -
  have o: "operandOf exFloat [''b''] (tok tokIdent z) = Some (Field z)" "operandOf exFloat [''b''] (tok tokNumber ''42'') = Some (Const (VNum (Finite 42)))"
    "operandOf exFloat [''b''] (tok tokParam ''0'') = Some (Const (VParam ''b''))" for z
    by (simp_all add: operandOf_def exFloat_def tok_def Atoi_def digitVal_def)
  have k: "tk_kind (tok x y) = x" "tk_text (tok x y) = y" for x y by (simp_all add: tok_def)
  have a: "gUnary exFloat [''b''] [tok tokIdent ''x'', tok tokOp ''>'', tok tokNumber ''42''] (Cmp (Field ''x'') ''>'' (Const (VNum (Finite 42))))"
    using GCmp [OF o(1) k(1) o(2)] by (simp add: k)
  have b: "gUnary exFloat [''b''] [tok tokIdent ''a'', tok tokOp ''='', tok tokParam ''0''] (Cmp (Field ''a'') ''='' (Const (VParam ''b'')))"
    using GCmp [OF o(1) k(1) o(3)] by (simp add: k)
  from GOr1 [OF GAnd2 [OF GAnd1 [OF a] k(1) GNot [OF k(1) GParen [OF k(1) GOr1 [OF GAnd1 [OF b]] k(1)]]]]
  show ?thesis unfolding exPred_def by (simp only: append.simps)
qed


text \<open>An absent field fails a comparison, and so makes its negation hold.\<close>

lemma absent_field: "f x = None \<Longrightarrow> \<not> sem pf (Cmp (Field x) opr b) f" "f x = None \<Longrightarrow> sem pf (PNot (Cmp (Field x) opr b)) f"
  by simp_all

end
