(* ===== verification/Safety_E2e.thy ===== *)
theory Safety_E2e
  imports Dds_Core
begin

text \<open>
  End-to-end protection (\<^verbatim>\<open>src/safety/e2e.go\<close>, \<^verbatim>\<open>metrics.go\<close>) and the deterministic queue
  (\<^verbatim>\<open>queue.go\<close>): the frame with its CRC-16, the checks a subscriber makes on every sample, the
  counters it keeps, and the bounded queue in front of a publisher. The texts of error messages are
  not modelled. The clock is an argument.
\<close>

unbundle bit_operations_syntax

section \<open>Definitions\<close>

subsection \<open>The checksum\<close>

definition crcPoly :: uint16 where
  "crcPoly = 0x1021"

definition crcBit :: "uint16 \<Rightarrow> uint16" where
  "crcBit crc = (if crc AND 0x8000 \<noteq> 0 then push_bit 1 crc XOR crcPoly else push_bit 1 crc)"

definition crcByte :: "byte \<Rightarrow> uint16 \<Rightarrow> uint16" where
  "crcByte b crc = (crcBit ^^ 8) (crc XOR push_bit 8 (ucast b))"

definition crc16 :: "bytes \<Rightarrow> uint16" where
  "crc16 data = fold crcByte data 0xFFFF"

subsection \<open>Frames\<close>

record E2EConfig =
  DataID :: uint16
  SourceID :: uint16
  MaxAge :: duration
  CfgTopic :: topic

definition headerSize :: nat where
  "headerSize = 18"

definition frameHeader :: "E2EConfig \<Rightarrow> uint32 \<Rightarrow> gotime \<Rightarrow> bytes" where
  "frameHeader cfg counter now =
     PutUint16 (DataID cfg) @ PutUint16 (SourceID cfg) @ PutUint32 counter @ PutUint64 (word_of_int now)"

definition makeFrame :: "E2EConfig \<Rightarrow> uint32 \<Rightarrow> gotime \<Rightarrow> bytes \<Rightarrow> bytes" where
  "makeFrame cfg counter now payload =
     frameHeader cfg counter now @ PutUint16 (crc16 (frameHeader cfg counter now @ payload)) @ payload"

text \<open>Counter, timestamp, and the payload if the checksum is right.\<close>

definition parseFrame :: "bytes \<Rightarrow> uint32 \<times> gotime \<times> bytes option" where
  "parseFrame data =
     (let counter = Uint32 (take 4 (drop 4 data));
          ts = sint (Uint64 (take 8 (drop 8 data)) :: int64);
          stored = Uint16 (take 2 (drop 16 data));
          payload = drop 18 data
      in (counter, ts, if crc16 (take 16 data @ payload) \<noteq> stored then None else Some payload))"

subsection \<open>Counters and events\<close>

datatype E2EErrorKind = ErrCRCMismatch | ErrSequenceGap | ErrStaleSample | ErrHeaderTooShort

record E2EError =
  err_kind :: E2EErrorKind
  err_counter :: uint32

datatype SafetyEventKind = SafetyEventCRCFailure | SafetyEventSequenceGap | SafetyEventStaleSample
  | SafetyEventHeaderTooShort | SafetyEventSchemaViolation

record SafetyEvent =
  ev_kind :: SafetyEventKind
  ev_topic :: topic
  ev_counter :: uint32

record Snapshot =
  sn_topic :: topic
  CRCFailures :: uint64
  SequenceGaps :: uint64
  StaleSamples :: uint64
  HeaderTooShort :: uint64
  SchemaViolations :: uint64
  ValidSamples :: uint64

definition newMetrics :: "topic \<Rightarrow> Snapshot" where
  "newMetrics t = \<lparr>sn_topic = t, CRCFailures = 0, SequenceGaps = 0, StaleSamples = 0, HeaderTooShort = 0,
     SchemaViolations = 0, ValidSamples = 0\<rparr>"

subsection \<open>Publisher and subscriber\<close>

record E2EPublisher =
  pub_cfg :: E2EConfig
  pub_counter :: uint32

definition NewE2EPublisher :: "E2EConfig \<Rightarrow> E2EPublisher" where
  "NewE2EPublisher cfg = \<lparr>pub_cfg = cfg, pub_counter = 0\<rparr>"

text \<open>The frame handed to the wrapped publisher, and the new state.\<close>

definition E2EWrite :: "gotime \<Rightarrow> bytes \<Rightarrow> E2EPublisher \<Rightarrow> bytes \<times> E2EPublisher" where
  "E2EWrite now payload p =
     (let counter = pub_counter p + 1
      in (makeFrame (pub_cfg p) counter now payload, p\<lparr>pub_counter := counter\<rparr>))"

record E2ESubscriber =
  sub_cfg :: E2EConfig
  lastCounter :: uint32
  hasFirst :: bool
  e_ch :: "Sample chan"
  errCh :: "E2EError chan"
  safetyEvCh :: "SafetyEvent chan"
  e_metrics :: Snapshot

definition NewE2ESubscriber :: "E2EConfig \<Rightarrow> E2ESubscriber" where
  "NewE2ESubscriber cfg =
     \<lparr>sub_cfg = cfg, lastCounter = 0, hasFirst = False, e_ch = makeChan 64, errCh = makeChan 32,
      safetyEvCh = makeChan 64, e_metrics = newMetrics (CfgTopic cfg)\<rparr>"

text \<open>A send that takes the default when the channel is full.\<close>

definition offer :: "'a \<Rightarrow> 'a chan \<Rightarrow> 'a chan" where
  "offer x c = (case trySend x c of Some c' \<Rightarrow> c' | None \<Rightarrow> c)"

definition emitError :: "E2EError \<Rightarrow> E2ESubscriber \<Rightarrow> E2ESubscriber" where
  "emitError e s = s\<lparr>errCh := offer e (errCh s)\<rparr>"

definition emitEvent :: "SafetyEvent \<Rightarrow> E2ESubscriber \<Rightarrow> E2ESubscriber" where
  "emitEvent e s = s\<lparr>safetyEvCh := offer e (safetyEvCh s)\<rparr>"

definition violation :: "E2EErrorKind \<Rightarrow> SafetyEventKind \<Rightarrow> topic \<Rightarrow> uint32 \<Rightarrow> (Snapshot \<Rightarrow> Snapshot) \<Rightarrow> E2ESubscriber \<Rightarrow> E2ESubscriber" where
  "violation ek sk t c cnt s =
     emitEvent \<lparr>ev_kind = sk, ev_topic = t, ev_counter = c\<rparr>
       (emitError \<lparr>err_kind = ek, err_counter = c\<rparr> (s\<lparr>e_metrics := cnt (e_metrics s)\<rparr>))"

definition processSample :: "gotime \<Rightarrow> Sample \<Rightarrow> E2ESubscriber \<Rightarrow> E2ESubscriber" where
  "processSample now raw s =
     (if length (Payload raw) < headerSize then
        violation ErrHeaderTooShort SafetyEventHeaderTooShort (Topic raw) 0 (\<lambda>m. m\<lparr>HeaderTooShort := HeaderTooShort m + 1\<rparr>) s
      else
        (case parseFrame (Payload raw) of
           (counter, ts, None) \<Rightarrow>
             violation ErrCRCMismatch SafetyEventCRCFailure (Topic raw) counter (\<lambda>m. m\<lparr>CRCFailures := CRCFailures m + 1\<rparr>) s
         | (counter, ts, Some payload) \<Rightarrow>
             if MaxAge (sub_cfg s) > 0 \<and> timeSub now ts > MaxAge (sub_cfg s) then
               violation ErrStaleSample SafetyEventStaleSample (Topic raw) counter (\<lambda>m. m\<lparr>StaleSamples := StaleSamples m + 1\<rparr>) s
             else
               let s1 = (if hasFirst s \<and> counter \<noteq> lastCounter s + 1
                         then violation ErrSequenceGap SafetyEventSequenceGap (Topic raw) counter
                                (\<lambda>m. m\<lparr>SequenceGaps := SequenceGaps m + 1\<rparr>) s
                         else s);
                   s2 = s1\<lparr>hasFirst := True, lastCounter := counter,
                           e_metrics := (e_metrics s1)\<lparr>ValidSamples := ValidSamples (e_metrics s1) + 1\<rparr>\<rparr>
               in s2\<lparr>e_ch := offer \<lparr>Topic = Topic raw, Payload = payload, Timestamp = Timestamp raw, SampleSeq = 0,
                                    WriterGUID = replicate 16 0\<rparr> (e_ch s2)\<rparr>))"

text \<open>The pump: every sample the wrapped subscriber delivers, with the time it is processed.\<close>

definition pumpAll :: "(gotime \<times> Sample) list \<Rightarrow> E2ESubscriber \<Rightarrow> E2ESubscriber" where
  "pumpAll = fold (\<lambda>(now, raw). processSample now raw)"

subsection \<open>The deterministic queue\<close>

text \<open>What a call of the publisher's \<^verbatim>\<open>Write\<close> comes to.\<close>

datatype 'e write_outcome = WroteOk | WriteErr 'e | Panicked

datatype 'e queue_error = PublisherErr 'e | PublisherPanic

record 'e DeterministicQueue =
  q_ch :: "bytes chan"
  q_errors :: "'e queue_error chan"

definition NewDeterministicQueue :: "int \<Rightarrow> 'e DeterministicQueue" where
  "NewDeterministicQueue depth =
     \<lparr>q_ch = makeChan (nat (if depth \<le> 0 then 64 else depth)), q_errors = makeChan 32\<rparr>"

text \<open>\<open>None\<close> is \<^verbatim>\<open>ErrQueueFull\<close>.\<close>

definition Enqueue :: "bytes \<Rightarrow> 'e DeterministicQueue \<Rightarrow> 'e DeterministicQueue option" where
  "Enqueue payload q = map_option (\<lambda>c. q\<lparr>q_ch := c\<rparr>) (trySend payload (q_ch q))"

definition safeWrite :: "'e write_outcome \<Rightarrow> 'e DeterministicQueue \<Rightarrow> 'e DeterministicQueue" where
  "safeWrite r q =
     (case r of
        WroteOk \<Rightarrow> q
      | WriteErr e \<Rightarrow> q\<lparr>q_errors := offer (PublisherErr e) (q_errors q)\<rparr>
      | Panicked \<Rightarrow> q\<lparr>q_errors := offer PublisherPanic (q_errors q)\<rparr>)"

text \<open>One turn of the drain loop: the payload written, if there is one.\<close>

definition drainStep :: "(bytes \<Rightarrow> 'e write_outcome) \<Rightarrow> 'e DeterministicQueue \<Rightarrow> (bytes \<times> 'e DeterministicQueue) option" where
  "drainStep pub q =
     (case tryRecv (q_ch q) of
        (Received payload, c) \<Rightarrow> Some (payload, safeWrite (pub payload) (q\<lparr>q_ch := c\<rparr>))
      | _ \<Rightarrow> None)"

section \<open>The checksum tells different inputs apart\<close>

lemma crc_top: "(crc :: uint16) AND 0x8000 \<noteq> 0 \<longleftrightarrow> bit crc 15"
  using and_exp_eq_0_iff_not_bit [of crc 15] by simp

lemma crcBit_eq: "crcBit crc = push_bit 1 crc XOR (if bit crc 15 then crcPoly else 0)"
  unfolding crcBit_def crc_top by (simp del: push_bit_Suc)

lemma bit_crcBit: "n < 16 \<Longrightarrow> bit (crcBit c) n \<longleftrightarrow> (0 < n \<and> bit c (n - 1)) \<noteq> (bit c 15 \<and> bit crcPoly n)"
  unfolding crcBit_eq bit_xor_iff bit_push_bit_iff by auto

lemma crcBit_xor: "crcBit (a XOR b) = crcBit a XOR crcBit b"
  by (rule bit_word_eqI) (auto simp: bit_crcBit bit_xor_iff)

lemma crcBit_inj: "crcBit a = crcBit b \<longleftrightarrow> a = b"
proof
  assume e: "crcBit a = crcBit b"
  have p: "bit crcPoly 0" by (simp add: crcPoly_def)
  have top: "bit a 15 = bit b 15" using bit_crcBit [of 0 a] bit_crcBit [of 0 b] e p by simp
  show "a = b"
  proof (rule bit_word_eqI)
    fix n assume n: "n < LENGTH(16)"
    show "bit a n = bit b n"
    proof (cases "n = 15")
      case False
      then show ?thesis using bit_crcBit [of "Suc n" a] bit_crcBit [of "Suc n" b] e top n by auto
    qed (simp add: top)
  qed
qed simp

lemma crcBits_inj: "(crcBit ^^ k) a = (crcBit ^^ k) b \<longleftrightarrow> a = b"
  by (induction k) (simp_all add: crcBit_inj)

lemma crcBits_xor: "(crcBit ^^ k) (a XOR b) = (crcBit ^^ k) a XOR (crcBit ^^ k) b"
  by (induction k) (simp_all add: crcBit_xor)

text \<open>Eight steps on a value in the low byte only move it up.\<close>

lemma crcBits_low: "(crcBit ^^ 8) (ucast (b :: byte)) = push_bit 8 (ucast b)"
proof -
  have "(crcBit ^^ k) (ucast b) = push_bit k (ucast b)" if "k \<le> 8" for k
    using that
  proof (induction k)
    case (Suc k)
    have "\<not> bit (push_bit k (ucast b) :: uint16) 15" using Suc(2) bit_imp_le_length [of b "15 - k"] by (auto simp: bit_push_bit_iff bit_ucast_iff)
    then show ?case using Suc by (simp add: crcBit_eq del: push_bit_Suc) 
  qed simp
  then show ?thesis by blast
qed

lemma xor_cancel: "a XOR c = b XOR c \<longleftrightarrow> a = b" for a b c :: uint16
  by (auto simp: bit_eq_iff bit_xor_iff)

lemma crcByte_inj: "crcByte b c = crcByte b d \<longleftrightarrow> c = d"
  by (simp add: crcByte_def crcBits_inj xor_cancel)

lemma fold_crcByte_inj: "fold crcByte bs c = fold crcByte bs d \<longleftrightarrow> c = d"
  by (induction bs arbitrary: c d) (simp_all add: crcByte_inj)

lemma crcByte_two: "crcByte y (crcByte x c) = (crcBit ^^ 8) ((crcBit ^^ 8) ((c XOR push_bit 8 (ucast x)) XOR ucast y))"
  unfolding crcByte_def crcBits_low [symmetric] by (simp only: crcBits_xor)

lemma two_bytes_inj:
  "(c XOR push_bit 8 (ucast (x :: byte))) XOR ucast (y :: byte) = (c XOR push_bit 8 (ucast x')) XOR (ucast y' :: uint16)
     \<longleftrightarrow> x = x' \<and> y = y'"
proof
  assume e: "(c XOR push_bit 8 (ucast x)) XOR ucast y = (c XOR push_bit 8 (ucast x')) XOR (ucast y' :: uint16)"
  have b: "bit ((c XOR push_bit 8 (ucast u)) XOR ucast v) n
      = (bit c n \<noteq> (if 8 \<le> n then bit u (n - 8) else bit v n))" if "n < 16" for u v :: byte and n
    using that bit_imp_le_length [of v n] by (auto simp: bit_xor_iff bit_push_bit_iff bit_ucast_iff)
  have "bit x n = bit x' n" if "n < 8" for n
    using b [of "n + 8" x y] b [of "n + 8" x' y'] that e by auto
  moreover have "bit y n = bit y' n" if "n < 8" for n
    using b [of n x y] b [of n x' y'] that e by auto
  ultimately show "x = x' \<and> y = y'" by (auto intro: bit_word_eqI)
qed simp

lemma window_inj:
  assumes "length ws = length vs" "length ws \<le> 2"
  shows "fold crcByte ws c = fold crcByte vs c \<longleftrightarrow> ws = vs"
proof -
  have one: "crcByte x c = crcByte x' c \<longleftrightarrow> x = x'" for x x'
    using two_bytes_inj [of c x 0 x' 0] by (simp add: crcByte_def crcBits_inj)
  consider "ws = []" "vs = []" | x x' where "ws = [x]" "vs = [x']" | x y x' y' where "ws = [x, y]" "vs = [x', y']"
    using assms by (cases ws; cases vs; cases "tl ws"; cases "tl vs") auto
  then show ?thesis
    by cases (simp_all add: one crcByte_two crcBits_inj two_bytes_inj)
qed

lemma crc16_window:
  assumes "length ws = length vs" "length ws \<le> 2"
  shows "crc16 (as @ ws @ bs) = crc16 (as @ vs @ bs) \<longleftrightarrow> ws = vs"
  by (simp add: crc16_def fold_crcByte_inj window_inj [OF assms])

text \<open>The check value of CRC-16/CCITT-FALSE.\<close>

lemma crc16_check: "crc16 [0x31, 0x32, 0x33, 0x34, 0x35, 0x36, 0x37, 0x38, 0x39] = 0x29B1"
  by code_simp

section \<open>Frames\<close>

lemma length_frameHeader [simp]: "length (frameHeader cfg c now) = 16"
  by (simp add: frameHeader_def)

lemma parse_makeFrame:
  assumes "- (2 ^ 63) \<le> now" "now < 2 ^ 63"
  shows "parseFrame (makeFrame cfg c now payload) = (c, now, Some payload)"
proof -
  have t: "sint (word_of_int now :: int64) = now" using assms by (simp add: sint_sbintrunc' signed_take_bit_int_eq_self)
  have "take 16 (makeFrame cfg c now payload) = frameHeader cfg c now" "drop 18 (makeFrame cfg c now payload) = payload"
    "take 2 (drop 16 (makeFrame cfg c now payload)) = PutUint16 (crc16 (frameHeader cfg c now @ payload))"
    by (simp_all add: makeFrame_def)
  moreover have "take 4 (drop 4 (makeFrame cfg c now payload)) = PutUint32 c"
    "take 8 (drop 8 (makeFrame cfg c now payload)) = PutUint64 (word_of_int now)"
    by (simp_all add: makeFrame_def frameHeader_def)
  ultimately show ?thesis by (simp add: parseFrame_def Let_def t)
qed

definition corrupt :: "nat \<Rightarrow> bytes \<Rightarrow> bytes \<Rightarrow> bytes" where
  "corrupt i ws data = take i data @ ws @ drop (i + length ws) data"

lemma corrupt_split:
  assumes "length ws \<le> 2" "i + length ws \<le> length (as @ bs)"
  shows "i + length ws \<le> length as \<Longrightarrow> corrupt i ws (as @ bs) = corrupt i ws as @ bs"
    and "length as \<le> i \<Longrightarrow> corrupt i ws (as @ bs) = as @ corrupt (i - length as) ws bs"
  using assms by (auto simp: corrupt_def)

lemma corrupt_window: "i + length ws \<le> length data \<Longrightarrow> take (length ws) (drop i (corrupt i ws data)) = ws"
  by (simp add: corrupt_def)

lemma length_corrupt [simp]: "i + length ws \<le> length data \<Longrightarrow> length (corrupt i ws data) = length data"
  by (simp add: corrupt_def)

lemma Uint16_inj:
  assumes "Uint16 a = Uint16 b" "length a = 2" "length b = 2"
  shows "a = b"
proof -
  obtain x y x' y' where ab: "a = [x, y]" "b = [x', y']" using assms(2,3) by (auto simp: length_Suc_conv numeral_2_eq_2)
  have u: "bit (Uint16 [u, v]) n = (if 8 \<le> n then bit v (n - 8) else bit u n)" if "n < 16" for u v n
    using that bit_imp_le_length [of u n] by (auto simp: Uint16_def bit_or_iff bit_push_bit_iff bit_ucast_iff)
  have "bit x n = bit x' n" if "n < 8" for n using u [of n x y] u [of n x' y'] assms(1) that by (auto simp: ab)
  moreover have "bit y n = bit y' n" if "n < 8" for n using u [of "n + 8" x y] u [of "n + 8" x' y'] assms(1) that by (auto simp: ab)
  ultimately show ?thesis by (auto simp: ab intro: bit_word_eqI)
qed

lemma corrupt_crc:
  assumes "length ws \<le> 2" "i + length ws \<le> length data" "ws \<noteq> take (length ws) (drop i data)"
  shows "crc16 (corrupt i ws data) \<noteq> crc16 data"
proof -
  have d: "data = take i data @ take (length ws) (drop i data) @ drop (i + length ws) data"
    by (metis append_take_drop_id drop_drop add.commute)
  have l: "length ws = length (take (length ws) (drop i data))" using assms(2) by simp
  show ?thesis unfolding corrupt_def using crc16_window [OF l assms(1)] assms(3) d by metis
qed

lemma corrupt_detected:
  assumes "length ws \<le> 2" "i + length ws \<le> length (makeFrame cfg c now payload)"
    and "ws \<noteq> take (length ws) (drop i (makeFrame cfg c now payload))"
    and "i + length ws \<le> 16 \<or> 16 \<le> i \<and> i + length ws \<le> 18 \<or> 18 \<le> i"
  shows "snd (snd (parseFrame (corrupt i ws (makeFrame cfg c now payload)))) = None"
proof -
  define h where "h = frameHeader cfg c now"
  define k where "k = PutUint16 (crc16 (h @ payload))"
  have f: "makeFrame cfg c now payload = h @ k @ payload" by (simp add: makeFrame_def h_def k_def)
  have l: "length h = 16" "length k = 2" by (simp_all add: h_def k_def)
  have p: "snd (snd (parseFrame (h' @ k' @ p'))) = None \<longleftrightarrow> crc16 (h' @ p') \<noteq> Uint16 k'"
    if "length h' = 16" "length k' = 2" for h' k' p' using that by (simp add: parseFrame_def Let_def)
  have k: "Uint16 k = crc16 (h @ payload)" by (simp add: k_def)
  from assms(4) consider "i + length ws \<le> 16" | "16 \<le> i" "i + length ws \<le> 18" | "18 \<le> i" by blast
  then show ?thesis
  proof cases
    case 1
    have "corrupt i ws (h @ k @ payload) = corrupt i ws h @ k @ payload" "length (corrupt i ws h) = 16"
      using corrupt_split(1) [OF assms(1), of i h "k @ payload"] 1 l by (auto simp: corrupt_def)
    moreover have "crc16 (corrupt i ws h @ payload) \<noteq> crc16 (h @ payload)"
      using corrupt_crc [OF assms(1), of i "h @ payload"] corrupt_split(1) [OF assms(1), of i h payload] 1 l assms(3) by (simp add: f)
    ultimately show ?thesis using p l k by (simp add: f)
  next
    case 2
    have "corrupt i ws (h @ k @ payload) = h @ corrupt (i - 16) ws k @ payload" "length (corrupt (i - 16) ws k) = 2"
      using corrupt_split(2) [OF assms(1), of i h "k @ payload"] corrupt_split(1) [OF assms(1), of "i - 16" k payload] 2 l
      by (auto simp: corrupt_def)
    moreover have "corrupt (i - 16) ws k \<noteq> k"
      using corrupt_window [of "i - 16" ws k] assms(3) 2 l by (fastforce simp: f)
    ultimately show ?thesis using p l k Uint16_inj by (metis f)
  next
    case 3
    have "corrupt i ws (h @ k @ payload) = h @ k @ corrupt (i - 18) ws payload"
      using corrupt_split(2) [OF assms(1), of i h "k @ payload"] corrupt_split(2) [OF assms(1), of "i - 16" k payload] 3 l assms(2)
      by (auto simp: f)
    moreover have "crc16 (h @ corrupt (i - 18) ws payload) \<noteq> crc16 (h @ payload)"
      using corrupt_crc [OF assms(1), of "i - 2" "h @ payload"] corrupt_split(2) [OF assms(1), of "i - 2" h payload] 3 l assms(2,3) by (simp add: f)
    ultimately show ?thesis using p l k by (simp add: f)
  qed
qed

text \<open>
  C13: the checksum catches every corruption of up to two adjacent bytes of a frame that does not
  straddle the edge of the checksum itself. Whatever the subscriber has seen before, it then
  delivers nothing, keeps its sequence state, counts one more CRC failure and changes no other
  counter.
\<close>

theorem e2e_detects_corruption:
  assumes "length ws \<le> 2" and "i + length ws \<le> length (makeFrame cfg c t payload)"
    and "ws \<noteq> take (length ws) (drop i (makeFrame cfg c t payload))"
    and "i + length ws \<le> 16 \<or> 16 \<le> i \<and> i + length ws \<le> 18 \<or> 18 \<le> i"
    and "Payload raw = corrupt i ws (makeFrame cfg c t payload)"
  shows "e_ch (processSample now raw s) = e_ch s \<and> lastCounter (processSample now raw s) = lastCounter s
    \<and> hasFirst (processSample now raw s) = hasFirst s
    \<and> e_metrics (processSample now raw s) = (e_metrics s)\<lparr>CRCFailures := CRCFailures (e_metrics s) + 1\<rparr>"
proof -
  have "\<not> length (Payload raw) < headerSize"
    unfolding assms(5) length_corrupt [OF assms(2)] by (simp add: headerSize_def makeFrame_def)
  moreover have "snd (snd (parseFrame (Payload raw))) = None" using corrupt_detected [OF assms(1-4)] by (simp add: assms(5))
  ultimately have "processSample now raw s = violation ErrCRCMismatch SafetyEventCRCFailure (Topic raw)
      (fst (parseFrame (Payload raw))) (\<lambda>m. m\<lparr>CRCFailures := CRCFailures m + 1\<rparr>) s"
    by (cases "parseFrame (Payload raw)") (auto simp: processSample_def)
  then show ?thesis by (simp add: violation_def emitEvent_def emitError_def)
qed

definition exCfg :: E2EConfig where
  "exCfg = \<lparr>DataID = 7, SourceID = 9, MaxAge = 100, CfgTopic = [97]\<rparr>"

theorem e2e_detects_corruption_witness:
  "CRCFailures (e_metrics (processSample 50 \<lparr>Topic = [97], Payload = corrupt 4 [2, 1] (makeFrame exCfg 1 40 [5, 6]), Timestamp = 45,
      SampleSeq = 1, WriterGUID = []\<rparr> (NewE2ESubscriber exCfg))) = 1"
proof -
  let ?f = "makeFrame exCfg 1 40 [5, 6]"
  have w: "[2, 1] \<noteq> take (length [2, 1 :: byte]) (drop 4 ?f)"
    by (simp add: makeFrame_def frameHeader_def put_defs)
  have l: "length [2, 1 :: byte] \<le> 2" "4 + length [2, 1 :: byte] \<le> length ?f" "4 + length [2, 1 :: byte] \<le> 16"
    by (simp_all add: makeFrame_def)
  show ?thesis
    using e2e_detects_corruption [OF l(1,2) w disjI1 [OF l(3)], of "\<lparr>Topic = [97], Payload = corrupt 4 [2, 1] ?f,
      Timestamp = 45, SampleSeq = 1, WriterGUID = []\<rparr>" 50 "NewE2ESubscriber exCfg"]
    by (simp add: NewE2ESubscriber_def newMetrics_def)
qed

section \<open>Streams of frames\<close>

text \<open>A frame as it arrives: its counter, sending time, the time it is processed, and its payload.\<close>

type_synonym arrival = "uint32 \<times> gotime \<times> gotime \<times> bytes"

fun arrived :: "E2EConfig \<Rightarrow> topic \<Rightarrow> arrival \<Rightarrow> gotime \<times> Sample" where
  "arrived cfg t (c, sent, now, payload) =
     (now, \<lparr>Topic = t, Payload = makeFrame cfg c sent payload, Timestamp = sent, SampleSeq = 0, WriterGUID = replicate 16 0\<rparr>)"

fun fresh :: "E2EConfig \<Rightarrow> arrival \<Rightarrow> bool" where
  "fresh cfg (c, sent, now, payload) \<longleftrightarrow>
     - (2 ^ 63) \<le> sent \<and> sent < 2 ^ 63 \<and> (MaxAge cfg \<le> 0 \<or> timeSub now sent \<le> MaxAge cfg)"

fun stripped :: "topic \<Rightarrow> arrival \<Rightarrow> Sample" where
  "stripped t (c, sent, now, payload) =
     \<lparr>Topic = t, Payload = payload, Timestamp = sent, SampleSeq = 0, WriterGUID = replicate 16 0\<rparr>"

text \<open>How many counters are not the successor of the one before, \<open>prev\<close> being the last one seen, if any.\<close>

fun gaps :: "uint32 option \<Rightarrow> uint32 list \<Rightarrow> nat" where
  "gaps prev [] = 0"
| "gaps prev (c # cs) = (if prev \<noteq> None \<and> prev \<noteq> Some (c - 1) then 1 else 0) + gaps (Some c) cs"

lemma process_fresh:
  assumes "fresh (sub_cfg s) (c, sent, now, payload)" "length (chBuf (e_ch s)) < chCap (e_ch s)"
    and "arrived cfg t (c, sent, now, payload) = (now, raw)"
  shows "let s' = processSample now raw s; g = (hasFirst s \<and> c \<noteq> lastCounter s + 1) in
      e_ch s' = (e_ch s)\<lparr>chBuf := chBuf (e_ch s) @ [stripped t (c, sent, now, payload)]\<rparr>
      \<and> sub_cfg s' = sub_cfg s \<and> hasFirst s' \<and> lastCounter s' = c
      \<and> e_metrics s' = (e_metrics s)\<lparr>ValidSamples := ValidSamples (e_metrics s) + 1,
          SequenceGaps := SequenceGaps (e_metrics s) + of_bool g\<rparr>"
proof -
  have raw: "raw = \<lparr>Topic = t, Payload = makeFrame cfg c sent payload, Timestamp = sent, SampleSeq = 0, WriterGUID = replicate 16 0\<rparr>"
    using assms(3) by simp
  have p: "parseFrame (Payload raw) = (c, sent, Some payload)" "\<not> length (Payload raw) < headerSize"
    using assms(1) parse_makeFrame by (auto simp: raw headerSize_def makeFrame_def)
  have st: "\<not> (MaxAge (sub_cfg s) > 0 \<and> timeSub now sent > MaxAge (sub_cfg s))" using assms(1) by auto
  show ?thesis
    unfolding processSample_def using assms(2) p st
    by (simp only: if_not_P [OF st] if_not_P [OF p(2)] p(1) prod.case option.case)
      (simp add: Let_def violation_def emitEvent_def emitError_def offer_def trySend_def raw)
qed



section \<open>The queue\<close>

text \<open>
  The queue is a bounded queue whatever its publisher does: a failing or panicking publisher
  loses its own payload only.
\<close>

interpretation dq: bounded_fifo Enqueue "drainStep pub" "\<lambda>q. chBuf (q_ch q)" "\<lambda>q. chCap (q_ch q)"
  "\<lambda>q. length (chBuf (q_ch q)) \<le> chCap (q_ch q)"
proof unfold_locales
  have w: "q_ch (safeWrite r q) = q_ch q" for r and q :: "'a DeterministicQueue" by (cases r) (simp_all add: safeWrite_def)
  show "\<exists>q'. drainStep pub q = Some (x, q') \<and> chBuf (q_ch q') = xs \<and> chCap (q_ch q') = chCap (q_ch q)
      \<and> length (chBuf (q_ch q')) \<le> chCap (q_ch q')"
    if "length (chBuf (q_ch q)) \<le> chCap (q_ch q)" "chBuf (q_ch q) = x # xs" for q x xs
    using that by (simp add: drainStep_def tryRecv_def w)
qed (auto simp: Enqueue_def trySend_def drainStep_def tryRecv_def)

lemma queue_in_order:
  assumes "runFifo Enqueue (drainStep pub) ops (NewDeterministicQueue depth) = (acc, out, q)"
  shows "acc = out @ chBuf (q_ch q)" "int (length (chBuf (q_ch q))) \<le> (if depth \<le> 0 then 64 else depth)"
  using dq.run_fifo [OF _ assms] by (auto simp: NewDeterministicQueue_def makeChan_def)

end
