(* ===== verification/Security_Plugins.thy ===== *)
theory Security_Plugins
  imports Rtps_State
begin

text \<open>
  The security plug-ins (\<^verbatim>\<open>src/security\<close>): the payload plug-ins (\<^verbatim>\<open>security.go\<close>), the HMAC
  authentication of discovery (\<^verbatim>\<open>discovery.go\<close>), topic access control (\<^verbatim>\<open>access.go\<close>) and the
  replay guard (\<^verbatim>\<open>replay.go\<close>), as the values a participant is configured with.

  The cryptographic primitives are arguments: \<open>mac\<close> is HMAC-SHA-256 of a key and a message, which
  is 32 bytes long, and \<open>aead\<close> an authenticated cipher keyed with the plug-in's key, with a nonce
  of 12 and a tag of 16 bytes, that opens what it sealed. \<open>pathMatch\<close> is \<^verbatim>\<open>path.Match\<close>, \<open>None\<close>
  being its error for a malformed pattern.
\<close>

section \<open>Definitions\<close>

subsection \<open>Payload plug-ins\<close>

definition NullPlugin :: SecurityPlugin where
  "NullPlugin = \<lparr>Seal = Some, Open = Some\<rparr>"

definition hmacSize :: nat where
  "hmacSize = 32"

definition hmacSeal :: "(bytes \<Rightarrow> bytes \<Rightarrow> bytes) \<Rightarrow> bytes \<Rightarrow> bytes \<Rightarrow> bytes option" where
  "hmacSeal mac key plaintext = Some (plaintext @ mac key plaintext)"

definition hmacOpen :: "(bytes \<Rightarrow> bytes \<Rightarrow> bytes) \<Rightarrow> bytes \<Rightarrow> bytes \<Rightarrow> bytes option" where
  "hmacOpen mac key data =
     (if length data < hmacSize then None
      else
        let plaintext = take (length data - hmacSize) data;
            tag = drop (length data - hmacSize) data
        in if tag \<noteq> mac key plaintext then None else Some plaintext)"

definition NewHMACPlugin :: "(bytes \<Rightarrow> bytes \<Rightarrow> bytes) \<Rightarrow> bytes \<Rightarrow> SecurityPlugin" where
  "NewHMACPlugin mac key = \<lparr>Seal = hmacSeal mac key, Open = hmacOpen mac key\<rparr>"

record AEAD =
  aeadSeal :: "bytes \<Rightarrow> bytes \<Rightarrow> bytes"
  aeadOpen :: "bytes \<Rightarrow> bytes \<Rightarrow> bytes option"

definition nonceSize :: nat where
  "nonceSize = 12"

definition aeadOverhead :: nat where
  "aeadOverhead = 16"

text \<open>\<open>nonce\<close> is what the random source gives, \<open>None\<close> if it fails.\<close>

definition aesSeal :: "AEAD \<Rightarrow> bytes option \<Rightarrow> bytes \<Rightarrow> bytes option" where
  "aesSeal aead nonce plaintext =
     (case nonce of None \<Rightarrow> None | Some n \<Rightarrow> Some (n @ aeadSeal aead n plaintext))"

definition aesOpen :: "AEAD \<Rightarrow> bytes \<Rightarrow> bytes option" where
  "aesOpen aead data =
     (if length data < nonceSize + aeadOverhead then None
      else aeadOpen aead (take nonceSize data) (drop nonceSize data))"

definition NewAESGCMPlugin :: "(bytes \<Rightarrow> AEAD) \<Rightarrow> bytes \<Rightarrow> AEAD option" where
  "NewAESGCMPlugin cipher key = (if length key \<noteq> 32 then None else Some (cipher key))"

subsection \<open>Discovery plug-in\<close>

definition asciiOf :: "string \<Rightarrow> bytes" where
  "asciiOf = map of_char"

definition discoveryContext :: bytes where
  "discoveryContext = asciiOf ''go-dds-discovery-v1''"

definition endpointContext :: bytes where
  "endpointContext = asciiOf ''go-dds-endpoint-v1''"

definition signDiscovery :: "(bytes \<Rightarrow> bytes \<Rightarrow> bytes) \<Rightarrow> bytes \<Rightarrow> GuidPrefix \<Rightarrow> bytes" where
  "signDiscovery mac key prefix = mac key (discoveryContext @ prefix)"

definition verifyDiscovery :: "(bytes \<Rightarrow> bytes \<Rightarrow> bytes) \<Rightarrow> bytes \<Rightarrow> GuidPrefix \<Rightarrow> bytes \<Rightarrow> bool" where
  "verifyDiscovery mac key prefix tag \<longleftrightarrow> length tag \<noteq> 0 \<and> signDiscovery mac key prefix = tag"

definition signEndpoint :: "(bytes \<Rightarrow> bytes \<Rightarrow> bytes) \<Rightarrow> bytes \<Rightarrow> GuidPrefix \<Rightarrow> topic \<Rightarrow> bytes" where
  "signEndpoint mac key prefix t = mac key (endpointContext @ prefix @ t)"

definition verifyEndpoint :: "(bytes \<Rightarrow> bytes \<Rightarrow> bytes) \<Rightarrow> bytes \<Rightarrow> GuidPrefix \<Rightarrow> topic \<Rightarrow> bytes \<Rightarrow> bool" where
  "verifyEndpoint mac key prefix t tag \<longleftrightarrow> length tag \<noteq> 0 \<and> signEndpoint mac key prefix t = tag"

definition hmacDiscoveryPlugin :: "(bytes \<Rightarrow> bytes \<Rightarrow> bytes) \<Rightarrow> bytes \<Rightarrow> DiscoveryPlugin" where
  "hmacDiscoveryPlugin mac key = \<lparr>SignDiscovery = signDiscovery mac key, VerifyDiscovery = verifyDiscovery mac key\<rparr>"

definition hmacEndpointPlugin :: "(bytes \<Rightarrow> bytes \<Rightarrow> bytes) \<Rightarrow> bytes \<Rightarrow> EndpointPlugin" where
  "hmacEndpointPlugin mac key = \<lparr>SignEndpoint = signEndpoint mac key, VerifyEndpoint = verifyEndpoint mac key\<rparr>"

subsection \<open>Access control\<close>

type_synonym Permission = "8 word"

definition PermRead :: Permission where
  "PermRead = 1"

definition PermWrite :: Permission where
  "PermWrite = 2"

record Rule =
  Pattern :: topic
  Allow :: Permission

fun policyAllows :: "(topic \<Rightarrow> topic \<Rightarrow> bool option) \<Rightarrow> Rule list \<Rightarrow> topic \<Rightarrow> Permission \<Rightarrow> bool" where
  "policyAllows pathMatch [] t perm = False"
| "policyAllows pathMatch (r # rs) t perm =
     (case pathMatch (Pattern r) t of
        None \<Rightarrow> policyAllows pathMatch rs t perm
      | Some matched \<Rightarrow> if matched then Allow r AND perm \<noteq> 0 else policyAllows pathMatch rs t perm)"

definition NewAccessPolicy :: "(topic \<Rightarrow> topic \<Rightarrow> bool option) \<Rightarrow> Rule list \<Rightarrow> AccessController" where
  "NewAccessPolicy pathMatch rules =
     \<lparr>CanRead = (\<lambda>t. policyAllows pathMatch rules t PermRead),
      CanWrite = (\<lambda>t. policyAllows pathMatch rules t PermWrite)\<rparr>"

subsection \<open>Replay guard\<close>

record ReplayGuard =
  rg_window :: duration
  rg_seen :: "(uint64 \<times> gotime) list"

definition NewReplayGuard :: "duration \<Rightarrow> ReplayGuard" where
  "NewReplayGuard window = \<lparr>rg_window = (if window \<le> 0 then 30 * 10 ^ 9 else window), rg_seen = []\<rparr>"

definition purge :: "gotime \<Rightarrow> ReplayGuard \<Rightarrow> ReplayGuard" where
  "purge now g = g\<lparr>rg_seen := filter (\<lambda>(s, t). \<not> t < now - rg_window g) (rg_seen g)\<rparr>"

text \<open>\<open>False\<close> is \<^verbatim>\<open>ErrReplay\<close>.\<close>

definition Check :: "uint64 \<Rightarrow> gotime \<Rightarrow> ReplayGuard \<Rightarrow> bool \<times> ReplayGuard" where
  "Check seq ts g =
     (let g1 = purge ts g in
      if map_of (rg_seen g1) seq \<noteq> None then (False, g1)
      else (True, g1\<lparr>rg_seen := AList.update seq ts (rg_seen g1)\<rparr>))"

section \<open>Payload plug-ins open what they sealed\<close>

lemma hmacOpen_iff:
  assumes "\<forall>k m. length (mac k m) = hmacSize"
  shows "hmacOpen mac key data = Some plaintext \<longleftrightarrow> data = plaintext @ mac key plaintext"
  using assms append_take_drop_id [of "length data - hmacSize" data]
  by (auto simp: hmacOpen_def Let_def split: if_splits) (metis append_take_drop_id)

lemma hmac_roundtrip:
  "\<forall>k m. length (mac k m) = hmacSize \<Longrightarrow> hmacSeal mac key p = Some w \<Longrightarrow> hmacOpen mac key w = Some p"
  by (simp add: hmacSeal_def hmacOpen_iff)

lemma aes_roundtrip:
  assumes "\<forall>n p. length n = nonceSize \<longrightarrow> aeadOpen aead n (aeadSeal aead n p) = Some p"
    and "\<forall>n p. length (aeadSeal aead n p) = length p + aeadOverhead"
    and "aesSeal aead nonce p = Some w" "\<forall>n. nonce = Some n \<longrightarrow> length n = nonceSize"
  shows "aesOpen aead w = Some p"
  using assms by (auto simp: aesSeal_def aesOpen_def split: option.splits)

text \<open>
  What is authenticated in discovery is unambiguous: for prefixes of twelve bytes the bytes under
  the tag determine whether a participant or an endpoint is meant, its prefix and its topic.
\<close>

lemma mac_inputs_differ:
  assumes "length p = 12" "length q = 12"
  shows "endpointContext @ p @ t = endpointContext @ q @ u \<longleftrightarrow> p = q \<and> t = u"
    and "discoveryContext @ p \<noteq> endpointContext @ q @ t"
  using assms by (auto simp: discoveryContext_def endpointContext_def asciiOf_def)

section \<open>The replay guard\<close>

definition guardAfter :: "(uint64 \<times> gotime) list \<Rightarrow> ReplayGuard \<Rightarrow> ReplayGuard" where
  "guardAfter h g = fold (\<lambda>(s, t) g. snd (Check s t g)) h g"

definition accepted :: "duration \<Rightarrow> (uint64 \<times> gotime) list \<Rightarrow> nat \<Rightarrow> bool" where
  "accepted window h i \<longleftrightarrow> fst (Check (fst (h ! i)) (snd (h ! i)) (guardAfter (take i h) (NewReplayGuard window)))"

text \<open>Call \<open>j\<close> was accepted and no call after it, up to and including \<open>i\<close>, was later by more than the window.\<close>

definition inWindow :: "duration \<Rightarrow> (uint64 \<times> gotime) list \<Rightarrow> nat \<Rightarrow> nat \<Rightarrow> bool" where
  "inWindow window h j i \<longleftrightarrow> accepted window h j
     \<and> list_all (\<lambda>k. snd (h ! k) - window \<le> snd (h ! j)) [Suc j..<i]"

lemma set_update_new: "map_of al k = None \<Longrightarrow> set (AList.update k v al) = insert (k, v) (set al)"
  by (induction al) (auto split: if_splits)

lemma guard_seen:
  assumes "0 < window" "n \<le> length h"
  shows "distinct (map fst (rg_seen (guardAfter (take n h) (NewReplayGuard window))))
    \<and> rg_window (guardAfter (take n h) (NewReplayGuard window)) = window
    \<and> (\<forall>s t. (s, t) \<in> set (rg_seen (guardAfter (take n h) (NewReplayGuard window)))
         \<longleftrightarrow> (\<exists>j<n. inWindow window h j n \<and> h ! j = (s, t)))"
  using assms(2)
proof (induction n)
  case 0
  then show ?case using assms(1) by (simp add: guardAfter_def NewReplayGuard_def)
next
  case (Suc n)
  define g where "g = guardAfter (take n h) (NewReplayGuard window)"
  obtain s0 t0 where h: "h ! n = (s0, t0)" by (cases "h ! n")
  have IH: "distinct (map fst (rg_seen g))" "rg_window g = window"
    "\<And>s t. (s, t) \<in> set (rg_seen g) \<longleftrightarrow> (\<exists>j<n. inWindow window h j n \<and> h ! j = (s, t))"
    using Suc by (simp_all add: g_def)
  have g': "guardAfter (take (Suc n) h) (NewReplayGuard window) = snd (Check s0 t0 g)"
    using Suc.prems by (simp add: guardAfter_def take_Suc_conv_app_nth g_def h)
  have acc: "accepted window h n \<longleftrightarrow> fst (Check s0 t0 g)" by (simp add: accepted_def g_def h)
  define g1 where "g1 = purge t0 g"
  have d1: "distinct (map fst (rg_seen g1))" "rg_window g1 = window"
    using IH(1,2) by (simp_all add: g1_def purge_def distinct_map_filter)
  have step: "inWindow window h j (Suc n) \<longleftrightarrow> inWindow window h j n \<and> t0 - window \<le> snd (h ! j)" if "j < n" for j
    using that by (auto simp: inWindow_def h)
  have s1: "(s, t) \<in> set (rg_seen g1) \<longleftrightarrow> (\<exists>j<n. inWindow window h j (Suc n) \<and> h ! j = (s, t))" for s t
    using IH(2,3) step by (fastforce simp: g1_def purge_def)
  have new: "inWindow window h n (Suc n) \<longleftrightarrow> map_of (rg_seen g1) s0 = None"
    by (simp add: inWindow_def acc Check_def g1_def [symmetric] Let_def)
  have c: "snd (Check s0 t0 g) = (if map_of (rg_seen g1) s0 = None then g1\<lparr>rg_seen := AList.update s0 t0 (rg_seen g1)\<rparr> else g1)"
    by (simp add: Check_def g1_def [symmetric] Let_def)
  have upd: "set (AList.update s0 t0 (rg_seen g1)) = insert (s0, t0) (set (rg_seen g1))" if "map_of (rg_seen g1) s0 = None"
    using that by (rule set_update_new)
  have none: "\<not> (\<exists>j<n. inWindow window h j (Suc n) \<and> h ! j = (s0, y))" if "map_of (rg_seen g1) s0 = None" for y
    using that s1 [of s0 y] by (force simp: map_of_eq_None_iff)
  show ?case unfolding g' c using d1 s1 new upd none h
    by (auto simp: distinct_update less_Suc_eq)
qed



end
