(* ===== verification/Shmem.thy ===== *)
theory Shmem
  imports Dds_Core Topic_Match Cfilter Sample_Pool
begin

text \<open>
  The shared-memory transport (\<^verbatim>\<open>src/shmem/shmem.go\<close>). Within a process all participants of a domain
  share a broker that hands samples to channels. Across processes a sample travels through a file per
  topic, written by a goroutine of its own, and a datagram to a socket beside it, answered by the
  listener of a subscriber. A subscriber's pump merges both ways.

  The model covers the processes of one host: brokers are keyed by process and domain; files and
  sockets are global. Slices are addresses into a memory, because the goroutine that writes the file
  reads the caller's buffer after the call has returned. The goroutine takes four steps (create the
  file, write the length, write the payload, notify), so that goroutines interleave.
\<close>

section \<open>Definitions\<close>

subsection \<open>Broker\<close>

record shmTopicCounter =
  tcWrites :: uint64
  tcDelivers :: uint64
  tcDrops :: uint64
  tcBytesW :: uint64
  tcBytesD :: uint64

text \<open>A subscription; \<open>ss_sub\<close> is the subscriber whose channel it is.\<close>

record shmSub =
  ss_sub :: nat
  ss_filter :: "(Sample \<Rightarrow> bool) option"
  ss_backPressure :: BackPressurePolicy
  ss_contentFilter :: "(bytes \<Rightarrow> bool) option"

record shmBroker =
  bsubs :: "(topic \<times> shmSub list) list"
  blastSample :: "topic \<Rightarrow> Sample option"
  bwrites :: uint64
  bdelivers :: uint64
  bdrops :: uint64
  bWritten :: uint64
  bDeliv :: uint64
  btopicMetrics :: "(topic \<times> shmTopicCounter) list"

definition emptyBroker :: shmBroker where
  "emptyBroker = \<lparr>bsubs = [], blastSample = (\<lambda>_. None), bwrites = 0, bdelivers = 0, bdrops = 0, bWritten = 0, bDeliv = 0,
     btopicMetrics = []\<rparr>"

definition shmZeroCounter :: shmTopicCounter where
  "shmZeroCounter = \<lparr>tcWrites = 0, tcDelivers = 0, tcDrops = 0, tcBytesW = 0, tcBytesD = 0\<rparr>"

definition topicCounter :: "topic \<Rightarrow> shmBroker \<Rightarrow> shmTopicCounter" where
  "topicCounter t b = (case map_of (btopicMetrics b) t of Some c \<Rightarrow> c | None \<Rightarrow> shmZeroCounter)"

definition updCounter :: "topic \<Rightarrow> (shmTopicCounter \<Rightarrow> shmTopicCounter) \<Rightarrow> shmBroker \<Rightarrow> shmBroker" where
  "updCounter t f b = b\<lparr>btopicMetrics := AList.update t (f (topicCounter t b)) (btopicMetrics b)\<rparr>"

definition brokerWrite :: "topic \<Rightarrow> nat \<Rightarrow> shmBroker \<Rightarrow> shmBroker" where
  "brokerWrite t n b =
     updCounter t (\<lambda>c. c\<lparr>tcWrites := tcWrites c + 1, tcBytesW := tcBytesW c + word_of_nat n\<rparr>)
       (b\<lparr>bwrites := bwrites b + 1, bWritten := bWritten b + word_of_nat n\<rparr>)"

definition brokerDeliver :: "topic \<Rightarrow> nat \<Rightarrow> shmBroker \<Rightarrow> shmBroker" where
  "brokerDeliver t n b =
     updCounter t (\<lambda>c. c\<lparr>tcDelivers := tcDelivers c + 1, tcBytesD := tcBytesD c + word_of_nat n\<rparr>)
       (b\<lparr>bdelivers := bdelivers b + 1, bDeliv := bDeliv b + word_of_nat n\<rparr>)"

definition brokerDrop :: "topic \<Rightarrow> shmBroker \<Rightarrow> shmBroker" where
  "brokerDrop t b = updCounter t (\<lambda>c. c\<lparr>tcDrops := tcDrops c + 1\<rparr>) (b\<lparr>bdrops := bdrops b + 1\<rparr>)"

subsection \<open>Subscribers, publishers and goroutines\<close>

text \<open>\<open>l_notes\<close> counts the datagrams waiting at the listener's socket.\<close>

record shmListener =
  l_filter :: "(Sample \<Rightarrow> bool) option"
  l_contentFilter :: "(bytes \<Rightarrow> bool) option"
  l_ch :: "Sample chan"
  l_notes :: nat
  l_done :: bool
  l_running :: bool

text \<open>\<open>su_deadline\<close> is the deadline duration of a timer, and \<open>su_due\<close> when it fires, if it runs.\<close>

record shmSubscriber =
  su_topic :: topic
  su_broker :: "nat \<times> int"
  su_inProc :: "Sample chan"
  su_listener :: "shmListener option"
  su_ch :: "Sample chan"
  su_done :: bool
  su_started :: bool
  su_running :: bool
  su_unsubscribed :: bool
  su_closed :: bool
  su_deadline :: "duration option"
  su_due :: "gotime option"

record shmPublisher =
  sp_topic :: topic
  sp_qos :: QoS
  sp_broker :: "nat \<times> int"
  sp_closed :: bool
  sp_seqNum :: uint64
  sp_guid :: ddsGUID

record shmParticipant =
  sm_broker :: "nat \<times> int"
  sm_closed :: bool

text \<open>A slice: a buffer and the length of its prefix. The goroutine of a publication with its next step.\<close>

datatype publishStep = CreateFile | WriteLen | WriteBody | Notify

record shmTask =
  t_topic :: topic
  t_slice :: "nat \<times> nat"
  t_step :: publishStep

record world =
  brokers :: "nat \<times> int \<Rightarrow> shmBroker"
  participants :: "nat \<Rightarrow> shmParticipant option"
  publishers :: "nat \<Rightarrow> shmPublisher option"
  subscribers :: "nat \<Rightarrow> shmSubscriber option"
  tasks :: "shmTask list"
  files :: "string \<Rightarrow> bytes option"
  sockets :: "string \<Rightarrow> nat option"
  mem :: "nat \<Rightarrow> bytes"
  nextId :: nat

definition initWorld :: world where
  "initWorld = \<lparr>brokers = (\<lambda>_. emptyBroker), participants = (\<lambda>_. None), publishers = (\<lambda>_. None), subscribers = (\<lambda>_. None),
     tasks = [], files = (\<lambda>_. None), sockets = (\<lambda>_. None), mem = (\<lambda>_. []), nextId = 0\<rparr>"

definition sliceBytes :: "world \<Rightarrow> nat \<times> nat \<Rightarrow> bytes" where
  "sliceBytes w sl = take (snd sl) (mem w (fst sl))"

definition updSub :: "nat \<Rightarrow> (shmSubscriber \<Rightarrow> shmSubscriber) \<Rightarrow> world \<Rightarrow> world" where
  "updSub i f w = (case subscribers w i of None \<Rightarrow> w | Some s \<Rightarrow> w\<lparr>subscribers := (subscribers w)(i \<mapsto> f s)\<rparr>)"

subsection \<open>Paths and the data file\<close>

definition shmDir :: string where
  "shmDir = ''/tmp/godds-shmem''"

text \<open>Slashes and backslashes become underscores; joining the directory cleans dot names away.\<close>

definition shmTopicDir :: "topic \<Rightarrow> string" where
  "shmTopicDir t =
     (let safe = map (\<lambda>c. if c = CHR ''/'' \<or> c = CHR 0x5C then CHR ''_'' else c) (topicString t)
      in if safe = ''..'' then ''/tmp'' else if safe = ''.'' \<or> safe = [] then shmDir else shmDir @ ''/'' @ safe)"

definition shmDataPath :: "topic \<Rightarrow> string" where
  "shmDataPath t = shmTopicDir t @ ''/data.bin''"

definition shmSocketPath :: "topic \<Rightarrow> string" where
  "shmSocketPath t = shmTopicDir t @ ''/notify.sock''"

definition maxPayload :: nat where
  "maxPayload = 16 * 1024 * 1024"

text \<open>Writing at an offset; a gap is filled with zeros.\<close>

definition writeAt :: "nat \<Rightarrow> bytes \<Rightarrow> bytes \<Rightarrow> bytes" where
  "writeAt off bs f = take off (f @ replicate (off - length f) 0) @ bs @ drop (off + length bs) f"

definition lenPrefix :: "nat \<Rightarrow> bytes" where
  "lenPrefix n = PutUint32 (word_of_nat n)"

definition readData :: "bytes option \<Rightarrow> bytes option" where
  "readData f =
     (case f of
        None \<Rightarrow> None
      | Some bs \<Rightarrow>
          if length bs < 4 then None
          else
            let n = unat (Uint32 bs) in
            if n > maxPayload then None
            else if length (drop 4 bs) < n then None
            else Some (take n (drop 4 bs)))"

text \<open>
  One step of a publication goroutine. The environment decides whether the file can be created and
  whether the datagram is accepted. \<open>None\<close> as task means that the goroutine ends.
\<close>

definition taskStep :: "bool \<Rightarrow> shmTask \<Rightarrow> world \<Rightarrow> shmTask option \<times> world" where
  "taskStep ok t w =
     (let path = shmDataPath (t_topic t); f = (case files w path of Some bs \<Rightarrow> bs | None \<Rightarrow> []) in
      case t_step t of
        CreateFile \<Rightarrow>
          if ok then (Some (t\<lparr>t_step := WriteLen\<rparr>), w\<lparr>files := (files w)(path \<mapsto> [])\<rparr>) else (None, w)
      | WriteLen \<Rightarrow>
          (Some (t\<lparr>t_step := WriteBody\<rparr>), w\<lparr>files := (files w)(path \<mapsto> writeAt 0 (lenPrefix (snd (t_slice t))) f)\<rparr>)
      | WriteBody \<Rightarrow>
          (Some (t\<lparr>t_step := Notify\<rparr>), w\<lparr>files := (files w)(path \<mapsto> writeAt 4 (sliceBytes w (t_slice t)) f)\<rparr>)
      | Notify \<Rightarrow>
          (None,
           case sockets w (shmSocketPath (t_topic t)) of
             None \<Rightarrow> w
           | Some i \<Rightarrow>
               if \<not> ok then w
               else updSub i (\<lambda>s. s\<lparr>su_listener := map_option (\<lambda>l. l\<lparr>l_notes := l_notes l + 1\<rparr>) (su_listener s)\<rparr>) w))"

subsection \<open>Publishing\<close>

definition passes :: "shmSub \<Rightarrow> Sample \<Rightarrow> bool" where
  "passes ss x =
     ((case ss_filter ss of None \<Rightarrow> True | Some f \<Rightarrow> f x)
      \<and> (case ss_contentFilter ss of None \<Rightarrow> True | Some f \<Rightarrow> f (Payload x)))"

definition resetSubDeadline :: "gotime \<Rightarrow> shmSubscriber \<Rightarrow> shmSubscriber" where
  "resetSubDeadline now s = (case su_deadline s of None \<Rightarrow> s | Some d \<Rightarrow> s\<lparr>su_due := Some (now + d)\<rparr>)"

text \<open>
  Delivery into a channel by the policy: the broker with its counters and the channel, and whether
  it was delivered. \<open>None\<close> is a send that blocks.
\<close>

definition deliverSub ::
  "topic \<Rightarrow> BackPressurePolicy \<Rightarrow> Sample \<Rightarrow> shmBroker \<times> Sample chan \<Rightarrow> (bool \<times> shmBroker \<times> Sample chan) option"
where
  "deliverSub t policy x bc =
     (let (b, ch) = bc; n = length (Payload x) in
      case policy of
        DropOldest \<Rightarrow>
          (case trySend x ch of
             Some ch1 \<Rightarrow> Some (True, brokerDeliver t n b, ch1)
           | None \<Rightarrow>
               let (r, ch1) = tryRecv ch; b1 = (case r of Received _ \<Rightarrow> brokerDrop t b | _ \<Rightarrow> b) in
               (case trySend x ch1 of
                  Some ch2 \<Rightarrow> Some (True, brokerDeliver t n b1, ch2)
                | None \<Rightarrow> Some (False, brokerDrop t b1, ch1)))
      | Block \<Rightarrow> map_option (\<lambda>ch1. (True, brokerDeliver t n b, ch1)) (trySend x ch)
      | DropNewest \<Rightarrow>
          (case trySend x ch of
             Some ch1 \<Rightarrow> Some (True, brokerDeliver t n b, ch1)
           | None \<Rightarrow> Some (False, brokerDrop t b, ch)))"

text \<open>The package has a matcher of its own.\<close>

fun shmMatchSegs :: "string list \<Rightarrow> string list \<Rightarrow> bool" where
  "shmMatchSegs [] t = (t = [])"
| "shmMatchSegs (p # ps) t =
     (if p = ''#'' then True
      else
        (case t of
           [] \<Rightarrow> False
         | l # ls \<Rightarrow> if p = ''+'' \<or> p = l then shmMatchSegs ps ls else False))"

definition shmTopicMatches :: "topic \<Rightarrow> topic \<Rightarrow> bool" where
  "shmTopicMatches pattern t = shmMatchSegs (splitLevels (topicString pattern)) (splitLevels (topicString t))"

text \<open>The subscriptions of a publication: those of the topic, then those of patterns that match it.\<close>

definition targets :: "topic \<Rightarrow> shmBroker \<Rightarrow> shmSub list" where
  "targets t b =
     (case map_of (bsubs b) t of Some l \<Rightarrow> l | None \<Rightarrow> [])
     @ concat (map (\<lambda>(u, l). if u \<noteq> t \<and> shmTopicMatches u t then l else []) (bsubs b))"

definition deliverTo :: "gotime \<Rightarrow> topic \<Rightarrow> nat \<times> int \<Rightarrow> Sample \<Rightarrow> shmSub \<Rightarrow> world \<Rightarrow> world option" where
  "deliverTo now t k x ss w =
     (if \<not> passes ss x then Some w
      else
        (case subscribers w (ss_sub ss) of
           None \<Rightarrow> Some w
         | Some s \<Rightarrow>
             (case deliverSub t (ss_backPressure ss) x (brokers w k, su_inProc s) of
                None \<Rightarrow> None
              | Some (sent, b, ch) \<Rightarrow>
                  let s1 = s\<lparr>su_inProc := ch\<rparr>; s2 = (if sent then resetSubDeadline now s1 else s1)
                  in Some (w\<lparr>brokers := (brokers w)(k := b), subscribers := (subscribers w)(ss_sub ss \<mapsto> s2)\<rparr>))))"

fun deliverAll :: "gotime \<Rightarrow> topic \<Rightarrow> nat \<times> int \<Rightarrow> Sample \<Rightarrow> shmSub list \<Rightarrow> world \<Rightarrow> world option" where
  "deliverAll now t k x [] w = Some w"
| "deliverAll now t k x (ss # rest) w =
     (case deliverTo now t k x ss w of None \<Rightarrow> None | Some w' \<Rightarrow> deliverAll now t k x rest w')"

definition shmSample :: "gotime \<Rightarrow> topic \<Rightarrow> bytes \<Rightarrow> uint64 \<Rightarrow> ddsGUID \<Rightarrow> Sample" where
  "shmSample now t payload seqNum guid = \<lparr>Topic = t, Payload = payload, Timestamp = now, SampleSeq = seqNum, WriterGUID = guid\<rparr>"

definition noteWrite :: "topic \<Rightarrow> Sample \<Rightarrow> QoS \<Rightarrow> shmBroker \<Rightarrow> shmBroker" where
  "noteWrite t x qos b =
     (let b1 = brokerWrite t (length (Payload x)) b in
      if Durability qos = TransientLocal then b1\<lparr>blastSample := (blastSample b1)(t \<mapsto> x)\<rparr> else b1)"

definition addTask :: "topic \<Rightarrow> nat \<times> nat \<Rightarrow> world \<Rightarrow> world" where
  "addTask t sl w = w\<lparr>tasks := tasks w @ [\<lparr>t_topic = t, t_slice = sl, t_step = CreateFile\<rparr>]\<rparr>"

definition publish :: "gotime \<Rightarrow> topic \<Rightarrow> nat \<times> nat \<Rightarrow> QoS \<Rightarrow> uint64 \<Rightarrow> ddsGUID \<Rightarrow> nat \<times> int \<Rightarrow> world \<Rightarrow> world option" where
  "publish now t sl qos seqNum guid k w =
     (let x = shmSample now t (sliceBytes w sl) seqNum guid; b = noteWrite t x qos (brokers w k)
      in map_option (addTask t sl) (deliverAll now t k x (targets t b) (w\<lparr>brokers := (brokers w)(k := b)\<rparr>)))"

definition shmWrite :: "gotime \<Rightarrow> nat \<Rightarrow> nat \<times> nat \<Rightarrow> world \<Rightarrow> (dds_error option \<times> world) option" where
  "shmWrite now i sl w =
     (case publishers w i of
        None \<Rightarrow> None
      | Some p \<Rightarrow>
          if sp_closed p then Some (Some ErrClosed, w)
          else if MaxSampleSize (sp_qos p) > 0 \<and> int (length (sliceBytes w sl)) > MaxSampleSize (sp_qos p)
            then Some (Some ErrPayloadTooLarge, w)
          else
            let seq = sp_seqNum p + 1; w1 = w\<lparr>publishers := (publishers w)(i \<mapsto> p\<lparr>sp_seqNum := seq\<rparr>)\<rparr>
            in map_option (\<lambda>w'. (None, w')) (publish now (sp_topic p) sl (sp_qos p) seq (sp_guid p) (sp_broker p) w1))"

definition shmPubClose :: "nat \<Rightarrow> world \<Rightarrow> world" where
  "shmPubClose i w =
     (case publishers w i of None \<Rightarrow> w | Some p \<Rightarrow> w\<lparr>publishers := (publishers w)(i \<mapsto> p\<lparr>sp_closed := True\<rparr>)\<rparr>)"

definition shmWriteCtx :: "dds_error option \<Rightarrow> gotime \<Rightarrow> nat \<Rightarrow> nat \<times> nat \<Rightarrow> world \<Rightarrow> (dds_error option \<times> world) option" where
  "shmWriteCtx ctxErr now i sl w = (case ctxErr of Some e \<Rightarrow> Some (Some e, w) | None \<Rightarrow> shmWrite now i sl w)"

subsection \<open>Subscribing\<close>

definition addSub :: "topic \<Rightarrow> shmSub \<Rightarrow> shmBroker \<Rightarrow> shmBroker" where
  "addSub t ss b =
     b\<lparr>bsubs := AList.update t ((case map_of (bsubs b) t of Some l \<Rightarrow> l | None \<Rightarrow> []) @ [ss]) (bsubs b)\<rparr>"

definition removeSubscription :: "topic \<Rightarrow> nat \<Rightarrow> shmBroker \<Rightarrow> shmBroker" where
  "removeSubscription t i b =
     (case map_of (bsubs b) t of
        None \<Rightarrow> b
      | Some l \<Rightarrow>
          (case dropWhile (\<lambda>ss. ss_sub ss \<noteq> i) l of
             [] \<Rightarrow> b
           | _ # rest \<Rightarrow> b\<lparr>bsubs := AList.update t (takeWhile (\<lambda>ss. ss_sub ss \<noteq> i) l @ rest) (bsubs b)\<rparr>))"

text \<open>The channel of a new subscription holds the last sample of a transient-local topic, if it passes.\<close>

definition primeChan :: "DurabilityKind \<Rightarrow> shmSub \<Rightarrow> Sample option \<Rightarrow> Sample chan \<Rightarrow> Sample chan" where
  "primeChan d ss prev ch =
     (case prev of
        None \<Rightarrow> ch
      | Some x \<Rightarrow>
          if d = TransientLocal \<and> passes ss x then (case trySend x ch of Some ch1 \<Rightarrow> ch1 | None \<Rightarrow> ch) else ch)"

text \<open>
  A new listener removes the socket file of its predecessor and binds its own in its place; the
  environment decides whether this succeeds.
\<close>

definition newShmListener ::
  "bool \<Rightarrow> nat \<Rightarrow> topic \<Rightarrow> (Sample \<Rightarrow> bool) option \<Rightarrow> (bytes \<Rightarrow> bool) option \<Rightarrow> nat \<Rightarrow> world \<Rightarrow> shmListener option \<times> world"
where
  "newShmListener ok i t f cf depth w =
     (if ok then
        (Some \<lparr>l_filter = f, l_contentFilter = cf, l_ch = makeChan depth, l_notes = 0, l_done = False, l_running = True\<rparr>,
         w\<lparr>sockets := (sockets w)(shmSocketPath t \<mapsto> i)\<rparr>)
      else (None, w\<lparr>sockets := (sockets w)(shmSocketPath t := None)\<rparr>))"

definition newSubscriberLocked ::
  "bool \<Rightarrow> gotime \<Rightarrow> topic \<Rightarrow> QoS \<Rightarrow> SubscriberOption list \<Rightarrow> (bytes \<Rightarrow> bool) option \<Rightarrow> nat \<times> int \<Rightarrow> world \<Rightarrow> nat \<times> world"
where
  "newSubscriberLocked ok now t qos opts cf k w =
     (let c = ApplySubscriberOpts opts;
          depth = nat (ChanDepth c 64);
          i = nextId w;
          dl = (if Deadline qos > 0 \<and> DeadlineMissedCallback c \<noteq> None then Some (Deadline qos) else None);
          ss = \<lparr>ss_sub = i, ss_filter = Filter c, ss_backPressure = BackPressure c, ss_contentFilter = cf\<rparr>;
          b = brokers w k;
          inp = primeChan (Durability qos) ss (blastSample b t) (makeChan depth);
          (l, w1) = newShmListener ok i t (Filter c) cf depth (w\<lparr>brokers := (brokers w)(k := addSub t ss b), nextId := i + 1\<rparr>)
      in (i, w1\<lparr>subscribers := (subscribers w1)(i \<mapsto>
              \<lparr>su_topic = t, su_broker = k, su_inProc = inp, su_listener = l, su_ch = makeChan depth, su_done = False,
               su_started = False, su_running = False, su_unsubscribed = False, su_closed = False, su_deadline = dl,
               su_due = map_option (\<lambda>d. now + d) dl\<rparr>)\<rparr>))"

definition shmNewSubscriber ::
  "bool \<Rightarrow> gotime \<Rightarrow> nat \<Rightarrow> topic \<Rightarrow> QoS \<Rightarrow> SubscriberOption list \<Rightarrow> world \<Rightarrow> (dds_error + nat) \<times> world"
where
  "shmNewSubscriber ok now pid t qos opts w =
     (if t = [] then (Inl ErrTopicEmpty, w)
      else
        (case participants w pid of
           None \<Rightarrow> (Inl ErrClosed, w)
         | Some p \<Rightarrow>
             if sm_closed p then (Inl ErrClosed, w)
             else let (i, w') = newSubscriberLocked ok now t qos opts None (sm_broker p) w in (Inr i, w')))"

datatype subscribeError = SubDds dds_error | SubFilter cfError

definition shmNewFilteredSubscriber ::
  "(string \<Rightarrow> float64 option) \<Rightarrow> (bytes \<Rightarrow> fields option) \<Rightarrow> bool \<Rightarrow> gotime \<Rightarrow> nat \<Rightarrow> topic \<Rightarrow> string \<Rightarrow> string list \<Rightarrow> QoS
    \<Rightarrow> SubscriberOption list \<Rightarrow> world \<Rightarrow> (subscribeError + nat) \<times> world"
where
  "shmNewFilteredSubscriber pf unmarshal ok now pid t expr params qos opts w =
     (if t = [] then (Inl (SubDds ErrTopicEmpty), w)
      else
        (case ParseExpr pf expr params of
           Inl e \<Rightarrow> (Inl (SubFilter e), w)
         | Inr fn \<Rightarrow>
             (case participants w pid of
                None \<Rightarrow> (Inl (SubDds ErrClosed), w)
              | Some p \<Rightarrow>
                  if sm_closed p then (Inl (SubDds ErrClosed), w)
                  else
                    let (i, w') = newSubscriberLocked ok now t qos opts (Some (Eval unmarshal fn)) (sm_broker p) w
                    in (Inr i, w'))))"

subsection \<open>The goroutines of a subscriber\<close>

text \<open>One turn of the listener that found a datagram.\<close>

definition listenerTurn :: "gotime \<Rightarrow> topic \<Rightarrow> bytes option \<Rightarrow> shmListener \<Rightarrow> shmListener" where
  "listenerTurn now t f l =
     (if \<not> l_running l then l
      else if l_done l then l\<lparr>l_running := False, l_ch := closeChan (l_ch l)\<rparr>
      else if l_notes l = 0 then l
      else
        let l1 = l\<lparr>l_notes := l_notes l - 1\<rparr> in
        (case readData f of
           None \<Rightarrow> l1
         | Some payload \<Rightarrow>
             let x = \<lparr>Topic = t, Payload = payload, Timestamp = now, SampleSeq = 0, WriterGUID = replicate 16 0\<rparr>
             in if (case l_filter l of Some g \<Rightarrow> \<not> g x | None \<Rightarrow> False) then l1
                else if (case l_contentFilter l of Some g \<Rightarrow> \<not> g payload | None \<Rightarrow> False) then l1
                else (case trySend x (l_ch l1) of Some ch \<Rightarrow> l1\<lparr>l_ch := ch\<rparr> | None \<Rightarrow> l1)))"

definition listenerStep :: "gotime \<Rightarrow> nat \<Rightarrow> world \<Rightarrow> world" where
  "listenerStep now i w =
     updSub i (\<lambda>s. s\<lparr>su_listener :=
         map_option (listenerTurn now (su_topic s) (files w (shmDataPath (su_topic s)))) (su_listener s)\<rparr>) w"

definition startPump :: "shmSubscriber \<Rightarrow> shmSubscriber" where
  "startPump s = (if su_started s then s else s\<lparr>su_started := True, su_running := True\<rparr>)"

text \<open>
  One turn of the pump: which case of the outer select was chosen, and whether the inner select
  preferred \<^verbatim>\<open>done\<close> when it was ready. A case that is not ready leaves the subscriber unchanged. The
  listener's channel, once closed and drained, is never selected again.
\<close>

datatype pumpCase = FromInProc | FromListener | OnDone

definition stopPump :: "shmSubscriber \<Rightarrow> shmSubscriber" where
  "stopPump s = s\<lparr>su_running := False, su_ch := closeChan (su_ch s)\<rparr>"

definition forward :: "bool \<Rightarrow> Sample \<Rightarrow> shmSubscriber \<Rightarrow> shmSubscriber" where
  "forward preferDone x s =
     (if su_done s \<and> (preferDone \<or> trySend x (su_ch s) = None) then stopPump s
      else (case trySend x (su_ch s) of Some ch \<Rightarrow> s\<lparr>su_ch := ch\<rparr> | None \<Rightarrow> s))"

definition pumpStep :: "pumpCase \<Rightarrow> bool \<Rightarrow> shmSubscriber \<Rightarrow> shmSubscriber" where
  "pumpStep c preferDone s =
     (if \<not> su_running s then s
      else
        (case c of
           FromInProc \<Rightarrow>
             (case tryRecv (su_inProc s) of
                (Received x, ch) \<Rightarrow> forward preferDone x (s\<lparr>su_inProc := ch\<rparr>)
              | (RecvClosed, ch) \<Rightarrow> stopPump s
              | (RecvDefault, ch) \<Rightarrow> s)
         | FromListener \<Rightarrow>
             (case su_listener s of
                None \<Rightarrow> s
              | Some l \<Rightarrow>
                  (case tryRecv (l_ch l) of
                     (Received x, ch) \<Rightarrow> forward preferDone x (s\<lparr>su_listener := Some (l\<lparr>l_ch := ch\<rparr>)\<rparr>)
                   | _ \<Rightarrow> s))
         | OnDone \<Rightarrow> if su_done s then stopPump s else s))"

definition shmTryRead :: "shmSubscriber \<Rightarrow> Sample option \<times> shmSubscriber" where
  "shmTryRead s =
     (let s1 = startPump s in
      case tryRecv (su_ch s1) of
        (Received x, ch) \<Rightarrow> (Some x, s1\<lparr>su_ch := ch\<rparr>)
      | _ \<Rightarrow> (None, s1))"

definition shmUnsubscribe :: "nat \<Rightarrow> world \<Rightarrow> world" where
  "shmUnsubscribe i w =
     (case subscribers w i of
        None \<Rightarrow> w
      | Some s \<Rightarrow>
          if su_unsubscribed s then w
          else
            w\<lparr>subscribers := (subscribers w)(i \<mapsto> s\<lparr>su_unsubscribed := True, su_due := None\<rparr>),
              brokers := (brokers w)(su_broker s := removeSubscription (su_topic s) i (brokers w (su_broker s)))\<rparr>)"

text \<open>Closing a listener removes the socket file at its path, whoever bound it.\<close>

definition shmSubClose :: "nat \<Rightarrow> world \<Rightarrow> world" where
  "shmSubClose i w =
     (let w1 = shmUnsubscribe i w in
      case subscribers w1 i of
        None \<Rightarrow> w1
      | Some s \<Rightarrow>
          if su_closed s then w1
          else
            let s1 = s\<lparr>su_closed := True, su_due := None, su_done := True, su_inProc := closeChan (su_inProc s),
                       su_listener := map_option (\<lambda>l. l\<lparr>l_done := True\<rparr>) (su_listener s)\<rparr>
            in w1\<lparr>subscribers := (subscribers w1)(i \<mapsto> s1),
                  sockets := (if su_listener s = None then sockets w1
                              else (sockets w1)(shmSocketPath (su_topic s) := None))\<rparr>)"

subsection \<open>Participants\<close>

definition shmNew :: "nat \<Rightarrow> int \<Rightarrow> world \<Rightarrow> (dds_error + nat) \<times> world" where
  "shmNew process d w =
     (case ValidateDomain d of
        Some e \<Rightarrow> (Inl e, w)
      | None \<Rightarrow>
          (Inr (nextId w),
           w\<lparr>participants := (participants w)(nextId w \<mapsto> \<lparr>sm_broker = (process, d), sm_closed = False\<rparr>), nextId := nextId w + 1\<rparr>))"

text \<open>A publisher's GUID is made of the eight bytes of the time.\<close>

definition shmNewGUID :: "gotime \<Rightarrow> ddsGUID" where
  "shmNewGUID ns = PutUint64 (word_of_int ns) @ replicate 8 0"

definition shmNewPublisher :: "gotime \<Rightarrow> nat \<Rightarrow> topic \<Rightarrow> QoS \<Rightarrow> world \<Rightarrow> (dds_error + nat) \<times> world" where
  "shmNewPublisher now pid t qos w =
     (if t = [] then (Inl ErrTopicEmpty, w)
      else
        (case participants w pid of
           None \<Rightarrow> (Inl ErrClosed, w)
         | Some p \<Rightarrow>
             if sm_closed p then (Inl ErrClosed, w)
             else
               (Inr (nextId w),
                w\<lparr>publishers := (publishers w)(nextId w \<mapsto>
                     \<lparr>sp_topic = t, sp_qos = qos, sp_broker = sm_broker p, sp_closed = False, sp_seqNum = 0,
                      sp_guid = shmNewGUID now\<rparr>), nextId := nextId w + 1\<rparr>)))"

definition shmClose :: "nat \<Rightarrow> world \<Rightarrow> world" where
  "shmClose pid w =
     (case participants w pid of
        None \<Rightarrow> w
      | Some p \<Rightarrow> w\<lparr>participants := (participants w)(pid \<mapsto> p\<lparr>sm_closed := True\<rparr>)\<rparr>)"

definition shmMetrics :: "shmBroker \<Rightarrow> Metrics" where
  "shmMetrics b = \<lparr>WriteCount = bwrites b, DeliverCount = bdelivers b, DropCount = bdrops b, BytesWritten = bWritten b,
     BytesDelivered = bDeliv b, ErrorCount = 0\<rparr>"

record TopicMetrics =
  tm_Topic :: topic
  tm_WriteCount :: uint64
  tm_DeliverCount :: uint64
  tm_DropCount :: uint64
  tm_BytesWritten :: uint64
  tm_BytesDelivered :: uint64

definition shmTopicMetrics :: "shmBroker \<Rightarrow> TopicMetrics list" where
  "shmTopicMetrics b =
     map (\<lambda>(t, c). \<lparr>tm_Topic = t, tm_WriteCount = tcWrites c, tm_DeliverCount = tcDelivers c, tm_DropCount = tcDrops c,
         tm_BytesWritten = tcBytesW c, tm_BytesDelivered = tcBytesD c\<rparr>) (btopicMetrics b)"

definition shmHealth :: "shmParticipant \<Rightarrow> HealthStatus" where
  "shmHealth p = (if sm_closed p then HealthDown else HealthOK)"

subsection \<open>Loaned samples\<close>

text \<open>
  The pool of a loaning publisher holds addresses of buffers; the runtime's pool hands out any of
  them or none (\<open>pick\<close>), and then a new one is made. The capacity of a buffer is the length of its memory.
\<close>

record shmLoaner =
  sl_pub :: nat
  sl_held :: "nat list"
  sl_size :: nat

definition shmNewLoaningPublisher :: "gotime \<Rightarrow> nat \<Rightarrow> topic \<Rightarrow> QoS \<Rightarrow> int \<Rightarrow> world \<Rightarrow> (dds_error + shmLoaner) \<times> world" where
  "shmNewLoaningPublisher now pid t qos bufSize w =
     (case shmNewPublisher now pid t qos w of
        (Inl e, w') \<Rightarrow> (Inl e, w')
      | (Inr i, w') \<Rightarrow> (Inr \<lparr>sl_pub = i, sl_held = [], sl_size = bp_size (NewBytePool bufSize)\<rparr>, w'))"

definition shmGetBuf :: "nat option \<Rightarrow> shmLoaner \<Rightarrow> world \<Rightarrow> nat \<times> shmLoaner \<times> world" where
  "shmGetBuf pick lp w =
     (let fresh = (nextId w, lp, w\<lparr>mem := (mem w)(nextId w := replicate (sl_size lp) 0), nextId := nextId w + 1\<rparr>) in
      case pick of
        Some i \<Rightarrow>
          if i < length (sl_held lp)
          then (sl_held lp ! i, lp\<lparr>sl_held := take i (sl_held lp) @ drop (Suc i) (sl_held lp)\<rparr>, w)
          else fresh
      | None \<Rightarrow> fresh)"

definition shmPutBuf :: "nat \<Rightarrow> world \<Rightarrow> shmLoaner \<Rightarrow> shmLoaner" where
  "shmPutBuf a w lp = (if length (mem w a) < sl_size lp then lp else lp\<lparr>sl_held := a # sl_held lp\<rparr>)"

text \<open>The outer \<open>None\<close> is the panic of slicing with a negative size.\<close>

definition shmLoan ::
  "nat option \<Rightarrow> int \<Rightarrow> shmLoaner \<Rightarrow> world \<Rightarrow> ((dds_error + nat \<times> nat) \<times> shmLoaner \<times> world) option"
where
  "shmLoan pick n lp w =
     (case publishers w (sl_pub lp) of
        None \<Rightarrow> None
      | Some p \<Rightarrow>
          if sp_closed p then Some (Inl ErrClosed, lp, w)
          else
            let (a, lp1, w1) = shmGetBuf pick lp w in
            if int (length (mem w1 a)) < n then Some (Inl ErrLoanBuffer, shmPutBuf a w1 lp1, w1)
            else if n < 0 then None
            else Some (Inr (a, nat n), lp1, w1))"

text \<open>The buffer returns to the pool while the goroutine that writes the file may still have to read it.\<close>

definition shmCommit :: "gotime \<Rightarrow> nat \<times> nat \<Rightarrow> shmLoaner \<Rightarrow> world \<Rightarrow> (dds_error option \<times> shmLoaner \<times> world) option" where
  "shmCommit now sl lp w =
     (case shmWrite now (sl_pub lp) sl w of
        None \<Rightarrow> None
      | Some (e, w') \<Rightarrow> Some (e, shmPutBuf (fst sl) w' lp, w'))"

subsection \<open>Steps\<close>

definition runTask :: "bool \<Rightarrow> nat \<Rightarrow> world \<Rightarrow> world" where
  "runTask ok n w =
     (if n < length (tasks w) then
        (case taskStep ok (tasks w ! n) w of
           (None, w') \<Rightarrow> w'\<lparr>tasks := take n (tasks w) @ drop (Suc n) (tasks w)\<rparr>
         | (Some t, w') \<Rightarrow> w'\<lparr>tasks := (tasks w)[n := t]\<rparr>)
      else w)"

definition deadlineFires :: "gotime \<Rightarrow> shmSubscriber \<Rightarrow> shmSubscriber" where
  "deadlineFires now s = (case su_due s of None \<Rightarrow> s | Some due \<Rightarrow> if due \<le> now then resetSubDeadline now s else s)"

text \<open>Every call of an application, every turn of a goroutine, and the applications writing to their buffers.\<close>

inductive shm_step :: "world \<Rightarrow> world \<Rightarrow> bool" where
  new_participant: "shm_step w (snd (shmNew process d w))"
| new_publisher: "shm_step w (snd (shmNewPublisher now pid t qos w))"
| new_subscriber: "shm_step w (snd (shmNewSubscriber ok now pid t qos opts w))"
| new_filtered: "shm_step w (snd (shmNewFilteredSubscriber pf unmarshal ok now pid t expr params qos opts w))"
| write_sample: "shmWrite now i sl w = Some (e, w') \<Longrightarrow> shm_step w w'"
| task: "shm_step w (runTask ok n w)"
| listener: "shm_step w (listenerStep now i w)"
| pump: "shm_step w (updSub i (pumpStep c preferDone) w)"
| read: "shm_step w (updSub i (\<lambda>s. snd (shmTryRead s)) w)"
| start: "shm_step w (updSub i startPump w)"
| deadline: "shm_step w (updSub i (deadlineFires now) w)"
| unsubscribe: "shm_step w (shmUnsubscribe i w)"
| close_subscriber: "shm_step w (shmSubClose i w)"
| close_publisher: "shm_step w (shmPubClose i w)"
| close_participant: "shm_step w (shmClose pid w)"
| memory: "shm_step w (w\<lparr>mem := (mem w)(a := bs)\<rparr>)"

inductive shm_reach :: "world \<Rightarrow> bool" where
  init: "shm_reach initWorld"
| step: "shm_reach w \<Longrightarrow> shm_step w w' \<Longrightarrow> shm_reach w'"

end
