(* ===== verification/Shmem_Invariants.thy ===== *)
theory Shmem_Invariants
  imports Shmem
begin

text \<open>
  What holds in every reachable state of the shared-memory transport: where subscribers are listed,
  the bounds of channels, and the counters; and what a publication does.
\<close>

section \<open>Invariants\<close>

subsection \<open>Subscriptions\<close>

text \<open>What of a subscriber decides where it is listed.\<close>

definition listing :: "world \<Rightarrow> nat \<Rightarrow> (topic \<times> (nat \<times> int) \<times> bool) option" where
  "listing w i = map_option (\<lambda>s. (su_topic s, su_broker s, su_unsubscribed s)) (subscribers w i)"

definition subsOf :: "topic \<Rightarrow> shmBroker \<Rightarrow> shmSub list" where
  "subsOf t b = (case map_of (bsubs b) t of Some l \<Rightarrow> l | None \<Rightarrow> [])"

definition subs_wf :: "world \<Rightarrow> bool" where
  "subs_wf w \<longleftrightarrow>
     (\<forall>k. distinct (map fst (bsubs (brokers w k))))
     \<and> (\<forall>k t. distinct (map ss_sub (subsOf t (brokers w k))))
     \<and> (\<forall>k t i. i \<in> ss_sub ` set (subsOf t (brokers w k)) \<longleftrightarrow> listing w i = Some (t, k, False))
     \<and> (\<forall>i. subscribers w i \<noteq> None \<longrightarrow> i < nextId w)"

lemma subs_wf_frame:
  assumes "subs_wf w" "listing w' = listing w" "\<And>k. bsubs (brokers w' k) = bsubs (brokers w k)" "nextId w \<le> nextId w'"
  shows "subs_wf w'"
proof -
  have "subscribers w' i = None \<longleftrightarrow> subscribers w i = None" for i
    using fun_cong[OF assms(2), of i] by (auto simp: listing_def)
  moreover have "subsOf t (brokers w' k) = subsOf t (brokers w k)" for t k
    by (simp add: subsOf_def assms(3))
  ultimately show ?thesis
    using assms(1,4) by (auto simp: subs_wf_def assms(2,3) intro: less_le_trans)
qed

lemma subs_wf_init: "subs_wf initWorld"
  by (simp add: subs_wf_def initWorld_def emptyBroker_def subsOf_def listing_def)

lemma bsubs_counters [simp]:
  "bsubs (updCounter t f b) = bsubs b" "bsubs (brokerWrite t n b) = bsubs b" "bsubs (brokerDeliver t n b) = bsubs b"
  "bsubs (brokerDrop t b) = bsubs b"
  by (simp_all add: updCounter_def brokerWrite_def brokerDeliver_def brokerDrop_def)

lemma deliverSub_bsubs: "deliverSub t p x (b, ch) = Some (sent, b', ch') \<Longrightarrow> bsubs b' = bsubs b"
  by (auto simp: deliverSub_def Let_def split: BackPressurePolicy.splits option.splits prod.splits recv_result.splits)

lemma subsOf_addSub:
  "subsOf u (addSub t ss b) = (if u = t then subsOf t b @ [ss] else subsOf u b)"
  by (simp add: subsOf_def addSub_def update_conv')

lemma filter_first:
  assumes "distinct (map f l)"
  shows "filter (\<lambda>x. f x \<noteq> i) l = takeWhile (\<lambda>x. f x \<noteq> i) l @ tl (dropWhile (\<lambda>x. f x \<noteq> i) l)"
  using assms
proof (induction l)
  case (Cons a l)
  show ?case
  proof (cases "f a = i")
    case True
    then have "filter (\<lambda>x. f x \<noteq> i) l = l"
      using Cons.prems by (simp add: filter_id_conv) (metis imageI)
    then show ?thesis using True by simp
  next
    case False
    then show ?thesis using Cons by simp
  qed
qed simp

lemma subsOf_remove:
  assumes "distinct (map ss_sub (subsOf t b))"
  shows "subsOf u (removeSubscription t i b) = (if u = t then filter (\<lambda>ss. ss_sub ss \<noteq> i) (subsOf t b) else subsOf u b)"
proof (cases "map_of (bsubs b) t")
  case None
  then show ?thesis by (simp add: subsOf_def removeSubscription_def)
next
  case (Some l)
  then have "filter (\<lambda>ss. ss_sub ss \<noteq> i) l = takeWhile (\<lambda>ss. ss_sub ss \<noteq> i) l @ tl (dropWhile (\<lambda>ss. ss_sub ss \<noteq> i) l)"
    using assms by (intro filter_first) (simp add: subsOf_def)
  with Some show ?thesis
    by (auto simp: subsOf_def removeSubscription_def update_conv' filter_id_conv split: list.splits)
qed

lemma distinct_bsubs:
  assumes "distinct (map fst (bsubs b))"
  shows "distinct (map fst (bsubs (addSub t ss b)))" "distinct (map fst (bsubs (removeSubscription t i b)))"
  using assms by (simp_all add: addSub_def removeSubscription_def distinct_update split: option.splits list.splits)

lemma subs_wfD:
  assumes "subs_wf w"
  shows "distinct (map fst (bsubs (brokers w k)))" "distinct (map ss_sub (subsOf t (brokers w k)))"
    "i \<in> ss_sub ` set (subsOf t (brokers w k)) \<longleftrightarrow> listing w i = Some (t, k, False)"
    "subscribers w i = Some s \<Longrightarrow> i < nextId w"
  using assms unfolding subs_wf_def by blast+

text \<open>A new subscriber: what it adds, the subscriber itself with all its channels empty or primed.\<close>

lemma newSubscriberLocked_world:
  obtains ss s where "ss_sub ss = nextId w" "su_topic s = t" "su_broker s = k" "\<not> su_unsubscribed s"
    "brokers (snd (newSubscriberLocked ok now t qos opts cf k w)) = (brokers w)(k := addSub t ss (brokers w k))"
    "subscribers (snd (newSubscriberLocked ok now t qos opts cf k w)) = (subscribers w)(nextId w \<mapsto> s)"
    "nextId (snd (newSubscriberLocked ok now t qos opts cf k w)) = nextId w + 1"
    "su_inProc s = primeChan (Durability qos) ss (blastSample (brokers w k) t) (makeChan (nat (ChanDepth (ApplySubscriberOpts opts) 64)))"
    "su_ch s = makeChan (nat (ChanDepth (ApplySubscriberOpts opts) 64))"
    "su_listener s = None \<or> (\<exists>l. su_listener s = Some l \<and> l_ch l = makeChan (nat (ChanDepth (ApplySubscriberOpts opts) 64)))"
proof -
  define ss where "ss = \<lparr>ss_sub = nextId w, ss_filter = Filter (ApplySubscriberOpts opts),
      ss_backPressure = BackPressure (ApplySubscriberOpts opts), ss_contentFilter = cf\<rparr>"
  define s where "s = the (subscribers (snd (newSubscriberLocked ok now t qos opts cf k w)) (nextId w))"
  show ?thesis
    by (rule that[of ss s]) (simp_all add: s_def ss_def newSubscriberLocked_def newShmListener_def Let_def)
qed

lemma subs_wf_new:
  assumes "subs_wf w"
  shows "subs_wf (snd (newSubscriberLocked ok now t qos opts cf k w))"
proof -
  define w' where "w' = snd (newSubscriberLocked ok now t qos opts cf k w)"
  obtain ss s where ss: "ss_sub ss = nextId w" and s: "su_topic s = t" "su_broker s = k" "\<not> su_unsubscribed s"
    and w': "brokers w' = (brokers w)(k := addSub t ss (brokers w k))" "subscribers w' = (subscribers w)(nextId w \<mapsto> s)"
      "nextId w' = nextId w + 1"
    unfolding w'_def by (rule newSubscriberLocked_world)
  have fresh: "listing w (nextId w) = None"
    using subs_wfD(4)[OF assms, of "nextId w"] by (cases "subscribers w (nextId w)") (auto simp: listing_def)
  have lst: "listing w' i = (if i = nextId w then Some (t, k, False) else listing w i)" for i
    by (simp add: listing_def w'(2) s)
  have lists: "subsOf u (brokers w' k') = (if u = t \<and> k' = k then subsOf t (brokers w k) @ [ss] else subsOf u (brokers w k'))" for u k'
    by (simp add: w'(1) subsOf_addSub)
  have notin: "nextId w \<notin> ss_sub ` set (subsOf u (brokers w k'))" for u k'
    using subs_wfD(3)[OF assms] fresh by auto
  have "distinct (map fst (bsubs (brokers w' k')))" "distinct (map ss_sub (subsOf u (brokers w' k')))" for k' u
    using notin[of t k] by (simp_all add: subs_wfD[OF assms] w'(1) subsOf_addSub distinct_bsubs ss)
  moreover have "i \<in> ss_sub ` set (subsOf u (brokers w' k')) \<longleftrightarrow> listing w' i = Some (u, k', False)" for i u k'
    using notin[of u k'] subs_wfD(3)[OF assms, of _ u k'] by (auto simp: lists lst ss)
  moreover have "i < nextId w'" if "subscribers w' i \<noteq> None" for i
    using that subs_wfD(4)[OF assms, of i] by (auto simp: w' less_Suc_eq split: if_splits)
  ultimately show ?thesis
    unfolding subs_wf_def w'_def by blast
qed

lemma subs_wf_unsubscribe:
  assumes "subs_wf w"
  shows "subs_wf (shmUnsubscribe i w)"
proof (cases "subscribers w i")
  case (Some s)
  show ?thesis
  proof (cases "su_unsubscribed s")
    case False
    define w' where "w' = shmUnsubscribe i w"
    let ?k = "su_broker s" and ?t = "su_topic s"
    have w': "brokers w' = (brokers w)(?k := removeSubscription ?t i (brokers w ?k))"
        "subscribers w' = (subscribers w)(i \<mapsto> s\<lparr>su_unsubscribed := True, su_due := None\<rparr>)" "nextId w' = nextId w"
      by (simp_all add: w'_def shmUnsubscribe_def Some False)
    have d: "distinct (map ss_sub (subsOf u (brokers w k)))" for u k
      by (rule subs_wfD(2)[OF assms])
    have lists: "subsOf u (brokers w' k) =
        (if u = ?t \<and> k = ?k then filter (\<lambda>ss. ss_sub ss \<noteq> i) (subsOf u (brokers w k)) else subsOf u (brokers w k))" for u k
      using d by (simp add: w'(1) subsOf_remove)
    have lst: "listing w' j = (if j = i then Some (?t, ?k, True) else listing w j)" for j
      by (simp add: listing_def w'(2))
    have this_listing: "listing w i = Some (?t, ?k, False)"
      by (simp add: listing_def Some False)
    have "distinct (map fst (bsubs (brokers w' k)))" "distinct (map ss_sub (subsOf u (brokers w' k)))" for k u
      using d by (simp_all add: subs_wfD(1)[OF assms] w'(1) distinct_bsubs subsOf_remove distinct_map_filter)
    moreover have "j \<in> ss_sub ` set (subsOf u (brokers w' k)) \<longleftrightarrow> listing w' j = Some (u, k, False)" for j u k
      using this_listing subs_wfD(3)[OF assms, of _ u k] by (auto simp: lists lst)
    moreover have "j < nextId w'" if "subscribers w' j \<noteq> None" for j
      using that Some subs_wfD(4)[OF assms, of j] by (auto simp: w' split: if_splits)
    ultimately show ?thesis
      unfolding subs_wf_def w'_def by blast
  qed (use assms Some in \<open>simp add: shmUnsubscribe_def\<close>)
qed (use assms in \<open>simp add: shmUnsubscribe_def\<close>)

lemma listing_simps [simp]:
  "listing (w\<lparr>brokers := b\<rparr>) = listing w" "listing (w\<lparr>tasks := ts\<rparr>) = listing w" "listing (w\<lparr>files := fs\<rparr>) = listing w"
  "listing (w\<lparr>sockets := ks\<rparr>) = listing w" "listing (w\<lparr>mem := m\<rparr>) = listing w" "listing (w\<lparr>publishers := ps\<rparr>) = listing w"
  "listing (w\<lparr>participants := qs\<rparr>) = listing w" "listing (w\<lparr>nextId := n\<rparr>) = listing w"
  by (simp_all add: listing_def fun_eq_iff)

lemma listing_upd:
  assumes "subscribers w i = Some s" "su_topic s' = su_topic s" "su_broker s' = su_broker s" "su_unsubscribed s' = su_unsubscribed s"
  shows "listing (w\<lparr>subscribers := (subscribers w)(i \<mapsto> s')\<rparr>) = listing w"
  using assms by (simp add: listing_def fun_eq_iff)

text \<open>Deliveries keep the listings and the lists.\<close>

lemma deliverTo_cases:
  assumes "deliverTo now t k x ss w = Some w'"
  obtains "\<not> passes ss x \<or> subscribers w (ss_sub ss) = None" "w' = w"
  | s sent b ch due where "passes ss x" "subscribers w (ss_sub ss) = Some s"
    "deliverSub t (ss_backPressure ss) x (brokers w k, su_inProc s) = Some (sent, b, ch)"
    "w' = w\<lparr>brokers := (brokers w)(k := b), subscribers := (subscribers w)(ss_sub ss \<mapsto> s\<lparr>su_inProc := ch, su_due := due\<rparr>)\<rparr>"
proof -
  have reset: "\<exists>due. (if sent then resetSubDeadline now (s\<lparr>su_inProc := ch\<rparr>) else s\<lparr>su_inProc := ch\<rparr>)
      = s\<lparr>su_inProc := ch, su_due := due\<rparr>" for s :: shmSubscriber and ch sent
    by (cases "sent \<and> su_deadline s \<noteq> None") (auto simp: resetSubDeadline_def intro: exI[of _ "su_due s"])
  show ?thesis
  proof (cases "\<not> passes ss x \<or> subscribers w (ss_sub ss) = None")
    case True
    then show ?thesis using assms that(1) by (auto simp: deliverTo_def split: if_splits)
  next
    case False
    then obtain s where s: "passes ss x" "subscribers w (ss_sub ss) = Some s" by auto
    then obtain sent b ch where d: "deliverSub t (ss_backPressure ss) x (brokers w k, su_inProc s) = Some (sent, b, ch)"
      using assms by (auto simp: deliverTo_def split: option.splits)
    from reset[where s = s and ch = ch and sent = sent] obtain due where
      due: "(if sent then resetSubDeadline now (s\<lparr>su_inProc := ch\<rparr>) else s\<lparr>su_inProc := ch\<rparr>) = s\<lparr>su_inProc := ch, su_due := due\<rparr>"
      by blast
    show ?thesis
      by (rule that(2)[OF s d, of due]) (use assms s d due in \<open>simp add: deliverTo_def Let_def\<close>)
  qed
qed

lemma deliverTo_frame:
  assumes "deliverTo now t k x ss w = Some w'"
  shows "listing w' = listing w \<and> bsubs (brokers w' k') = bsubs (brokers w k') \<and> nextId w' = nextId w \<and> tasks w' = tasks w
    \<and> mem w' = mem w \<and> publishers w' = publishers w \<and> sockets w' = sockets w \<and> files w' = files w
    \<and> (j \<noteq> ss_sub ss \<longrightarrow> subscribers w' j = subscribers w j)"
  using assms
proof (cases rule: deliverTo_cases)
  case (2 s sent b ch due)
  have "listing w' = listing w"
    using 2(2) by (auto simp: 2(4) listing_def fun_eq_iff)
  then show ?thesis using deliverSub_bsubs[OF 2(3)] by (simp add: 2(4))
qed simp

lemma deliverAll_frame:
  assumes "deliverAll now t k x l w = Some w'"
  shows "listing w' = listing w \<and> bsubs (brokers w' k') = bsubs (brokers w k') \<and> nextId w' = nextId w \<and> tasks w' = tasks w
    \<and> mem w' = mem w \<and> publishers w' = publishers w \<and> sockets w' = sockets w \<and> files w' = files w
    \<and> (j \<notin> ss_sub ` set l \<longrightarrow> subscribers w' j = subscribers w j)"
  using assms
proof (induction l arbitrary: w)
  case (Cons ss l)
  then obtain w1 where w1: "deliverTo now t k x ss w = Some w1" "deliverAll now t k x l w1 = Some w'"
    by (auto split: option.splits)
  show ?case using deliverTo_frame[OF w1(1), of k' j] Cons.IH[OF w1(2)] by simp
qed simp

subsection \<open>Channels\<close>

definition chan_ok :: "'a chan \<Rightarrow> bool" where
  "chan_ok ch \<longleftrightarrow> 0 < chCap ch \<and> length (chBuf ch) \<le> chCap ch"

definition sub_ok :: "shmSubscriber \<Rightarrow> bool" where
  "sub_ok s \<longleftrightarrow> chan_ok (su_inProc s) \<and> chan_ok (su_ch s) \<and> (\<forall>l. su_listener s = Some l \<longrightarrow> chan_ok (l_ch l))"

definition chans_ok :: "world \<Rightarrow> bool" where
  "chans_ok w \<longleftrightarrow> (\<forall>i s. subscribers w i = Some s \<longrightarrow> sub_ok s)"

lemma chan_ok_ops:
  "0 < n \<Longrightarrow> chan_ok (makeChan n)" "chan_ok ch \<Longrightarrow> chan_ok (closeChan ch)"
  "chan_ok ch \<Longrightarrow> trySend x ch = Some ch' \<Longrightarrow> chan_ok ch'" "chan_ok ch \<Longrightarrow> tryRecv ch = (r, ch') \<Longrightarrow> chan_ok ch'"
  by (auto simp: chan_ok_def makeChan_def closeChan_def trySend_def tryRecv_def split: if_splits list.splits)

text \<open>What a delivery leaves in a channel.\<close>

definition offered :: "BackPressurePolicy \<Rightarrow> 'a \<Rightarrow> 'a chan \<Rightarrow> 'a chan" where
  "offered p x ch =
     (if length (chBuf ch) < chCap ch then ch\<lparr>chBuf := chBuf ch @ [x]\<rparr>
      else if p = DropOldest then ch\<lparr>chBuf := tl (chBuf ch) @ [x]\<rparr> else ch)"

lemma deliverSub_chan:
  assumes "chan_ok ch"
  shows "deliverSub t p x (b, ch) = None \<longleftrightarrow> p = Block \<and> \<not> length (chBuf ch) < chCap ch"
    "deliverSub t p x (b, ch) = Some (sent, b', ch') \<Longrightarrow> ch' = offered p x ch"
proof -
  have room: "trySend x ch = Some (ch\<lparr>chBuf := chBuf ch @ [x]\<rparr>)" if "length (chBuf ch) < chCap ch"
    using that by (simp add: trySend_def)
  have full: "trySend x ch = None \<and> (\<exists>y. tryRecv ch = (Received y, ch\<lparr>chBuf := tl (chBuf ch)\<rparr>))
      \<and> trySend x (ch\<lparr>chBuf := tl (chBuf ch)\<rparr>) = Some (ch\<lparr>chBuf := tl (chBuf ch) @ [x]\<rparr>)" if "\<not> length (chBuf ch) < chCap ch"
    using that assms by (cases "chBuf ch") (auto simp: trySend_def tryRecv_def chan_ok_def)
  show "deliverSub t p x (b, ch) = None \<longleftrightarrow> p = Block \<and> \<not> length (chBuf ch) < chCap ch"
    "deliverSub t p x (b, ch) = Some (sent, b', ch') \<Longrightarrow> ch' = offered p x ch"
    using room full by (cases "length (chBuf ch) < chCap ch"; cases p; auto simp: deliverSub_def offered_def)+
qed

lemma chan_ok_offered: "chan_ok ch \<Longrightarrow> chan_ok (offered p x ch)"
  by (auto simp: chan_ok_def offered_def)

lemma sub_okI [intro]: "chan_ok (su_inProc s) \<Longrightarrow> chan_ok (su_ch s) \<Longrightarrow> (\<And>l. su_listener s = Some l \<Longrightarrow> chan_ok (l_ch l)) \<Longrightarrow> sub_ok s"
  by (simp add: sub_ok_def)

lemma chans_okD: "chans_ok w \<Longrightarrow> subscribers w i = Some s \<Longrightarrow> sub_ok s"
  by (simp add: chans_ok_def)

lemma chans_ok_upd: "chans_ok w \<Longrightarrow> sub_ok s \<Longrightarrow> subscribers w' = (subscribers w)(i \<mapsto> s) \<Longrightarrow> chans_ok w'"
  by (simp add: chans_ok_def)

lemma deliverTo_chan:
  assumes "chans_ok w" "deliverTo now t k x ss w = Some w'"
  shows "chans_ok w'" "subscribers w (ss_sub ss) = Some s \<Longrightarrow>
    \<exists>s'. subscribers w' (ss_sub ss) = Some s' \<and> su_inProc s' = (if passes ss x then offered (ss_backPressure ss) x (su_inProc s) else su_inProc s)"
proof -
  show "chans_ok w'"
    using assms(2)
  proof (cases rule: deliverTo_cases)
    case (2 s sent b ch due)
    have "sub_ok s" by (rule chans_okD[OF assms(1) 2(2)])
    then have "sub_ok (s\<lparr>su_inProc := ch, su_due := due\<rparr>)"
      using deliverSub_chan(2)[OF _ 2(3)] by (auto simp: sub_ok_def chan_ok_offered)
    then show ?thesis by (rule chans_ok_upd[OF assms(1)]) (simp add: 2(4))
  qed (use assms(1) in simp)
  show "\<exists>s'. subscribers w' (ss_sub ss) = Some s' \<and> su_inProc s' = (if passes ss x then offered (ss_backPressure ss) x (su_inProc s) else su_inProc s)"
    if "subscribers w (ss_sub ss) = Some s"
    using assms(2)
  proof (cases rule: deliverTo_cases)
    case (2 s0 sent b ch due)
    then have "chan_ok (su_inProc s)" using chans_okD[OF assms(1) that] by (simp add: sub_ok_def)
    then show ?thesis using 2 that deliverSub_chan(2)[OF _ 2(3)] by simp
  qed (use that in auto)
qed

text \<open>A delivery round offers the sample to each listed subscriber whose filters it passes, and to no other.\<close>

lemma deliverAll_exact:
  assumes "chans_ok w" "distinct (map ss_sub l)" "deliverAll now t k x l w = Some w'"
  shows "chans_ok w' \<and> (\<forall>ss s. ss \<in> set l \<longrightarrow> subscribers w (ss_sub ss) = Some s \<longrightarrow>
    (\<exists>s'. subscribers w' (ss_sub ss) = Some s'
      \<and> su_inProc s' = (if passes ss x then offered (ss_backPressure ss) x (su_inProc s) else su_inProc s)))"
  using assms
proof (induction l arbitrary: w)
  case (Cons a l)
  obtain w1 where w1: "deliverTo now t k x a w = Some w1" "deliverAll now t k x l w1 = Some w'"
    using Cons.prems(3) by (auto split: option.splits)
  note ch = deliverTo_chan[OF Cons.prems(1) w1(1)]
  have d: "distinct (map ss_sub l)" "ss_sub a \<notin> ss_sub ` set l"
    using Cons.prems(2) by simp_all
  note IH = Cons.IH[OF ch(1) d(1) w1(2)]
  show ?case
  proof (intro conjI allI impI)
    fix ss s
    assume ss: "ss \<in> set (a # l)" and s: "subscribers w (ss_sub ss) = Some s"
    show "\<exists>s'. subscribers w' (ss_sub ss) = Some s'
        \<and> su_inProc s' = (if passes ss x then offered (ss_backPressure ss) x (su_inProc s) else su_inProc s)"
    proof (cases "ss = a")
      case True
      then show ?thesis
        using ch(2) s deliverAll_frame[OF w1(2), of k "ss_sub a"] d(2) by auto
    next
      case False
      then have "ss \<in> set l" "ss_sub ss \<noteq> ss_sub a"
        using ss False d(2) by (auto simp: image_iff)
      then show ?thesis
        using IH s deliverTo_frame[OF w1(1), of k "ss_sub ss"] by simp
    qed
  qed (use IH in simp)
qed simp

lemma deliverAll_pointwise:
  assumes "chans_ok w" "distinct (map ss_sub l)" "deliverAll now t k x l w = Some w'" "subscribers w j = Some s"
  shows "if j \<in> ss_sub ` set l
    then \<exists>ss s'. ss \<in> set l \<and> ss_sub ss = j \<and> subscribers w' j = Some s'
      \<and> su_inProc s' = (if passes ss x then offered (ss_backPressure ss) x (su_inProc s) else su_inProc s)
    else subscribers w' j = Some s"
proof (cases "j \<in> ss_sub ` set l")
  case True
  then obtain ss where ss: "ss \<in> set l" "j = ss_sub ss" by blast
  with deliverAll_exact[OF assms(1-3)] assms(4) obtain s' where "subscribers w' j = Some s'"
    "su_inProc s' = (if passes ss x then offered (ss_backPressure ss) x (su_inProc s) else su_inProc s)" by blast
  then show ?thesis using True ss by auto
next
  case False
  then show ?thesis using deliverAll_frame[OF assms(3), of k j] assms(4) by simp
qed

text \<open>It blocks exactly if a blocking subscriber it would reach is full.\<close>

lemma deliverAll_blocks:
  assumes "chans_ok w" "distinct (map ss_sub l)"
  shows "deliverAll now t k x l w = None \<longleftrightarrow>
    (\<exists>ss s. ss \<in> set l \<and> passes ss x \<and> ss_backPressure ss = Block \<and> subscribers w (ss_sub ss) = Some s
      \<and> \<not> length (chBuf (su_inProc s)) < chCap (su_inProc s))"
  using assms
proof (induction l arbitrary: w)
  case (Cons a l)
  have here: "deliverTo now t k x a w = None \<longleftrightarrow> passes a x \<and> ss_backPressure a = Block
      \<and> (\<exists>s. subscribers w (ss_sub a) = Some s \<and> \<not> length (chBuf (su_inProc s)) < chCap (su_inProc s))"
  proof (cases "subscribers w (ss_sub a)")
    case (Some s)
    then have "chan_ok (su_inProc s)" using chans_okD[OF Cons.prems(1)] by (auto simp: sub_ok_def)
    then show ?thesis
      using Some deliverSub_chan(1)[of "su_inProc s" t "ss_backPressure a" x "brokers w k"]
      by (auto simp: deliverTo_def Let_def split: option.splits)
  qed (simp add: deliverTo_def)
  show ?case
  proof (cases "deliverTo now t k x a w")
    case None
    then show ?thesis using here by auto
  next
    case (Some w1)
    have "subscribers w1 (ss_sub ss) = subscribers w (ss_sub ss)" if "ss \<in> set l" for ss
      using that Cons.prems(2) deliverTo_frame[OF Some, of k "ss_sub ss"] by (metis distinct.simps(2) image_eqI list.set_map list.simps(9))
    then show ?thesis
      using Some here Cons.IH[OF deliverTo_chan(1)[OF Cons.prems(1) Some]] Cons.prems(2) by auto
  qed
qed simp

text \<open>No subscriber is listed twice among the targets of a publication, and who is listed is known.\<close>

text \<open>The package's matcher is the matcher of the RTPS participant.\<close>

lemma shmTopicMatches_eq [simp]: "shmTopicMatches u t = TopicMatches (topicString u) (topicString t)"
proof -
  have "shmMatchSegs p l = matchSlices p l" for p l
    by (induction p l rule: shmMatchSegs.induct) (auto split: list.splits)
  then show ?thesis by (simp add: shmTopicMatches_def TopicMatches_def)
qed

lemma targets_bsubs: "bsubs b = bsubs b' \<Longrightarrow> targets t b = targets t b'"
  by (simp add: targets_def)

lemma bsubs_subsOf:
  assumes "subs_wf w"
  shows "(u, l) \<in> set (bsubs (brokers w k)) \<Longrightarrow> l = subsOf u (brokers w k)"
    "subsOf u (brokers w k) = [] \<or> (u, subsOf u (brokers w k)) \<in> set (bsubs (brokers w k))"
  using subs_wfD(1)[OF assms, of k] by (auto simp: subsOf_def split: option.splits dest: map_of_SomeD)

lemma targets_set:
  assumes "subs_wf w"
  shows "ss \<in> set (targets t (brokers w k)) \<longleftrightarrow>
    (\<exists>u. (u = t \<or> TopicMatches (topicString u) (topicString t)) \<and> ss \<in> set (subsOf u (brokers w k)))"
proof -
  have "ss \<in> set (targets t (brokers w k)) \<longleftrightarrow> ss \<in> set (subsOf t (brokers w k))
      \<or> (\<exists>u l. (u, l) \<in> set (bsubs (brokers w k)) \<and> u \<noteq> t \<and> TopicMatches (topicString u) (topicString t) \<and> ss \<in> set l)"
    by (auto simp: targets_def subsOf_def split: if_splits)
  then show ?thesis
    using bsubs_subsOf(1)[OF assms] bsubs_subsOf(2)[OF assms] by (metis empty_iff list.set(1))
qed

lemma targets_mem:
  assumes "subs_wf w"
  shows "i \<in> ss_sub ` set (targets t (brokers w k)) \<longleftrightarrow>
    (\<exists>u. listing w i = Some (u, k, False) \<and> (u = t \<or> TopicMatches (topicString u) (topicString t)))"
  unfolding subs_wfD(3)[OF assms, symmetric] image_iff using targets_set[OF assms, of _ t k] by blast

lemma distinct_concat_map:
  assumes "distinct (map fst al)" "\<And>u l. (u, l) \<in> set al \<Longrightarrow> distinct (h u l)"
    "\<And>u l u' l'. (u, l) \<in> set al \<Longrightarrow> (u', l') \<in> set al \<Longrightarrow> u \<noteq> u' \<Longrightarrow> set (h u l) \<inter> set (h u' l') = {}"
  shows "distinct (concat (map (\<lambda>(u, l). h u l) al))"
  using assms
proof (induction al)
  case (Cons a al)
  obtain u l where a: "a = (u, l)" by (cases a)
  have "set (h u l) \<inter> set (concat (map (\<lambda>(u, l). h u l) al)) = {}"
    using Cons.prems(1) Cons.prems(3)[of u l] a by (fastforce simp: image_iff)
  moreover have "distinct (concat (map (\<lambda>(u, l). h u l) al))"
    using Cons.prems by (intro Cons.IH) auto
  ultimately show ?case using Cons.prems(2)[of u l] by (simp add: a)
qed simp

lemma distinct_targets:
  assumes "subs_wf w"
  shows "distinct (map ss_sub (targets t (brokers w k)))"
proof -
  let ?b = "brokers w k" and ?M = "\<lambda>u. u \<noteq> t \<and> TopicMatches (topicString u) (topicString t)"
  have disj: "set (map ss_sub (subsOf u ?b)) \<inter> set (map ss_sub (subsOf u' ?b)) = {}" if "u \<noteq> u'" for u u'
  proof -
    have "i \<notin> ss_sub ` set (subsOf u' ?b)" if "i \<in> ss_sub ` set (subsOf u ?b)" for i
      using that \<open>u \<noteq> u'\<close> unfolding subs_wfD(3)[OF assms] by simp
    then show ?thesis by auto
  qed
  have eq: "map ss_sub (targets t ?b) =
      map ss_sub (subsOf t ?b) @ concat (map (\<lambda>(u, l). if ?M u then map ss_sub l else []) (bsubs ?b))"
    by (simp add: targets_def subsOf_def map_concat o_def case_prod_unfold if_distrib[of "map ss_sub"] cong: if_cong)
  have "distinct (concat (map (\<lambda>(u, l). if ?M u then map ss_sub l else []) (bsubs ?b)))"
  proof (rule distinct_concat_map)
    show "distinct (map fst (bsubs ?b))"
      by (rule subs_wfD(1)[OF assms])
    show "distinct (if ?M u then map ss_sub l else [])" if "(u, l) \<in> set (bsubs ?b)" for u l
      using bsubs_subsOf(1)[OF assms that] subs_wfD(2)[OF assms, of u k] by simp
    show "set (if ?M u then map ss_sub l else []) \<inter> set (if ?M u' then map ss_sub l' else []) = {}"
      if "(u, l) \<in> set (bsubs ?b)" "(u', l') \<in> set (bsubs ?b)" "u \<noteq> u'" for u l u' l'
      using bsubs_subsOf(1)[OF assms that(1)] bsubs_subsOf(1)[OF assms that(2)] disj[OF that(3)] by auto
  qed
  moreover have "set (map ss_sub (subsOf t ?b)) \<inter> set (concat (map (\<lambda>(u, l). if ?M u then map ss_sub l else []) (bsubs ?b))) = {}"
    using disj[of t] bsubs_subsOf(1)[OF assms, of _ _ k] by (fastforce split: if_splits)
  ultimately show ?thesis
    unfolding eq using subs_wfD(2)[OF assms, of t k] by simp
qed

subsection \<open>Counters\<close>

definition conserved :: "shmBroker \<Rightarrow> bool" where
  "conserved b \<longleftrightarrow>
     distinct (map fst (btopicMetrics b))
     \<and> bwrites b = sum_list (map (tcWrites \<circ> snd) (btopicMetrics b))
     \<and> bdelivers b = sum_list (map (tcDelivers \<circ> snd) (btopicMetrics b))
     \<and> bdrops b = sum_list (map (tcDrops \<circ> snd) (btopicMetrics b))
     \<and> bWritten b = sum_list (map (tcBytesW \<circ> snd) (btopicMetrics b))
     \<and> bDeliv b = sum_list (map (tcBytesD \<circ> snd) (btopicMetrics b))"

lemma sum_updCounter:
  fixes g :: "shmTopicCounter \<Rightarrow> uint64"
  assumes "distinct (map fst (btopicMetrics b))" "g shmZeroCounter = 0"
  shows "sum_list (map (g \<circ> snd) (btopicMetrics (updCounter t f b)))
    = sum_list (map (g \<circ> snd) (btopicMetrics b)) + g (f (topicCounter t b)) - g (topicCounter t b)"
  using assms by (simp add: updCounter_def sum_list_alist_update topicCounter_def split: option.splits)

lemma zero_counter [simp]:
  "tcWrites shmZeroCounter = 0" "tcDelivers shmZeroCounter = 0" "tcDrops shmZeroCounter = 0" "tcBytesW shmZeroCounter = 0"
  "tcBytesD shmZeroCounter = 0"
  by (simp_all add: shmZeroCounter_def)

lemma updCounter_sel [simp]:
  "bwrites (updCounter t f b) = bwrites b" "bdelivers (updCounter t f b) = bdelivers b" "bdrops (updCounter t f b) = bdrops b"
  "bWritten (updCounter t f b) = bWritten b" "bDeliv (updCounter t f b) = bDeliv b"
  "distinct (map fst (btopicMetrics b)) \<Longrightarrow> distinct (map fst (btopicMetrics (updCounter t f b)))"
  by (simp_all add: updCounter_def distinct_update)

lemma conserved_counters:
  assumes "conserved b"
  shows "conserved (brokerWrite t n b)" "conserved (brokerDeliver t n b)" "conserved (brokerDrop t b)"
  using assms by (simp_all add: conserved_def brokerWrite_def brokerDeliver_def brokerDrop_def sum_updCounter topicCounter_def)

lemma conserved_frame:
  assumes "conserved b"
  shows "conserved (b\<lparr>blastSample := ls\<rparr>)" "conserved (addSub t ss b)" "conserved (removeSubscription t i b)"
  using assms by (simp_all add: conserved_def addSub_def removeSubscription_def split: option.splits list.splits)

lemma deliverSub_conserved: "deliverSub t p x (b, ch) = Some (sent, b', ch') \<Longrightarrow> conserved b \<Longrightarrow> conserved b'"
  by (auto simp: deliverSub_def conserved_counters Let_def
      split: BackPressurePolicy.splits option.splits prod.splits recv_result.splits)

definition all_conserved :: "world \<Rightarrow> bool" where
  "all_conserved w \<longleftrightarrow> (\<forall>k. conserved (brokers w k))"

lemma all_conservedD: "all_conserved w \<Longrightarrow> conserved (brokers w k)"
  unfolding all_conserved_def by blast

lemma all_conserved_upd: "all_conserved w \<Longrightarrow> conserved b \<Longrightarrow> brokers w' = (brokers w)(k := b) \<Longrightarrow> all_conserved w'"
  by (simp add: all_conserved_def)

lemma deliverAll_conserved:
  "deliverAll now t k x l w = Some w' \<Longrightarrow> all_conserved w \<Longrightarrow> all_conserved w'"
proof (induction l arbitrary: w)
  case (Cons ss l)
  obtain w1 where w1: "deliverTo now t k x ss w = Some w1" "deliverAll now t k x l w1 = Some w'"
    using Cons.prems(1) by (auto split: option.splits)
  have "all_conserved w1"
    using w1(1)
  proof (cases rule: deliverTo_cases)
    case (2 s sent b ch due)
    have "conserved b" by (rule deliverSub_conserved[OF 2(3) all_conservedD[OF Cons.prems(2)]])
    then show ?thesis by (rule all_conserved_upd[OF Cons.prems(2)]) (simp add: 2(4))
  qed (use Cons.prems(2) in simp)
  then show ?case by (rule Cons.IH[OF w1(2)])
qed simp

subsection \<open>Every reachable state\<close>

definition shm_inv :: "world \<Rightarrow> bool" where
  "shm_inv w \<longleftrightarrow> subs_wf w \<and> chans_ok w \<and> all_conserved w"

lemma shm_inv_init: "shm_inv initWorld"
  using subs_wf_init by (simp add: shm_inv_def chans_ok_def all_conserved_def initWorld_def conserved_def emptyBroker_def)

text \<open>Steps that touch neither subscribers nor brokers.\<close>

lemma shm_inv_frame:
  assumes "shm_inv w" "subscribers w' = subscribers w" "brokers w' = brokers w" "nextId w \<le> nextId w'"
  shows "shm_inv w'"
proof -
  have "listing w' = listing w" by (simp add: listing_def fun_eq_iff assms(2))
  then show ?thesis
    using assms subs_wf_frame[of w w'] by (simp add: shm_inv_def chans_ok_def all_conserved_def)
qed

text \<open>Steps of one subscriber that keep what decides its listing.\<close>

definition keeps :: "(shmSubscriber \<Rightarrow> shmSubscriber) \<Rightarrow> bool" where
  "keeps f \<longleftrightarrow> (\<forall>s. su_topic (f s) = su_topic s \<and> su_broker (f s) = su_broker s \<and> su_unsubscribed (f s) = su_unsubscribed s
     \<and> (sub_ok s \<longrightarrow> sub_ok (f s)))"

lemma shm_inv_updSub:
  assumes "shm_inv w" "keeps f"
  shows "shm_inv (updSub i f w)"
proof (cases "subscribers w i")
  case (Some s)
  define w' where "w' = updSub i f w"
  have w': "w' = w\<lparr>subscribers := (subscribers w)(i \<mapsto> f s)\<rparr>"
    by (simp add: w'_def updSub_def Some)
  have f: "su_topic (f s) = su_topic s" "su_broker (f s) = su_broker s" "su_unsubscribed (f s) = su_unsubscribed s"
    "sub_ok s \<Longrightarrow> sub_ok (f s)"
    using assms(2) unfolding keeps_def by blast+
  have inv: "subs_wf w" "chans_ok w" "all_conserved w"
    using assms(1) by (simp_all add: shm_inv_def)
  have "listing w' = listing w"
    unfolding w' by (rule listing_upd[OF Some f(1-3)])
  then have "subs_wf w'"
    by (rule subs_wf_frame[OF inv(1)]) (simp_all add: w')
  moreover have "chans_ok w'"
    by (rule chans_ok_upd[OF inv(2) f(4)[OF chans_okD[OF inv(2) Some]]]) (simp add: w')
  moreover have "all_conserved w'"
    using inv(3) by (simp add: all_conserved_def w')
  ultimately show ?thesis
    by (simp add: shm_inv_def w'_def)
qed (use assms(1) in \<open>simp add: updSub_def\<close>)

lemma pumpStep_cases:
  obtains "pumpStep c p s = s" | "pumpStep c p s = stopPump s"
  | x ch where "tryRecv (su_inProc s) = (Received x, ch)" "pumpStep c p s = forward p x (s\<lparr>su_inProc := ch\<rparr>)"
  | x ch l where "su_listener s = Some l" "tryRecv (l_ch l) = (Received x, ch)"
    "pumpStep c p s = forward p x (s\<lparr>su_listener := Some (l\<lparr>l_ch := ch\<rparr>)\<rparr>)"
proof (cases "su_running s")
  case True
  show ?thesis
  proof (cases c)
    case FromInProc
    obtain r ch where "tryRecv (su_inProc s) = (r, ch)" by (cases "tryRecv (su_inProc s)")
    then show ?thesis using that(1-3) True FromInProc by (cases r) (simp_all add: pumpStep_def)
  next
    case FromListener
    show ?thesis
    proof (cases "su_listener s")
      case (Some l)
      obtain r ch where "tryRecv (l_ch l) = (r, ch)" by (cases "tryRecv (l_ch l)")
      then show ?thesis using that(1,4) True FromListener Some by (cases r) (simp_all add: pumpStep_def)
    qed (use that(1) True FromListener in \<open>simp add: pumpStep_def\<close>)
  next
    case OnDone
    then show ?thesis using that(1,2) True by (cases "su_done s") (simp_all add: pumpStep_def)
  qed
qed (use that(1) in \<open>simp add: pumpStep_def\<close>)

lemma keepsI:
  assumes "\<And>s. su_topic (f s) = su_topic s \<and> su_broker (f s) = su_broker s \<and> su_unsubscribed (f s) = su_unsubscribed s"
    "\<And>s. sub_ok s \<Longrightarrow> sub_ok (f s)"
  shows "keeps f"
  using assms by (simp add: keeps_def)

lemma sub_ok_chans:
  assumes "sub_ok s"
  shows "chan_ok ch \<Longrightarrow> sub_ok (s\<lparr>su_inProc := ch\<rparr>)" "chan_ok ch \<Longrightarrow> sub_ok (s\<lparr>su_ch := ch\<rparr>)"
    "chan_ok (l_ch l) \<Longrightarrow> sub_ok (s\<lparr>su_listener := Some l\<rparr>)" "sub_ok (stopPump s)" "sub_ok (startPump s)"
    "sub_ok (resetSubDeadline now s)" "sub_ok (s\<lparr>su_due := due\<rparr>)"
  using assms chan_ok_ops(2)[of "su_ch s"]
  by (simp_all add: sub_ok_def stopPump_def startPump_def resetSubDeadline_def split: option.split)

lemma forward_keeps:
  "su_topic (forward p x s) = su_topic s \<and> su_broker (forward p x s) = su_broker s \<and> su_unsubscribed (forward p x s) = su_unsubscribed s"
  "sub_ok s \<Longrightarrow> sub_ok (forward p x s)"
proof -
  show "su_topic (forward p x s) = su_topic s \<and> su_broker (forward p x s) = su_broker s \<and> su_unsubscribed (forward p x s) = su_unsubscribed s"
    by (simp add: forward_def stopPump_def split: option.split)
  assume s: "sub_ok s"
  then have "chan_ok ch" if "trySend x (su_ch s) = Some ch" for ch
    using that chan_ok_ops(3) by (auto simp: sub_ok_def)
  then show "sub_ok (forward p x s)"
    using sub_ok_chans(2,4)[OF s] s by (simp add: forward_def split: option.split)
qed

lemma keeps_pump: "keeps (pumpStep c p)"
proof (rule keepsI)
  fix s
  show "su_topic (pumpStep c p s) = su_topic s \<and> su_broker (pumpStep c p s) = su_broker s
      \<and> su_unsubscribed (pumpStep c p s) = su_unsubscribed s"
    by (rule pumpStep_cases[of c p s]) (simp_all add: forward_keeps(1) stopPump_def)
  assume s: "sub_ok s"
  show "sub_ok (pumpStep c p s)"
  proof (rule pumpStep_cases[of c p s])
    fix x ch
    assume r: "tryRecv (su_inProc s) = (Received x, ch)" and e: "pumpStep c p s = forward p x (s\<lparr>su_inProc := ch\<rparr>)"
    have "chan_ok ch" using s chan_ok_ops(4)[OF _ r] by (simp add: sub_ok_def)
    then show ?thesis unfolding e by (rule forward_keeps(2)[OF sub_ok_chans(1)[OF s]])
  next
    fix x ch l
    assume l: "su_listener s = Some l" and r: "tryRecv (l_ch l) = (Received x, ch)"
      and e: "pumpStep c p s = forward p x (s\<lparr>su_listener := Some (l\<lparr>l_ch := ch\<rparr>)\<rparr>)"
    have "chan_ok ch" using s l chan_ok_ops(4)[OF _ r] by (simp add: sub_ok_def)
    then show ?thesis unfolding e by (intro forward_keeps(2) sub_ok_chans(3)[OF s]) simp
  qed (use s sub_ok_chans(4)[OF s] in simp_all)
qed

lemma startPump_sel [simp]:
  "su_topic (startPump s) = su_topic s" "su_broker (startPump s) = su_broker s" "su_unsubscribed (startPump s) = su_unsubscribed s"
  "su_ch (startPump s) = su_ch s"
  by (simp_all add: startPump_def)

lemma shmTryRead_cases:
  obtains "snd (shmTryRead s) = startPump s"
  | x ch where "tryRecv (su_ch s) = (Received x, ch)" "snd (shmTryRead s) = (startPump s)\<lparr>su_ch := ch\<rparr>"
proof -
  obtain r ch where "tryRecv (su_ch s) = (r, ch)" by (cases "tryRecv (su_ch s)")
  then show ?thesis using that by (cases r) (simp_all add: shmTryRead_def)
qed

lemma deadlineFires_cases:
  obtains "deadlineFires now s = s" | due where "deadlineFires now s = s\<lparr>su_due := due\<rparr>"
proof (cases "\<exists>d e. su_due s = Some d \<and> d \<le> now \<and> su_deadline s = Some e")
  case True
  then obtain d e where "su_due s = Some d" "d \<le> now" "su_deadline s = Some e" by blast
  then have "deadlineFires now s = s\<lparr>su_due := Some (now + e)\<rparr>"
    by (simp add: deadlineFires_def resetSubDeadline_def)
  then show ?thesis by (rule that(2))
next
  case False
  then have "deadlineFires now s = s"
    by (cases "su_due s"; cases "su_deadline s") (simp_all add: deadlineFires_def resetSubDeadline_def)
  then show ?thesis by (rule that(1))
qed

lemma keeps_steps: "keeps startPump" "keeps (deadlineFires now)" "keeps (\<lambda>s. snd (shmTryRead s))"
proof -
  show "keeps startPump"
    by (rule keepsI) (simp_all add: sub_ok_chans(5))
  show "keeps (deadlineFires now)"
  proof (rule keepsI)
    fix s
    show "su_topic (deadlineFires now s) = su_topic s \<and> su_broker (deadlineFires now s) = su_broker s
        \<and> su_unsubscribed (deadlineFires now s) = su_unsubscribed s"
      by (rule deadlineFires_cases[of now s]) simp_all
    show "sub_ok (deadlineFires now s)" if "sub_ok s"
      by (rule deadlineFires_cases[of now s]) (simp_all add: that sub_ok_chans(7)[OF that])
  qed
  show "keeps (\<lambda>s. snd (shmTryRead s))"
  proof (rule keepsI)
    fix s
    show "su_topic (snd (shmTryRead s)) = su_topic s \<and> su_broker (snd (shmTryRead s)) = su_broker s
        \<and> su_unsubscribed (snd (shmTryRead s)) = su_unsubscribed s"
      by (rule shmTryRead_cases[of s]) simp_all
    assume s: "sub_ok s"
    then have c: "chan_ok (su_ch s)" by (simp add: sub_ok_def)
    show "sub_ok (snd (shmTryRead s))"
    proof (rule shmTryRead_cases[of s])
      fix x ch
      assume r: "tryRecv (su_ch s) = (Received x, ch)" and e: "snd (shmTryRead s) = (startPump s)\<lparr>su_ch := ch\<rparr>"
      show ?thesis unfolding e by (rule sub_ok_chans(2)[OF sub_ok_chans(5)[OF s] chan_ok_ops(4)[OF c r]])
    qed (simp add: sub_ok_chans(5)[OF s])
  qed
qed

text \<open>The listener, the tasks and the calls.\<close>

lemma listenerTurn_ok: "chan_ok (l_ch l) \<Longrightarrow> chan_ok (l_ch (listenerTurn now t f l))"
proof -
  assume l: "chan_ok (l_ch l)"
  have "chan_ok ch" if "trySend x (l_ch l) = Some ch" for x ch
    by (rule chan_ok_ops(3)[OF l that])
  then show ?thesis
    using l chan_ok_ops(2)[OF l] by (simp add: listenerTurn_def Let_def split: option.split)
qed

lemma keeps_listener:
  assumes "\<And>s l. chan_ok (l_ch l) \<Longrightarrow> chan_ok (l_ch (g s l))"
  shows "keeps (\<lambda>s. s\<lparr>su_listener := map_option (g s) (su_listener s)\<rparr>)"
proof (rule keepsI)
  fix s
  assume "sub_ok s"
  then show "sub_ok (s\<lparr>su_listener := map_option (g s) (su_listener s)\<rparr>)"
    using assms by (cases "su_listener s") (simp_all add: sub_ok_def)
qed simp

lemma shm_inv_task:
  assumes "shm_inv w"
  shows "shm_inv (runTask ok n w)"
proof (cases "n < length (tasks w)")
  case True
  define t where "t = tasks w ! n"
  have "shm_inv (snd (taskStep ok t w))"
  proof (cases "t_step t")
    case Notify
    have "keeps (\<lambda>s. s\<lparr>su_listener := map_option (\<lambda>l. l\<lparr>l_notes := l_notes l + 1\<rparr>) (su_listener s)\<rparr>)"
      by (rule keeps_listener) simp
    then show ?thesis
      using shm_inv_updSub[OF assms] assms by (simp add: taskStep_def Notify split: option.split)
  qed (simp_all add: taskStep_def Let_def shm_inv_frame[OF assms])
  then show ?thesis
    using shm_inv_frame[of "snd (taskStep ok t w)"] True
    by (simp add: runTask_def t_def[symmetric] case_prod_beta split: option.split)
qed (simp add: runTask_def assms)

lemma noteWrite_frame: "bsubs (noteWrite t x qos b) = bsubs b" "conserved b \<Longrightarrow> conserved (noteWrite t x qos b)"
  using conserved_counters(1) conserved_frame(1) by (auto simp: noteWrite_def Let_def)

lemma shm_inv_publish:
  assumes "shm_inv w" "publish now t sl qos n g k w = Some w'"
  shows "shm_inv w'"
proof -
  have inv: "subs_wf w" "chans_ok w" "all_conserved w"
    using assms(1) by (simp_all add: shm_inv_def)
  define x where "x = shmSample now t (sliceBytes w sl) n g"
  define b where "b = noteWrite t x qos (brokers w k)"
  obtain w2 where w2: "deliverAll now t k x (targets t b) (w\<lparr>brokers := (brokers w)(k := b)\<rparr>) = Some w2" "w' = addTask t sl w2"
    using assms(2) by (auto simp: publish_def Let_def x_def b_def)
  have b: "bsubs b = bsubs (brokers w k)" "conserved b"
    using noteWrite_frame all_conservedD[OF inv(3)] by (simp_all add: b_def)
  have "all_conserved w2"
    by (rule deliverAll_conserved[OF w2(1)]) (rule all_conserved_upd[OF inv(3) b(2)], simp)
  moreover have "chans_ok w2"
  proof (rule conjunct1[OF deliverAll_exact[OF _ _ w2(1)]])
    show "chans_ok (w\<lparr>brokers := (brokers w)(k := b)\<rparr>)" using inv(2) by (simp add: chans_ok_def)
    show "distinct (map ss_sub (targets t b))" using distinct_targets[OF inv(1)] targets_bsubs[OF b(1)] by simp
  qed
  moreover have "subs_wf w2"
    by (rule subs_wf_frame[OF inv(1)]) (use deliverAll_frame[OF w2(1)] b(1) in simp_all)
  ultimately have "shm_inv w2" by (simp add: shm_inv_def)
  then show ?thesis by (rule shm_inv_frame) (simp_all add: w2(2) addTask_def)
qed

lemma shmWrite_cases:
  assumes "shmWrite now i sl w = Some (e, w')"
  obtains "w' = w" "e \<noteq> None"
  | p where "publishers w i = Some p" "\<not> sp_closed p" "e = None"
    "publish now (sp_topic p) sl (sp_qos p) (sp_seqNum p + 1) (sp_guid p) (sp_broker p)
       (w\<lparr>publishers := (publishers w)(i \<mapsto> p\<lparr>sp_seqNum := sp_seqNum p + 1\<rparr>)\<rparr>) = Some w'"
  using assms by (auto simp: shmWrite_def Let_def split: option.splits if_splits)

lemma shm_inv_write:
  assumes "shm_inv w" "shmWrite now i sl w = Some (e, w')"
  shows "shm_inv w'"
  using assms(2)
proof (cases rule: shmWrite_cases)
  case (2 p)
  have "shm_inv (w\<lparr>publishers := (publishers w)(i \<mapsto> p\<lparr>sp_seqNum := sp_seqNum p + 1\<rparr>)\<rparr>)"
    by (rule shm_inv_frame[OF assms(1)]) simp_all
  then show ?thesis using 2(4) by (rule shm_inv_publish)
qed (use assms(1) in simp)

lemma ChanDepth_pos: "0 < nat (ChanDepth c 64)"
  by (simp add: ChanDepth_def)

lemma primeChan_ok: "chan_ok ch \<Longrightarrow> chan_ok (primeChan d ss x ch)"
  using chan_ok_ops(3)[of ch] by (simp add: primeChan_def split: option.split)

lemma shm_inv_newSubscriber:
  assumes "shm_inv w"
  shows "shm_inv (snd (newSubscriberLocked ok now t qos opts cf k w))"
proof -
  define w' where "w' = snd (newSubscriberLocked ok now t qos opts cf k w)"
  have inv: "subs_wf w" "chans_ok w" "all_conserved w"
    using assms by (simp_all add: shm_inv_def)
  let ?mk = "makeChan (nat (ChanDepth (ApplySubscriberOpts opts) 64)) :: Sample chan"
  obtain ss s where b: "brokers w' = (brokers w)(k := addSub t ss (brokers w k))"
    and sb: "subscribers w' = (subscribers w)(nextId w \<mapsto> s)"
    and s: "su_inProc s = primeChan (Durability qos) ss (blastSample (brokers w k) t) ?mk" "su_ch s = ?mk"
      "su_listener s = None \<or> (\<exists>l. su_listener s = Some l \<and> l_ch l = ?mk)"
    unfolding w'_def by (rule newSubscriberLocked_world)
  have "chan_ok ?mk" by (rule chan_ok_ops(1)[OF ChanDepth_pos])
  then have "sub_ok s" using s primeChan_ok[of ?mk] by (auto simp: sub_ok_def)
  then have "chans_ok w'" by (rule chans_ok_upd[OF inv(2) _ sb])
  moreover have "all_conserved w'"
    by (rule all_conserved_upd[OF inv(3) conserved_frame(2)[OF all_conservedD[OF inv(3)]] b])
  ultimately show ?thesis
    using subs_wf_new[OF inv(1), of ok now t qos opts cf k] by (simp add: shm_inv_def w'_def)
qed

lemma shm_inv_unsubscribe:
  assumes "shm_inv w"
  shows "shm_inv (shmUnsubscribe i w)"
proof -
  have inv: "subs_wf w" "chans_ok w" "all_conserved w"
    using assms by (simp_all add: shm_inv_def)
  have "chans_ok (shmUnsubscribe i w) \<and> all_conserved (shmUnsubscribe i w)"
  proof (cases "subscribers w i")
    case (Some s)
    have "sub_ok (s\<lparr>su_unsubscribed := True, su_due := None\<rparr>)"
      using chans_okD[OF inv(2) Some] by (simp add: sub_ok_def)
    then have "chans_ok (w\<lparr>subscribers := (subscribers w)(i \<mapsto> s\<lparr>su_unsubscribed := True, su_due := None\<rparr>), brokers := b\<rparr>)" for b
      by (rule chans_ok_upd[OF inv(2)]) simp
    moreover have "all_conserved (w\<lparr>subscribers := x, brokers := (brokers w)(k := removeSubscription t i (brokers w k))\<rparr>)" for x k t
      by (rule all_conserved_upd[OF inv(3) conserved_frame(3)[OF all_conservedD[OF inv(3)]]]) simp
    ultimately show ?thesis
      using inv(2,3) by (simp add: shmUnsubscribe_def Some)
  qed (simp add: shmUnsubscribe_def inv)
  then show ?thesis using subs_wf_unsubscribe[OF inv(1)] by (simp add: shm_inv_def)
qed

lemma shm_inv_close:
  assumes "shm_inv w"
  shows "shm_inv (shmSubClose i w)"
proof -
  define w1 where "w1 = shmUnsubscribe i w"
  have w1: "shm_inv w1" unfolding w1_def by (rule shm_inv_unsubscribe[OF assms])
  define cl where "cl = (\<lambda>s :: shmSubscriber. s\<lparr>su_closed := True, su_due := None, su_done := True, su_inProc := closeChan (su_inProc s),
      su_listener := map_option (\<lambda>l. l\<lparr>l_done := True\<rparr>) (su_listener s)\<rparr>)"
  have "keeps cl"
  proof (rule keepsI)
    fix s
    assume "sub_ok s"
    then show "sub_ok (cl s)"
      using chan_ok_ops(2)[of "su_inProc s"] by (auto simp: cl_def sub_ok_def)
  qed (simp add: cl_def)
  then have "shm_inv (updSub i cl w1)" by (rule shm_inv_updSub[OF w1])
  then have "shm_inv ((updSub i cl w1)\<lparr>sockets := ks\<rparr>)" for ks
    by (rule shm_inv_frame) simp_all
  moreover have "shmSubClose i w = w1 \<or> (\<exists>ks. shmSubClose i w = (updSub i cl w1)\<lparr>sockets := ks\<rparr>)"
  proof (cases "subscribers w1 i")
    case (Some s)
    show ?thesis
    proof (cases "su_closed s")
      case False
      have "shmSubClose i w = (updSub i cl w1)\<lparr>sockets := (if su_listener s = None then sockets w1
          else (sockets w1)(shmSocketPath (su_topic s) := None))\<rparr>"
        unfolding shmSubClose_def w1_def[symmetric] Let_def by (simp add: Some False updSub_def cl_def)
      then show ?thesis by blast
    qed (simp add: shmSubClose_def w1_def[symmetric] Some)
  qed (simp add: shmSubClose_def w1_def[symmetric])
  ultimately show ?thesis using w1 by auto
qed

lemma shm_inv_step: "shm_step w w' \<Longrightarrow> shm_inv w \<Longrightarrow> shm_inv w'"
proof (induction rule: shm_step.induct)
  case (new_participant w process d)
  then show ?case by (simp add: shmNew_def shm_inv_frame split: option.split)
next
  case (new_publisher w now pid t qos)
  then show ?case by (simp add: shmNewPublisher_def shm_inv_frame split: option.split)
next
  case (new_subscriber w ok now pid t qos opts)
  then show ?case
    using shm_inv_newSubscriber by (simp add: shmNewSubscriber_def case_prod_beta split: option.split)
next
  case (new_filtered w pf unmarshal ok now pid t expr params qos opts)
  then show ?case
    using shm_inv_newSubscriber by (simp add: shmNewFilteredSubscriber_def case_prod_beta split: option.split sum.split)
next
  case (write_sample now i sl w e w')
  then show ?case by (metis shm_inv_write)
next
  case (listener w now i)
  have "keeps (\<lambda>s. s\<lparr>su_listener := map_option (listenerTurn now (su_topic s) (files w (shmDataPath (su_topic s)))) (su_listener s)\<rparr>)"
    by (rule keeps_listener) (rule listenerTurn_ok)
  then show ?case unfolding listenerStep_def by (rule shm_inv_updSub[OF listener])
next
  case (close_publisher w i)
  then show ?case by (simp add: shmPubClose_def shm_inv_frame split: option.split)
next
  case (close_participant w pid)
  then show ?case by (simp add: shmClose_def shm_inv_frame split: option.split)
next
  case (memory w a bs)
  then show ?case by (rule shm_inv_frame) simp_all
qed (simp_all add: shm_inv_task shm_inv_updSub keeps_pump keeps_steps shm_inv_unsubscribe shm_inv_close)

lemma shm_reach_inv: "shm_reach w \<Longrightarrow> shm_inv w"
  by (induction rule: shm_reach.induct) (auto simp: shm_inv_init intro: shm_inv_step)

section \<open>What a publication does\<close>


lemma shmWrite_publish:
  assumes "publishers w i = Some p" "\<not> sp_closed p"
    "MaxSampleSize (sp_qos p) \<le> 0 \<or> int (length (sliceBytes w sl)) \<le> MaxSampleSize (sp_qos p)"
  shows "shmWrite now i sl w = map_option (\<lambda>w'. (None, w'))
    (publish now (sp_topic p) sl (sp_qos p) (sp_seqNum p + 1) (sp_guid p) (sp_broker p)
       (w\<lparr>publishers := (publishers w)(i \<mapsto> p\<lparr>sp_seqNum := sp_seqNum p + 1\<rparr>)\<rparr>))"
  using assms by (auto simp: shmWrite_def Let_def)

lemma publish_deliverAll:
  assumes "x = shmSample now t (sliceBytes w sl) n g" "b = noteWrite t x qos (brokers w k)"
  shows "publish now t sl qos n g k w =
    map_option (addTask t sl) (deliverAll now t k x (targets t (brokers w k)) (w\<lparr>brokers := (brokers w)(k := b)\<rparr>))"
  using assms noteWrite_frame(1)[of t x qos "brokers w k"] targets_bsubs[of b "brokers w k" t] by (simp add: publish_def Let_def)

text \<open>
  C4: in every reachable state, a write offers its sample to exactly the subscribers of the same
  process and domain that are still subscribed and whose topic is the publisher's or a pattern that
  matches it: the channel of such a subscriber changes as its back-pressure policy says if the
  sample passes both filters, every other subscriber is left as it is, and one goroutine is started
  for the other processes. The call blocks exactly if a subscriber that it reaches blocks and is full.
\<close>

theorem shm_publish_exact:
  assumes "shm_reach w" and "publishers w i = Some p" and "\<not> sp_closed p"
    and "MaxSampleSize (sp_qos p) \<le> 0 \<or> int (length (sliceBytes w sl)) \<le> MaxSampleSize (sp_qos p)"
    and "x = shmSample now (sp_topic p) (sliceBytes w sl) (sp_seqNum p + 1) (sp_guid p)"
    and "l = targets (sp_topic p) (brokers w (sp_broker p))"
  shows "(shmWrite now i sl w = None \<longleftrightarrow>
      (\<exists>ss s. ss \<in> set l \<and> passes ss x \<and> ss_backPressure ss = Block \<and> subscribers w (ss_sub ss) = Some s
        \<and> \<not> length (chBuf (su_inProc s)) < chCap (su_inProc s)))
    \<and> (\<forall>e w'. shmWrite now i sl w = Some (e, w') \<longrightarrow> e = None
        \<and> tasks w' = tasks w @ [\<lparr>t_topic = sp_topic p, t_slice = sl, t_step = CreateFile\<rparr>]
        \<and> (\<forall>j s. subscribers w j = Some s \<longrightarrow>
             (if su_broker s = sp_broker p \<and> \<not> su_unsubscribed s
                 \<and> (su_topic s = sp_topic p \<or> TopicMatches (topicString (su_topic s)) (topicString (sp_topic p)))
              then \<exists>ss s'. ss \<in> set l \<and> ss_sub ss = j \<and> subscribers w' j = Some s'
                \<and> su_inProc s' = (if passes ss x then offered (ss_backPressure ss) x (su_inProc s) else su_inProc s)
              else subscribers w' j = Some s)))"
proof -
  define w1 where "w1 = w\<lparr>publishers := (publishers w)(i \<mapsto> p\<lparr>sp_seqNum := sp_seqNum p + 1\<rparr>)\<rparr>"
  let ?k = "sp_broker p" and ?t = "sp_topic p"
  define w2 where "w2 = w1\<lparr>brokers := (brokers w1)(?k := noteWrite ?t x (sp_qos p) (brokers w1 ?k))\<rparr>"
  have same: "subscribers w2 = subscribers w" "sliceBytes w1 sl = sliceBytes w sl" "brokers w1 = brokers w" "tasks w2 = tasks w"
    by (simp_all add: w1_def w2_def sliceBytes_def)
  have run: "shmWrite now i sl w = map_option (\<lambda>w'. (None, addTask ?t sl w')) (deliverAll now ?t ?k x l w2)"
    unfolding shmWrite_publish[OF assms(2-4)] w1_def[symmetric]
    by (subst publish_deliverAll[of x]) (simp_all add: assms(5,6) same w2_def option.map_comp o_def)
  have inv: "subs_wf w" "chans_ok w2"
    using shm_reach_inv[OF assms(1)] by (simp_all add: shm_inv_def chans_ok_def same)
  have d: "distinct (map ss_sub l)"
    unfolding assms(6) by (rule distinct_targets[OF inv(1)])
  have listed: "j \<in> ss_sub ` set l \<longleftrightarrow> su_broker s = ?k \<and> \<not> su_unsubscribed s
      \<and> (su_topic s = ?t \<or> TopicMatches (topicString (su_topic s)) (topicString ?t))" if "subscribers w j = Some s" for j s
    unfolding assms(6) targets_mem[OF inv(1)] using that by (auto simp: listing_def)
  have blocks: "shmWrite now i sl w = None \<longleftrightarrow> (\<exists>ss s. ss \<in> set l \<and> passes ss x \<and> ss_backPressure ss = Block
      \<and> subscribers w (ss_sub ss) = Some s \<and> \<not> length (chBuf (su_inProc s)) < chCap (su_inProc s))"
    using deliverAll_blocks[OF inv(2) d, of now ?t ?k x] by (simp add: run same)
  show ?thesis
  proof (intro conjI allI impI blocks)
    fix e w'
    assume "shmWrite now i sl w = Some (e, w')"
    then obtain w3 where w3: "deliverAll now ?t ?k x l w2 = Some w3" "w' = addTask ?t sl w3" and e: "e = None"
      using run by auto
    show "e = None" by (rule e)
    show "tasks w' = tasks w @ [\<lparr>t_topic = ?t, t_slice = sl, t_step = CreateFile\<rparr>]"
      using deliverAll_frame[OF w3(1)] by (simp add: w3(2) addTask_def same)
    fix j s
    assume j: "subscribers w j = Some s"
    have sub: "subscribers w' = subscribers w3" by (simp add: w3(2) addTask_def)
    show "if su_broker s = ?k \<and> \<not> su_unsubscribed s \<and> (su_topic s = ?t \<or> TopicMatches (topicString (su_topic s)) (topicString ?t))
      then \<exists>ss s'. ss \<in> set l \<and> ss_sub ss = j \<and> subscribers w' j = Some s'
        \<and> su_inProc s' = (if passes ss x then offered (ss_backPressure ss) x (su_inProc s) else su_inProc s)
      else subscribers w' j = Some s"
      unfolding sub listed[OF j, symmetric] by (rule deliverAll_pointwise[OF inv(2) d w3(1)]) (simp add: same j)
  qed
qed

text \<open>A process with a publisher and a subscriber of a topic.\<close>

definition shmEx :: world where
  "shmEx =
     (let w = snd (shmNewSubscriber True 0 0 [97] DefaultQoS []
            (snd (shmNewPublisher 0 0 [97] DefaultQoS (snd (shmNew 0 0 initWorld)))))
      in w\<lparr>mem := (mem w)(0 := [7, 8, 9])\<rparr>)"

lemma shmEx_reach: "shm_reach shmEx"
  unfolding shmEx_def Let_def
  by (rule shm_reach.step[OF _ shm_step.memory], rule shm_reach.step[OF _ shm_step.new_subscriber],
      rule shm_reach.step[OF _ shm_step.new_publisher], rule shm_reach.step[OF shm_reach.init shm_step.new_participant])

lemma shmEx_state:
  "publishers shmEx 1 = Some \<lparr>sp_topic = [97], sp_qos = DefaultQoS, sp_broker = (0, 0), sp_closed = False, sp_seqNum = 0,
      sp_guid = shmNewGUID 0\<rparr>"
  "subscribers shmEx 2 = Some \<lparr>su_topic = [97], su_broker = (0, 0), su_inProc = makeChan 64,
      su_listener = Some \<lparr>l_filter = None, l_contentFilter = None, l_ch = makeChan 64, l_notes = 0, l_done = False, l_running = True\<rparr>,
      su_ch = makeChan 64, su_done = False, su_started = False, su_running = False, su_unsubscribed = False,
      su_closed = False, su_deadline = None, su_due = None\<rparr>"
  "targets [97] (brokers shmEx (0, 0)) = [\<lparr>ss_sub = 2, ss_filter = None, ss_backPressure = DropNewest, ss_contentFilter = None\<rparr>]"
  "tasks shmEx = []" "mem shmEx 0 = [7, 8, 9]" "sockets shmEx (shmSocketPath [97]) = Some 2"
  by (simp_all add: shmEx_def shmNew_def shmNewPublisher_def shmNewSubscriber_def newSubscriberLocked_def ValidateDomain_def
      newShmListener_def initWorld_def emptyBroker_def ApplySubscriberOpts_def ChanDepth_def primeChan_def addSub_def
      targets_def DefaultQoS_def Let_def)

theorem shm_publish_exact_witness:
  "\<exists>w' s. shmWrite 5 1 (0, 2) shmEx = Some (None, w') \<and> length (tasks w') = 1 \<and> subscribers w' 2 = Some s
     \<and> map Payload (chBuf (su_inProc s)) = [[7, 8]]"
proof -
  note ex = shm_publish_exact[OF shmEx_reach shmEx_state(1) _ _ refl refl, where sl = "(0, 2)" and now = 5]
  have "shmWrite 5 1 (0, 2) shmEx \<noteq> None"
    using ex by (simp add: shmEx_state DefaultQoS_def)
  then obtain e w' where w': "shmWrite 5 1 (0, 2) shmEx = Some (e, w')"
    by auto
  note now = ex[THEN conjunct2, rule_format, OF _ _ w']
  have "e = None" "length (tasks w') = 1"
    using now by (simp_all add: shmEx_state DefaultQoS_def)
  moreover have "\<exists>s. subscribers w' 2 = Some s \<and> map Payload (chBuf (su_inProc s)) = [[7, 8]]"
    using now[THEN conjunct2, THEN conjunct2, rule_format, OF _ _ shmEx_state(2)]
    by (auto simp: shmEx_state DefaultQoS_def passes_def offered_def makeChan_def shmSample_def sliceBytes_def)
  ultimately show ?thesis using w' by auto
qed


section \<open>Through the file\<close>

lemma lenPrefix_simps: "length (lenPrefix n) = 4" "n < 2 ^ 32 \<Longrightarrow> unat (Uint32 (lenPrefix n @ bs)) = n"
  by (simp_all add: lenPrefix_def unat_of_nat32)

lemma readData_written:
  assumes "length bs = n" "n < 2 ^ 32"
  shows "readData (Some (lenPrefix n @ bs)) = (if n \<le> maxPayload then Some bs else None)"
  using assms lenPrefix_simps by (simp add: readData_def Let_def)

lemma writeAt_new: "writeAt 0 bs [] = bs" "length f = 4 \<Longrightarrow> writeAt 4 bs f = f @ bs"
  by (simp_all add: writeAt_def)

lemma shm_file_written:
  assumes "n < length (tasks w)" and "tasks w ! n = \<lparr>t_topic = t, t_slice = (a, m), t_step = CreateFile\<rparr>"
    and "m \<le> length (mem w a)" and "m < 2 ^ 32"
  shows "readData (files (runTask c n (runTask b n (runTask True n w))) (shmDataPath t))
    = (if m \<le> maxPayload then Some (take m (mem w a)) else None)"
proof -
  let ?p = "shmDataPath t"
  define w1 where "w1 = runTask True n w"
  have 1: "tasks w1 = (tasks w)[n := \<lparr>t_topic = t, t_slice = (a, m), t_step = WriteLen\<rparr>]" "files w1 ?p = Some []" "mem w1 = mem w"
    using assms(1,2) by (simp_all add: w1_def runTask_def taskStep_def)
  define w2 where "w2 = runTask b n w1"
  have 2: "tasks w2 = (tasks w)[n := \<lparr>t_topic = t, t_slice = (a, m), t_step = WriteBody\<rparr>]" "files w2 ?p = Some (lenPrefix m)" "mem w2 = mem w"
    using assms(1) 1 by (simp_all add: w2_def runTask_def taskStep_def writeAt_new)
  have "files (runTask c n w2) ?p = Some (lenPrefix m @ take m (mem w a))"
    using assms(1) 2 lenPrefix_simps(1)[of m] by (simp add: runTask_def taskStep_def writeAt_new sliceBytes_def)
  then show ?thesis
    using readData_written[of "take m (mem w a)" m] assms(3,4) by (simp add: w1_def w2_def)
qed

text \<open>
  C18: a goroutine that is not interrupted leaves a file from which a listener reads the payload,
  provided it has at most 16 MiB (larger samples never reach another process). But it is what the
  publisher's buffer holds when the goroutine runs, not what it held when \<^verbatim>\<open>Write\<close> was called: \<open>w\<close> is
  the later state.
\<close>

theorem shm_file_roundtrip:
  assumes "n < length (tasks w)" and "tasks w ! n = \<lparr>t_topic = t, t_slice = (a, m), t_step = CreateFile\<rparr>"
    and "m \<le> length (mem w a)" and "m < 2 ^ 32"
  shows "readData (files (runTask c n (runTask b n (runTask True n w))) (shmDataPath t))
    = (if m \<le> maxPayload then Some (take m (mem w a)) else None)"
  by (rule shm_file_written[OF assms])

theorem shm_file_roundtrip_witness:
  "readData (files (runTask True 0 (runTask True 0 (runTask True 0
      (initWorld\<lparr>mem := (\<lambda>_. [7, 8, 9]), tasks := [\<lparr>t_topic = [97], t_slice = (3, 2), t_step = CreateFile\<rparr>]\<rparr>)))) (shmDataPath [97]))
    = Some [7, 8]"
  using shm_file_roundtrip[of 0 "initWorld\<lparr>mem := (\<lambda>_. [7, 8, 9]), tasks := [\<lparr>t_topic = [97], t_slice = (3, 2), t_step = CreateFile\<rparr>]\<rparr>" "[97]" 3 2 True True]
  by (simp add: maxPayload_def)

text \<open>Two goroutines of one topic that interleave can leave a payload that nobody published.\<close>

definition tornTasks :: "shmTask list" where
  "tornTasks = [\<lparr>t_topic = [97], t_slice = (0, 2), t_step = CreateFile\<rparr>, \<lparr>t_topic = [97], t_slice = (1, 3), t_step = CreateFile\<rparr>]"

lemma torn_payload:
  defines "w0 \<equiv> initWorld\<lparr>mem := (\<lambda>a. if a = 0 then [1, 1] else [2, 2, 2]), tasks := tornTasks\<rparr>"
  shows "readData (files (fold (runTask True) [0, 0, 1, 1, 1, 0] w0) (shmDataPath [97])) = Some [1, 1, 2]"
proof -
  have "lenPrefix 3 = [3, 0, 0, 0]" "lenPrefix 2 = [2, 0, 0, 0]" by code_simp+
  then have "files (fold (runTask True) [0, 0, 1, 1, 1, 0] w0) (shmDataPath [97]) = Some [3, 0, 0, 0, 1, 1, 2]"
    by (simp add: w0_def tornTasks_def runTask_def taskStep_def writeAt_def sliceBytes_def numeral_eq_Suc)
  then show ?thesis by (simp add: readData_def maxPayload_def Uint32_def)
qed

text \<open>
  A loaned buffer is lent again while its first sample still waits to be written to the file: the
  other processes see the second payload under the first notification.
\<close>

lemma loan_overwrites:
  defines "lp \<equiv> \<lparr>sl_pub = 1, sl_held = [], sl_size = 3\<rparr>"
  assumes "shmCommit 5 (0, 2) lp shmEx = Some (e, lp1, w1)"
  assumes "shmLoan (Some 0) 2 lp1 w1 = Some (Inr sl, lp2, w2)"
  shows "sl = (0, 2)"
    "readData (files (fold (runTask True) [0, 0, 0] (w2\<lparr>mem := (mem w2)(fst sl := [1, 2, 3])\<rparr>)) (shmDataPath [97])) = Some [1, 2]"
proof -
  have m: "mem w1 = mem shmEx" "length (tasks w1) = 1" "tasks w1 ! 0 = \<lparr>t_topic = [97], t_slice = (0, 2), t_step = CreateFile\<rparr>"
      "lp1 = lp\<lparr>sl_held := [0]\<rparr>" "publishers w1 1 \<noteq> None" "\<not> sp_closed (the (publishers w1 1))"
    using assms(2)
    by (auto simp: lp_def shmCommit_def shmPutBuf_def shmWrite_def shmEx_state publish_deliverAll[OF refl refl] DefaultQoS_def
        sliceBytes_def deliverTo_def passes_def deliverSub_def trySend_def makeChan_def addTask_def Let_def shmEx_state(1)[unfolded One_nat_def])
  have "shmLoan (Some 0) 2 lp1 w1 = Some (Inr (0, 2), lp1\<lparr>sl_held := []\<rparr>, w1)"
    using m by (auto simp: shmLoan_def shmGetBuf_def lp_def shmEx_state Let_def)
  then have 2: "sl = (0, 2)" "w2 = w1" using assms(3) by simp_all
  then show "sl = (0, 2)" by simp
  show "readData (files (fold (runTask True) [0, 0, 0] (w2\<lparr>mem := (mem w2)(fst sl := [1, 2, 3])\<rparr>)) (shmDataPath [97])) = Some [1, 2]"
    using shm_file_written[of 0 "w2\<lparr>mem := (mem w2)(0 := [1, 2, 3])\<rparr>" "[97]" 0 2 True True] m 2 by (simp add: maxPayload_def)
qed

text \<open>
  A subscriber of the publisher's own process that holds the topic's socket gets the sample twice:
  from the broker, and from the file through its listener.
\<close>

lemma shm_double_delivery:
  defines "w1 \<equiv> snd (the (shmWrite 5 1 (0, 2) shmEx))"
  defines "w2 \<equiv> fold (runTask True) [0, 0, 0, 0] w1"
  defines "w3 \<equiv> updSub 2 startPump (listenerStep 6 2 w2)"
  shows "map_option (\<lambda>s. map Payload (chBuf (su_ch s)))
    (subscribers (updSub 2 (pumpStep FromListener False) (updSub 2 (pumpStep FromInProc False) w3)) 2) = Some [[7, 8], [7, 8]]"
proof -
  let ?x = "shmSample 5 [97] [7, 8] 1 (shmNewGUID 0)"
  obtain s where s: "subscribers shmEx 2 = Some s" "su_topic s = [97]" "su_inProc s = makeChan 64" "su_ch s = makeChan 64"
    "su_listener s = Some \<lparr>l_filter = None, l_contentFilter = None, l_ch = makeChan 64, l_notes = 0, l_done = False, l_running = True\<rparr>"
    "su_deadline s = None" "\<not> su_started s" "\<not> su_done s"
    using shmEx_state(2) by simp
  have w1: "subscribers w1 2 = Some (s\<lparr>su_inProc := (makeChan 64)\<lparr>chBuf := [?x]\<rparr>\<rparr>)"
      "tasks w1 = [\<lparr>t_topic = [97], t_slice = (0, 2), t_step = CreateFile\<rparr>]" "mem w1 0 = [7, 8, 9]"
      "sockets w1 (shmSocketPath [97]) = Some 2"
    by (simp_all add: w1_def shmWrite_def shmEx_state(1)[unfolded One_nat_def] publish_deliverAll[OF refl refl] DefaultQoS_def shmEx_state(3-6) s
        sliceBytes_def deliverTo_def passes_def deliverSub_def trySend_def makeChan_def shmSample_def addTask_def resetSubDeadline_def
        Let_def)
  have w2: "subscribers w2 2 = Some (s\<lparr>su_inProc := (makeChan 64)\<lparr>chBuf := [?x]\<rparr>,
        su_listener := map_option (\<lambda>l. l\<lparr>l_notes := 1\<rparr>) (su_listener s)\<rparr>)"
      "files w2 (shmDataPath [97]) = Some (lenPrefix 2 @ [7, 8])"
    by (simp_all add: w2_def runTask_def taskStep_def w1 writeAt_new lenPrefix_simps sliceBytes_def updSub_def s)
  have "readData (files w2 (shmDataPath [97])) = Some [7, 8]"
    using readData_written[of "[7, 8]" 2] by (simp add: w2 maxPayload_def)
  then show ?thesis
    by (simp add: w3_def updSub_def listenerStep_def w2 s listenerTurn_def trySend_def makeChan_def startPump_def pumpStep_def
        tryRecv_def forward_def shmSample_def)
qed

end
