(* ===== verification/Idl_Parser.thy ===== *)
theory Idl_Parser
  imports Dds_Prelude
begin

text \<open>
  The parser of the IDL compiler (\<^verbatim>\<open>src/tools/idl/parser.go\<close>, \<^verbatim>\<open>ast.go\<close>): a lexer that skips white space,
  comments and characters it does not know, and a recursive-descent parser with one token of
  lookahead. Runes are Latin-1 characters, for which the predicates of the \<^verbatim>\<open>unicode\<close> package are written
  out. The lexer's position is the rest of its source. As the lexer does not depend on the parser,
  the parser reads the list of its tokens; beyond the end it sees the end token.
\<close>

section \<open>Definitions\<close>

subsection \<open>Lexer\<close>

datatype tokenKind =
  tokEOF | tokIdent | tokNumber | tokLBrace | tokRBrace | tokLAngle | tokRAngle | tokLBracket | tokRBracket
| tokSemi | tokComma | tokDoubleColon | tokAt

record token =
  tkind :: tokenKind
  tval :: string
  tline :: int

definition isSpaceL1 :: "char \<Rightarrow> bool" where
  "isSpaceL1 c \<longleftrightarrow> of_char c \<in> {9 :: nat, 10, 11, 12, 13, 32, 0x85, 0xA0}"

definition isDigitL1 :: "char \<Rightarrow> bool" where
  "isDigitL1 c \<longleftrightarrow> 48 \<le> (of_char c :: nat) \<and> (of_char c :: nat) \<le> 57"

definition isLetterL1 :: "char \<Rightarrow> bool" where
  "isLetterL1 c \<longleftrightarrow>
     (let n = (of_char c :: nat) in
      65 \<le> n \<and> n \<le> 90 \<or> 97 \<le> n \<and> n \<le> 122 \<or> n = 0xAA \<or> n = 0xB5 \<or> n = 0xBA
      \<or> 0xC0 \<le> n \<and> n \<noteq> 0xD7 \<and> n \<noteq> 0xF7)"

definition isIdentChar :: "char \<Rightarrow> bool" where
  "isIdentChar c \<longleftrightarrow> isLetterL1 c \<or> isDigitL1 c \<or> c = CHR ''_''"

text \<open>The rest after a block comment, and the line. The search ends with one character to go.\<close>

fun skipBlock :: "string \<Rightarrow> int \<Rightarrow> string \<times> int" where
  "skipBlock (a # b # r) ln =
     (if a = CHR ''*'' \<and> b = CHR ''/'' then (r, ln)
      else skipBlock (b # r) (if a = CHR 0x0A then ln + 1 else ln))"
| "skipBlock s ln = (s, ln)"

lemma length_skipBlock: "length (fst (skipBlock s ln)) \<le> length s"
  by (induction s ln rule: skipBlock.induct) auto

function skipWhitespaceAndComments :: "string \<Rightarrow> int \<Rightarrow> string \<times> int" where
  "skipWhitespaceAndComments [] ln = ([], ln)"
| "skipWhitespaceAndComments (r # rest) ln =
     (if isSpaceL1 r then skipWhitespaceAndComments rest (if r = CHR 0x0A then ln + 1 else ln)
      else if r = CHR ''/'' \<and> rest \<noteq> [] \<and> hd rest = CHR ''/''
        then skipWhitespaceAndComments (dropWhile (\<lambda>c. c \<noteq> CHR 0x0A) rest) ln
      else if r = CHR ''/'' \<and> rest \<noteq> [] \<and> hd rest = CHR ''*''
        then skipWhitespaceAndComments (fst (skipBlock (tl rest) ln)) (snd (skipBlock (tl rest) ln))
      else (r # rest, ln))"
  by pat_completeness auto
termination
proof (relation "measure (\<lambda>(s, ln). length s)", goal_cases)
  case (3 r rest ln)
  then show ?case by (simp add: length_dropWhile_le le_imp_less_Suc)
next
  case (4 r rest ln)
  then show ?case using length_skipBlock[of "tl rest" ln] by (cases rest) (auto simp: case_prod_beta)
qed auto

text \<open>The characters that are tokens by themselves.\<close>

definition punct :: "char \<Rightarrow> tokenKind option" where
  "punct r =
     (if r = CHR ''{'' then Some tokLBrace else if r = CHR ''}'' then Some tokRBrace
      else if r = CHR ''<'' then Some tokLAngle else if r = CHR ''>'' then Some tokRAngle
      else if r = CHR ''['' then Some tokLBracket else if r = CHR '']'' then Some tokRBracket
      else if r = CHR '';'' then Some tokSemi else if r = CHR '','' then Some tokComma
      else if r = CHR ''@'' then Some tokAt else None)"

lemma length_skip: "length (fst (skipWhitespaceAndComments s ln)) \<le> length s"
proof (induction s ln rule: skipWhitespaceAndComments.induct)
  case (2 r rest ln)
  let ?line = "r = CHR ''/'' \<and> rest \<noteq> [] \<and> hd rest = CHR ''/''" and ?block = "r = CHR ''/'' \<and> rest \<noteq> [] \<and> hd rest = CHR ''*''"
  consider "isSpaceL1 r" | "\<not> isSpaceL1 r" ?line | "\<not> isSpaceL1 r" "\<not> ?line" ?block | "\<not> isSpaceL1 r" "\<not> ?line" "\<not> ?block"
    by blast
  then show ?case
  proof cases
    case 1
    with 2(1) show ?thesis by simp
  next
    case a: 2
    with 2(2)[OF a] show ?thesis
      using length_dropWhile_le[of "\<lambda>c. c \<noteq> CHR 0x0A" rest] by simp
  next
    case 3
    with 2(3)[OF 3] show ?thesis
      using length_skipBlock[of "tl rest" ln] by simp
  qed (simp only: skipWhitespaceAndComments.simps if_False fst_conv)
qed simp

text \<open>The next token, or \<open>Inl\<close> the line at the end of the source.\<close>

function next_tok :: "string \<Rightarrow> int \<Rightarrow> int + token \<times> string \<times> int" where
  "next_tok s0 ln0 =
     (let (s, ln) = skipWhitespaceAndComments s0 ln0 in
      case s of
        [] \<Rightarrow> Inl ln
      | r # rest \<Rightarrow>
          (case punct r of
             Some k \<Rightarrow> Inr (\<lparr>tkind = k, tval = [r], tline = ln\<rparr>, rest, ln)
           | None \<Rightarrow>
               if r = CHR '':'' then
                 if rest \<noteq> [] \<and> hd rest = CHR '':'' then Inr (\<lparr>tkind = tokDoubleColon, tval = ''::'', tline = ln\<rparr>, tl rest, ln)
                 else next_tok rest ln
               else if isDigitL1 r then Inr (\<lparr>tkind = tokNumber, tval = takeWhile isDigitL1 s, tline = ln\<rparr>, dropWhile isDigitL1 s, ln)
               else if isLetterL1 r \<or> r = CHR ''_''
                 then Inr (\<lparr>tkind = tokIdent, tval = takeWhile isIdentChar s, tline = ln\<rparr>, dropWhile isIdentChar s, ln)
               else next_tok rest ln))"
  by pat_completeness auto
termination
proof (relation "measure (\<lambda>(s, ln). length s)", goal_cases)
  case (2 s0 ln0 p s ln r rest)
  then have "fst (skipWhitespaceAndComments s0 ln0) = r # rest" by (metis fst_conv)
  then show ?case using length_skip[of s0 ln0] by simp
next
  case (3 s0 ln0 p s ln r rest)
  then have "fst (skipWhitespaceAndComments s0 ln0) = r # rest" by (metis fst_conv)
  then show ?case using length_skip[of s0 ln0] by simp
qed simp

declare next_tok.simps [simp del]

lemma next_tok_shorter: "next_tok s ln = Inr (t, s', ln') \<Longrightarrow> length s' < length s"
proof (induction s ln rule: next_tok.induct)
  case (1 s0 ln0)
  obtain s ln where sk: "skipWhitespaceAndComments s0 ln0 = (s, ln)" by fastforce
  have le: "length s \<le> length s0" using length_skip[of s0 ln0] sk by simp
  show ?case
  proof (cases s)
    case Nil
    then show ?thesis using 1(3) sk by (simp add: next_tok.simps[of s0])
  next
    case (Cons r rest)
    have drop: "length (dropWhile P rest) \<le> length rest" for P :: "char \<Rightarrow> bool" by (rule length_dropWhile_le)
    have rec: "next_tok rest ln = Inr (t, s', ln') \<Longrightarrow> punct r = None \<Longrightarrow>
        (r = CHR '':'' \<Longrightarrow> \<not> (rest \<noteq> [] \<and> hd rest = CHR '':'')) \<Longrightarrow>
        (r \<noteq> CHR '':'' \<Longrightarrow> \<not> isDigitL1 r \<and> \<not> (isLetterL1 r \<or> r = CHR ''_'')) \<Longrightarrow> length s' < length rest"
      using 1(1,2)[OF sk[symmetric] refl] Cons by blast
    show ?thesis
      using 1(3) sk Cons le rec drop[of isDigitL1] drop[of isIdentChar]
      by (auto simp: next_tok.simps[of s0] isIdentChar_def[of r] split: option.splits if_splits)
  qed
qed

function lexAll :: "string \<Rightarrow> int \<Rightarrow> token list \<times> int" where
  "lexAll s ln =
     (case next_tok s ln of
        Inl l \<Rightarrow> ([], l)
      | Inr (t, s', ln') \<Rightarrow> (let (ts, l) = lexAll s' ln' in (t # ts, l)))"
  by pat_completeness auto
termination
  by (relation "measure (\<lambda>(s, ln). length s)") (auto dest: next_tok_shorter)

declare lexAll.simps [simp del]

subsection \<open>Syntax\<close>

text \<open>
  The kinds of \<^verbatim>\<open>TypeSpec\<close> that have an element carry it. A reference is of the kind \<^verbatim>\<open>KindStruct\<close> for
  structs, enums and aliases alike; \<^verbatim>\<open>KindEnum\<close> is never given by the parser.
\<close>

datatype TypeSpec =
  KindBoolean | KindOctet | KindShort | KindUShort | KindLong | KindULong | KindLongLong | KindULongLong
| KindFloat | KindDouble | KindString | KindSequence TypeSpec | KindStruct string | KindArray TypeSpec int

record Field =
  fName :: string
  fType :: TypeSpec
  fKey :: bool

record Struct =
  sName :: string
  sFields :: "Field list"

record Enum =
  eName :: string
  eValues :: "string list"

record Typedef =
  tdName :: string
  tdType :: TypeSpec

datatype Module =
  Module (mName: string) (mTypedefs: "Typedef list") (mEnums: "Enum list") (mStructs: "Struct list") (mModules: "Module list")

subsection \<open>Parser\<close>

text \<open>
  Errors: what was expected at a line (the message, without its quotation marks) and the token found
  there; an unsigned type or an array size that is none.
\<close>

datatype idlError = Expected int string string | UnknownUnsigned int string | InvalidArraySize int string

text \<open>\<open>l\<close> is the line of the end token, which is seen beyond the last one.\<close>

definition endTok :: "int \<Rightarrow> token" where
  "endTok l = \<lparr>tkind = tokEOF, tval = [], tline = l\<rparr>"

fun peek_tok :: "int \<Rightarrow> token list \<Rightarrow> token" where
  "peek_tok l [] = endTok l"
| "peek_tok l (t # ts) = t"

definition consume_tok :: "int \<Rightarrow> token list \<Rightarrow> token \<times> token list" where
  "consume_tok l ts = (peek_tok l ts, tl ts)"

definition expectTok :: "int \<Rightarrow> tokenKind \<Rightarrow> string \<Rightarrow> token list \<Rightarrow> idlError + token \<times> token list" where
  "expectTok l k desc ts =
     (let (t, ts') = consume_tok l ts in
      if tkind t \<noteq> k then Inl (Expected (tline t) desc (tval t)) else Inr (t, ts'))"

definition expect :: "int \<Rightarrow> tokenKind \<Rightarrow> string \<Rightarrow> token list \<Rightarrow> idlError + token list" where
  "expect l k desc ts = (case expectTok l k desc ts of Inl err \<Rightarrow> Inl err | Inr (_, ts') \<Rightarrow> Inr ts')"

text \<open>The rest of a qualified name.\<close>

fun qualName :: "int \<Rightarrow> string \<Rightarrow> token list \<Rightarrow> idlError + string \<times> token list" where
  "qualName l name (t # u # us) =
     (if tkind t \<noteq> tokDoubleColon then Inr (name, t # u # us)
      else if tkind u \<noteq> tokIdent then Inl (Expected (tline u) ''name after ::'' (tval u))
      else qualName l (name @ ''::'' @ tval u) us)"
| "qualName l name ts =
     (if tkind (peek_tok l ts) \<noteq> tokDoubleColon then Inr (name, ts) else Inl (Expected l ''name after ::'' []))"

definition optLong :: "int \<Rightarrow> TypeSpec \<Rightarrow> TypeSpec \<Rightarrow> token list \<Rightarrow> TypeSpec \<times> token list" where
  "optLong l one two ts = (if tval (peek_tok l ts) = ''long'' then (two, tl ts) else (one, ts))"

text \<open>A bound in angle brackets after \<^verbatim>\<open>string\<close> is consumed, whatever its token.\<close>

definition stringBound :: "int \<Rightarrow> token list \<Rightarrow> idlError + TypeSpec \<times> token list" where
  "stringBound l ts =
     (if tkind (peek_tok l ts) = tokLAngle
      then (case expect l tokRAngle ''>'' (tl (tl ts)) of Inl err \<Rightarrow> Inl err | Inr ts' \<Rightarrow> Inr (KindString, ts'))
      else Inr (KindString, ts))"

definition unsignedType :: "int \<Rightarrow> token list \<Rightarrow> idlError + TypeSpec \<times> token list" where
  "unsignedType l ts =
     (let (n, ts') = consume_tok l ts in
      if tkind n \<noteq> tokIdent then Inl (Expected (tline n) ''type after unsigned'' (tval n))
      else if tval n = ''short'' then Inr (KindUShort, ts')
      else if tval n = ''long'' then Inr (optLong l KindULong KindULongLong ts')
      else Inl (UnknownUnsigned (tline n) (tval n)))"

definition sequenceEnd :: "int \<Rightarrow> TypeSpec \<Rightarrow> token list \<Rightarrow> idlError + TypeSpec \<times> token list" where
  "sequenceEnd l elem ts =
     (case expect l tokRAngle ''>'' (if tkind (peek_tok l ts) = tokComma then tl (tl ts) else ts) of
        Inl err \<Rightarrow> Inl err
      | Inr ts' \<Rightarrow> Inr (KindSequence elem, ts'))"

function parseTypeSpec :: "int \<Rightarrow> token list \<Rightarrow> idlError + TypeSpec \<times> token list" where
  "parseTypeSpec l [] = Inl (Expected l ''type name'' [])"
| "parseTypeSpec l (t # ts) =
     (if tkind t \<noteq> tokIdent then Inl (Expected (tline t) ''type name'' (tval t))
      else if tval t = ''boolean'' then Inr (KindBoolean, ts)
      else if tval t = ''octet'' then Inr (KindOctet, ts)
      else if tval t = ''float'' then Inr (KindFloat, ts)
      else if tval t = ''double'' then Inr (KindDouble, ts)
      else if tval t = ''string'' then stringBound l ts
      else if tval t = ''short'' then Inr (KindShort, ts)
      else if tval t = ''long'' then Inr (optLong l KindLong KindLongLong ts)
      else if tval t = ''unsigned'' then unsignedType l ts
      else if tval t = ''sequence'' then
        (case expect l tokLAngle ''<'' ts of
           Inl err \<Rightarrow> Inl err
         | Inr us \<Rightarrow>
             (case parseTypeSpec l us of Inl err \<Rightarrow> Inl err | Inr (elem, vs) \<Rightarrow> sequenceEnd l elem vs))
      else (case qualName l (tval t) ts of Inl err \<Rightarrow> Inl err | Inr (name, ts') \<Rightarrow> Inr (KindStruct name, ts')))"
  by pat_completeness auto
termination
  by (relation "measure (\<lambda>(l, ts). length ts)")
    (auto simp: expect_def expectTok_def consume_tok_def Let_def split: if_splits)

text \<open>Arguments of an annotation are looked for in braces.\<close>

definition skipAnnotArgs :: "int \<Rightarrow> token list \<Rightarrow> token list" where
  "skipAnnotArgs l ts =
     (if tkind (peek_tok l ts) = tokLBrace then
        let us = dropWhile (\<lambda>t. tkind t \<notin> {tokRBrace, tokEOF}) ts
        in if tkind (peek_tok l us) = tokRBrace then tl us else us
      else ts)"

lemma length_skipAnnotArgs: "length (skipAnnotArgs l ts) \<le> length ts"
  using length_dropWhile_le[of "\<lambda>t. tkind t \<notin> {tokRBrace, tokEOF}" ts]
  by (auto simp: skipAnnotArgs_def Let_def)

function annots :: "int \<Rightarrow> bool \<Rightarrow> token list \<Rightarrow> bool \<times> token list" where
  "annots l isKey ts =
     (if tkind (peek_tok l ts) = tokAt
      then annots l (isKey \<or> tval (peek_tok l (tl ts)) = ''key'') (skipAnnotArgs l (tl (tl ts)))
      else (isKey, ts))"
  by pat_completeness auto
termination
proof (relation "measure (\<lambda>(l, k, ts). length ts)", goal_cases)
  case (2 l isKey ts)
  then show ?case using length_skipAnnotArgs[of l "tl (tl ts)"] by (cases ts) (auto simp: endTok_def)
qed simp

declare annots.simps [simp del]

definition decVal :: "string \<Rightarrow> int" where
  "decVal ds = foldl (\<lambda>n c. 10 * n + (of_char c - 48)) 0 ds"

definition atoi :: "string \<Rightarrow> int option" where
  "atoi ds = (if decVal ds < 2 ^ 63 then Some (decVal ds) else None)"

definition arraySuffix :: "int \<Rightarrow> TypeSpec \<Rightarrow> token list \<Rightarrow> idlError + TypeSpec \<times> token list" where
  "arraySuffix l typ ts =
     (if tkind (peek_tok l ts) \<noteq> tokLBracket then Inr (typ, ts)
      else
        let (sz, us) = consume_tok l (tl ts) in
        if tkind sz \<noteq> tokNumber then Inl (Expected (tline sz) ''array size'' (tval sz))
        else
          (case expect l tokRBracket '']'' us of
             Inl err \<Rightarrow> Inl err
           | Inr vs \<Rightarrow>
               (case atoi (tval sz) of
                  None \<Rightarrow> Inl (InvalidArraySize (tline sz) (tval sz))
                | Some n \<Rightarrow> Inr (KindArray typ n, vs))))"

definition parseField :: "int \<Rightarrow> token list \<Rightarrow> idlError + Field \<times> token list" where
  "parseField l ts0 =
     (let (isKey, ts) = annots l False ts0 in
      case parseTypeSpec l ts of
        Inl err \<Rightarrow> Inl err
      | Inr (typ0, us) \<Rightarrow>
          (case expectTok l tokIdent ''field name'' us of
             Inl err \<Rightarrow> Inl err
           | Inr (name, vs) \<Rightarrow>
               (case arraySuffix l typ0 vs of
                  Inl err \<Rightarrow> Inl err
                | Inr (typ, ws) \<Rightarrow>
                    (case expect l tokSemi '';'' ws of
                       Inl err \<Rightarrow> Inl err
                     | Inr xs \<Rightarrow> Inr (\<lparr>fName = tval name, fType = typ, fKey = isKey\<rparr>, xs)))))"

text \<open>Every part of a declaration leaves fewer tokens.\<close>

named_theorems shorter

lemma expectTok_shorter [shorter]: "expectTok l k d ts = Inr (t, ts') \<Longrightarrow> k \<noteq> tokEOF \<Longrightarrow> length ts' < length ts"
  by (cases ts) (auto simp: expectTok_def consume_tok_def endTok_def split: if_splits)

lemmas name_shorter = expectTok_shorter[where k = tokIdent, simplified]

lemma expect_shorter [shorter]: "expect l k d ts = Inr ts' \<Longrightarrow> k \<noteq> tokEOF \<Longrightarrow> length ts' < length ts"
  by (auto simp: expect_def split: sum.splits dest: expectTok_shorter)

lemma qualName_le: "qualName l name ts = Inr (name', ts') \<Longrightarrow> length ts' \<le> length ts"
  by (induction l name ts rule: qualName.induct) (auto split: if_splits)

lemma expect_le: "expect l k d ts = Inr ts' \<Longrightarrow> length ts' \<le> length ts"
  by (auto simp: expect_def expectTok_def consume_tok_def split: sum.splits if_splits)

lemma typeParts_le:
  "stringBound l ts = Inr (ty, ts') \<Longrightarrow> length ts' \<le> length ts"
  "unsignedType l ts = Inr (ty, ts') \<Longrightarrow> length ts' \<le> length ts"
  "sequenceEnd l ty' ts = Inr (ty, ts') \<Longrightarrow> length ts' \<le> length ts"
  "optLong l a b ts = (ty, ts') \<Longrightarrow> length ts' \<le> length ts"
  by (auto simp: stringBound_def unsignedType_def sequenceEnd_def optLong_def consume_tok_def Let_def
      dest!: expect_le split: sum.splits if_splits)

lemma parseTypeSpec_shorter [shorter]: "parseTypeSpec l ts = Inr (ty, ts') \<Longrightarrow> length ts' < length ts"
proof (induction l ts arbitrary: ty ts' rule: parseTypeSpec.induct)
  case (2 l t ts)
  show ?case
  proof (cases "tval t = ''sequence''")
    case True
    with 2 show ?thesis
      by (fastforce dest: expect_le typeParts_le(3) split: if_splits sum.splits prod.splits)
  next
    case False
    with 2(2) show ?thesis
      by (auto dest!: typeParts_le(1,2) qualName_le split: if_splits sum.splits simp: le_imp_less_Suc typeParts_le(4))
  qed
qed simp

lemma annots_le: "annots l k ts = (k', ts') \<Longrightarrow> length ts' \<le> length ts"
proof (induction l k ts rule: annots.induct)
  case (1 l isKey ts)
  then show ?case
    using length_skipAnnotArgs[of l "tl (tl ts)"] by (subst (asm) (2) annots.simps) (auto split: if_splits)
qed

lemma arraySuffix_le: "arraySuffix l ty ts = Inr (ty', ts') \<Longrightarrow> length ts' \<le> length ts"
  by (auto simp: arraySuffix_def consume_tok_def Let_def dest!: expect_le split: if_splits sum.splits option.splits)

lemma parseField_shorter [shorter]: "parseField l ts = Inr (f, ts') \<Longrightarrow> length ts' < length ts"
  by (auto simp: parseField_def dest!: annots_le parseTypeSpec_shorter name_shorter arraySuffix_le expect_le
      split: prod.splits sum.splits)

function structFields :: "int \<Rightarrow> Field list \<Rightarrow> token list \<Rightarrow> idlError + Field list \<times> token list" where
  "structFields l fs ts =
     (if tkind (peek_tok l ts) \<in> {tokRBrace, tokEOF} then Inr (fs, ts)
      else (case parseField l ts of Inl err \<Rightarrow> Inl err | Inr (f, us) \<Rightarrow> structFields l (fs @ [f]) us))"
  by pat_completeness auto
termination
  by (relation "measure (\<lambda>(l, fs, ts). length ts)") (auto dest: parseField_shorter)

declare structFields.simps [simp del]

definition parseStruct :: "int \<Rightarrow> token list \<Rightarrow> idlError + Struct \<times> token list" where
  "parseStruct l ts =
     (case expectTok l tokIdent ''struct name'' ts of
        Inl err \<Rightarrow> Inl err
      | Inr (name, us) \<Rightarrow>
          (case expect l tokLBrace ''{'' us of
             Inl err \<Rightarrow> Inl err
           | Inr vs \<Rightarrow>
               (case structFields l [] vs of
                  Inl err \<Rightarrow> Inl err
                | Inr (fs, ws) \<Rightarrow>
                    (case expect l tokRBrace ''}'' ws of
                       Inl err \<Rightarrow> Inl err
                     | Inr xs \<Rightarrow>
                         (case expect l tokSemi '';'' xs of
                            Inl err \<Rightarrow> Inl err
                          | Inr ys \<Rightarrow> Inr (\<lparr>sName = tval name, sFields = fs\<rparr>, ys))))))"

function enumValues :: "int \<Rightarrow> string list \<Rightarrow> token list \<Rightarrow> string list \<times> token list" where
  "enumValues l vs ts =
     (let t = peek_tok l ts in
      if tkind t \<in> {tokRBrace, tokEOF} then (vs, ts)
      else
        enumValues l (if tkind t = tokIdent then vs @ [tval t] else vs)
          (if tkind (peek_tok l (tl ts)) = tokComma then tl (tl ts) else tl ts))"
  by pat_completeness auto
termination
proof (relation "measure (\<lambda>(l, vs, ts). length ts)", goal_cases)
  case (2 l vs ts t)
  then show ?case by (cases ts) (auto simp: endTok_def)
qed simp

declare enumValues.simps [simp del]

definition parseEnum :: "int \<Rightarrow> token list \<Rightarrow> idlError + Enum \<times> token list" where
  "parseEnum l ts =
     (case expectTok l tokIdent ''enum name'' ts of
        Inl err \<Rightarrow> Inl err
      | Inr (name, us) \<Rightarrow>
          (case expect l tokLBrace ''{'' us of
             Inl err \<Rightarrow> Inl err
           | Inr vs \<Rightarrow>
               let (vals, ws) = enumValues l [] vs in
               (case expect l tokRBrace ''}'' ws of
                  Inl err \<Rightarrow> Inl err
                | Inr xs \<Rightarrow>
                    (case expect l tokSemi '';'' xs of
                       Inl err \<Rightarrow> Inl err
                     | Inr ys \<Rightarrow> Inr (\<lparr>eName = tval name, eValues = vals\<rparr>, ys)))))"

definition parseTypedef :: "int \<Rightarrow> token list \<Rightarrow> idlError + Typedef \<times> token list" where
  "parseTypedef l ts =
     (case parseTypeSpec l ts of
        Inl err \<Rightarrow> Inl err
      | Inr (ty, us) \<Rightarrow>
          (case expectTok l tokIdent ''typedef alias name'' us of
             Inl err \<Rightarrow> Inl err
           | Inr (name, vs) \<Rightarrow>
               (case expect l tokSemi '';'' vs of
                  Inl err \<Rightarrow> Inl err
                | Inr ws \<Rightarrow> Inr (\<lparr>tdName = tval name, tdType = ty\<rparr>, ws))))"

text \<open>An unknown declaration is skipped to its semicolon, or to a closing brace, which stays.\<close>

definition skipDecl :: "int \<Rightarrow> token list \<Rightarrow> token list" where
  "skipDecl l ts =
     (let us = dropWhile (\<lambda>t. tkind t \<notin> {tokEOF, tokSemi, tokRBrace}) ts
      in if tkind (peek_tok l us) = tokSemi then tl us else us)"

lemma structFields_le: "structFields l fs ts = Inr (fs', ts') \<Longrightarrow> length ts' \<le> length ts"
proof (induction l fs ts rule: structFields.induct)
  case (1 l fs ts)
  then show ?case
    by (subst (asm) (2) structFields.simps) (fastforce dest: parseField_shorter split: if_splits sum.splits prod.splits)
qed

lemma enumValues_le: "enumValues l vs ts = (vs', ts') \<Longrightarrow> length ts' \<le> length ts"
proof (induction l vs ts rule: enumValues.induct)
  case (1 l vs ts)
  then show ?case
    by (subst (asm) (2) enumValues.simps) (fastforce simp: Let_def split: if_splits)
qed

lemma parseStruct_shorter [shorter]: "parseStruct l ts = Inr (s, ts') \<Longrightarrow> length ts' < length ts"
  by (auto simp: parseStruct_def dest!: name_shorter expect_le structFields_le split: prod.splits sum.splits)

lemma parseEnum_shorter [shorter]: "parseEnum l ts = Inr (s, ts') \<Longrightarrow> length ts' < length ts"
  by (auto simp: parseEnum_def Let_def dest!: name_shorter expect_le enumValues_le split: prod.splits sum.splits)

lemma parseTypedef_shorter [shorter]: "parseTypedef l ts = Inr (s, ts') \<Longrightarrow> length ts' < length ts"
  by (auto simp: parseTypedef_def dest!: name_shorter expect_le parseTypeSpec_shorter split: prod.splits sum.splits)

lemma length_skipDecl: "length (skipDecl l ts) \<le> length ts"
  using length_dropWhile_le[of "\<lambda>t. tkind t \<notin> {tokEOF, tokSemi, tokRBrace}" ts] by (auto simp: skipDecl_def Let_def)

definition addTypedef :: "Typedef \<Rightarrow> Module \<Rightarrow> Module" where
  "addTypedef d m = Module (mName m) (mTypedefs m @ [d]) (mEnums m) (mStructs m) (mModules m)"

definition addEnum :: "Enum \<Rightarrow> Module \<Rightarrow> Module" where
  "addEnum e m = Module (mName m) (mTypedefs m) (mEnums m @ [e]) (mStructs m) (mModules m)"

definition addStruct :: "Struct \<Rightarrow> Module \<Rightarrow> Module" where
  "addStruct s m = Module (mName m) (mTypedefs m) (mEnums m) (mStructs m @ [s]) (mModules m)"

definition addModule :: "Module \<Rightarrow> Module \<Rightarrow> Module" where
  "addModule s m = Module (mName m) (mTypedefs m) (mEnums m) (mStructs m) (mModules m @ [s])"

definition setName :: "string \<Rightarrow> Module \<Rightarrow> Module" where
  "setName n m = Module n (mTypedefs m) (mEnums m) (mStructs m) (mModules m)"

definition emptyModule :: Module where
  "emptyModule = Module [] [] [] [] []"

text \<open>The declarations of a module, collected in \<open>m\<close>, and a module with its name and braces.\<close>

function parseModule :: "int \<Rightarrow> Module \<Rightarrow> token list \<Rightarrow> idlError + Module \<times> token list"
  and parseNamedModule :: "int \<Rightarrow> token list \<Rightarrow> idlError + Module \<times> token list"
where
  "parseModule l m [] = Inr (m, [])"
| "parseModule l m (t # ts) =
     (if tkind t \<in> {tokEOF, tokRBrace} then Inr (m, t # ts)
      else if tkind t \<noteq> tokIdent then parseModule l m ts
      else if tval t = ''module'' then
        (case parseNamedModule l ts of Inl err \<Rightarrow> Inl err | Inr (s, us) \<Rightarrow> parseModule l (addModule s m) us)
      else if tval t = ''struct'' then
        (case parseStruct l ts of Inl err \<Rightarrow> Inl err | Inr (s, us) \<Rightarrow> parseModule l (addStruct s m) us)
      else if tval t = ''enum'' then
        (case parseEnum l ts of Inl err \<Rightarrow> Inl err | Inr (e, us) \<Rightarrow> parseModule l (addEnum e m) us)
      else if tval t = ''typedef'' then
        (case parseTypedef l ts of Inl err \<Rightarrow> Inl err | Inr (d, us) \<Rightarrow> parseModule l (addTypedef d m) us)
      else parseModule l m (skipDecl l ts))"
| "parseNamedModule l ts =
     (case expectTok l tokIdent ''module name'' ts of
        Inl err \<Rightarrow> Inl err
      | Inr (name, us) \<Rightarrow>
          (case expect l tokLBrace ''{'' us of
             Inl err \<Rightarrow> Inl err
           | Inr vs \<Rightarrow>
               (case parseModule l emptyModule vs of
                  Inl err \<Rightarrow> Inl err
                | Inr (m, ws) \<Rightarrow>
                    (case expect l tokRBrace ''}'' ws of
                       Inl err \<Rightarrow> Inl err
                     | Inr xs \<Rightarrow> Inr (setName (tval name) m, if tkind (peek_tok l xs) = tokSemi then tl xs else xs)))))"
  by pat_completeness auto

lemma parse_le_dom:
  "parseModule_parseNamedModule_dom (Inl (l, m, ts)) \<Longrightarrow> parseModule l m ts = Inr (m', ts') \<Longrightarrow> length ts' \<le> length ts"
  "parseModule_parseNamedModule_dom (Inr (l, ts)) \<Longrightarrow> parseNamedModule l ts = Inr (m', ts') \<Longrightarrow> length ts' < length ts"
proof (induction l m ts and l ts arbitrary: m' ts' and m' ts' rule: parseModule_parseNamedModule.pinduct)
  case (1 l m)
  then show ?case by (simp add: parseModule.psimps)
next
  case (2 l m t ts)
  note run = 2(9)[unfolded parseModule.psimps(2)[OF 2(1)]]
  consider "tkind t \<in> {tokEOF, tokRBrace}" | "tkind t \<notin> {tokEOF, tokRBrace}" "tkind t \<noteq> tokIdent"
    | "tkind t = tokIdent" "tval t = ''module''" | "tkind t = tokIdent" "tval t = ''struct''"
    | "tkind t = tokIdent" "tval t = ''enum''" | "tkind t = tokIdent" "tval t = ''typedef''"
    | "tkind t = tokIdent" "tval t \<notin> {''module'', ''struct'', ''enum'', ''typedef''}"
    by blast
  then show ?case
  proof cases
    case a: 2
    then show ?thesis using 2(2)[OF _ _, of m' ts'] run by simp
  next
    case 3
    with run obtain x us where x: "parseNamedModule l ts = Inr (x, us)" "parseModule l (addModule x m) us = Inr (m', ts')"
      by (auto split: sum.splits)
    have "length ts' \<le> length us" by (rule 2(4)[OF _ _ _ x(1) refl x(2)]) (use 3 in auto)
    moreover have "length us < length ts" by (rule 2(3)[OF _ _ _ x(1)]) (use 3 in auto)
    ultimately show ?thesis by simp
  next
    case 4
    with run obtain x us where x: "parseStruct l ts = Inr (x, us)" "parseModule l (addStruct x m) us = Inr (m', ts')"
      by (auto split: sum.splits)
    have "length ts' \<le> length us" by (rule 2(5)[OF _ _ _ _ x(1) refl x(2)]) (use 4 in auto)
    then show ?thesis using parseStruct_shorter[OF x(1)] by simp
  next
    case 5
    with run obtain x us where x: "parseEnum l ts = Inr (x, us)" "parseModule l (addEnum x m) us = Inr (m', ts')"
      by (auto split: sum.splits)
    have "length ts' \<le> length us" by (rule 2(6)[OF _ _ _ _ _ x(1) refl x(2)]) (use 5 in auto)
    then show ?thesis using parseEnum_shorter[OF x(1)] by simp
  next
    case 6
    with run obtain x us where x: "parseTypedef l ts = Inr (x, us)" "parseModule l (addTypedef x m) us = Inr (m', ts')"
      by (auto split: sum.splits)
    have "length ts' \<le> length us" by (rule 2(7)[OF _ _ _ _ _ _ x(1) refl x(2)]) (use 6 in auto)
    then show ?thesis using parseTypedef_shorter[OF x(1)] by simp
  next
    case 7
    have "length ts' \<le> length (skipDecl l ts)" by (rule 2(8)) (use 7 run in auto)
    then show ?thesis using length_skipDecl[of l ts] by simp
  qed (use run in auto)
next
  case (3 l ts)
  then show ?case using 3(2)
    by (fastforce simp: parseNamedModule.psimps dest: name_shorter expect_le split: if_splits sum.splits prod.splits)
qed

termination parseModule
proof (relation "measure (case_sum (\<lambda>(l, m, ts). 2 * length ts) (\<lambda>(l, ts). 2 * length ts + 1))", goal_cases)
  case (8 l m t ts)
  then show ?case using length_skipDecl[of l ts] by simp
qed (auto dest!: parse_le_dom(2) parseStruct_shorter parseEnum_shorter parseTypedef_shorter name_shorter expect_le)

definition ParseString :: "string \<Rightarrow> idlError + Module" where
  "ParseString src =
     (let (ts, l) = lexAll src 1 in map_sum id fst (parseModule l emptyModule ts))"

section \<open>The lexer reads every spelling\<close>

text \<open>What may stand between tokens: white space and closed comments.\<close>

fun noClose :: "string \<Rightarrow> bool" where
  "noClose (a # b # r) \<longleftrightarrow> \<not> (a = CHR ''*'' \<and> b = CHR ''/'') \<and> noClose (b # r)"
| "noClose s \<longleftrightarrow> True"

inductive gap :: "string \<Rightarrow> bool" where
  gap_empty: "gap []"
| gap_space: "isSpaceL1 c \<Longrightarrow> gap g \<Longrightarrow> gap (c # g)"
| gap_line: "CHR 0x0A \<notin> set body \<Longrightarrow> gap g \<Longrightarrow> gap (''//'' @ body @ [CHR 0x0A] @ g)"
| gap_block: "noClose body \<Longrightarrow> gap g \<Longrightarrow> gap (''/*'' @ body @ ''*/'' @ g)"

text \<open>Tokens as the lexer spells them, up to lines.\<close>

type_synonym tok = "tokenKind \<times> string"

definition strip :: "token \<Rightarrow> tok" where
  "strip t = (tkind t, tval t)"

definition identStart :: "char \<Rightarrow> bool" where
  "identStart c \<longleftrightarrow> isLetterL1 c \<or> c = CHR ''_''"

fun wf_tok :: "tok \<Rightarrow> bool" where
  "wf_tok (tokEOF, v) = False"
| "wf_tok (tokIdent, v) = (v \<noteq> [] \<and> identStart (hd v) \<and> list_all isIdentChar v)"
| "wf_tok (tokNumber, v) = (v \<noteq> [] \<and> list_all isDigitL1 v)"
| "wf_tok (tokDoubleColon, v) = (v = ''::'')"
| "wf_tok (k, v) = (\<exists>c. v = [c] \<and> punct c = Some k)"

text \<open>A source text of a token list: names and numbers end where the next character does not continue them.\<close>

definition ends :: "tokenKind \<Rightarrow> string \<Rightarrow> bool" where
  "ends k s \<longleftrightarrow> s = [] \<or> (k = tokIdent \<longrightarrow> \<not> isIdentChar (hd s)) \<and> (k = tokNumber \<longrightarrow> \<not> isDigitL1 (hd s))"

inductive spelled :: "tok list \<Rightarrow> string \<Rightarrow> bool" where
  spelled_end: "gap g \<Longrightarrow> spelled [] g"
| spelled_tok: "gap g \<Longrightarrow> wf_tok (k, v) \<Longrightarrow> spelled ks s \<Longrightarrow> ends k s \<Longrightarrow> spelled ((k, v) # ks) (g @ v @ s)"

lemma skipBlock_close: "noClose body \<Longrightarrow> \<exists>ln'. skipBlock (body @ ''*/'' @ s) ln = (s, ln')"
  by (induction body arbitrary: ln rule: noClose.induct) auto

lemma dropWhile_until: "c \<notin> set body \<Longrightarrow> dropWhile (\<lambda>x. x \<noteq> c) (body @ c # s) = c # s"
  by (induction body) auto

lemma slash_not_space [simp]: "\<not> isSpaceL1 CHR ''/''"
  by (simp add: isSpaceL1_def)

lemma nl_space [simp]: "isSpaceL1 CHR 0x0A"
  by (simp add: isSpaceL1_def)

lemma skip_gap:
  "gap g \<Longrightarrow> s = [] \<or> \<not> isSpaceL1 (hd s) \<and> hd s \<noteq> CHR ''/'' \<Longrightarrow> \<exists>ln'. skipWhitespaceAndComments (g @ s) ln = (s, ln')"
proof (induction arbitrary: ln rule: gap.induct)
  case gap_empty
  then show ?case by (cases s) auto
next
  case (gap_space c g)
  then show ?case by simp
next
  case (gap_line body g)
  let ?nl = "\<lambda>c. c \<noteq> CHR 0x0A"
  have "dropWhile ?nl (CHR ''/'' # body @ CHR 0x0A # g @ s) = CHR 0x0A # g @ s"
    using dropWhile_until[OF gap_line(1)] by simp
  then have "skipWhitespaceAndComments ((''//'' @ body @ [CHR 0x0A] @ g) @ s) ln = skipWhitespaceAndComments (g @ s) (ln + 1)"
    by (simp del: dropWhile.simps)
  then show ?case using gap_line(3)[OF gap_line(4), of "ln + 1"] by metis
next
  case (gap_block body g)
  obtain ln' where "skipBlock (body @ ''*/'' @ g @ s) ln = (g @ s, ln')"
    using skipBlock_close[OF gap_block(1)] by blast
  then have "skipWhitespaceAndComments ((''/*'' @ body @ ''*/'' @ g) @ s) ln = skipWhitespaceAndComments (g @ s) ln'"
    by simp
  then show ?case using gap_block(3)[OF gap_block(4), of ln'] by metis
qed

lemma punct_char:
  "punct c = Some k \<Longrightarrow> \<not> isSpaceL1 c \<and> c \<noteq> CHR ''/''"
  by (auto simp: punct_def isSpaceL1_def split: if_splits)

lemma punct_disjoint: "punct c = Some k \<Longrightarrow> \<not> identStart c \<and> \<not> isDigitL1 c"
  by (auto simp: punct_def identStart_def isLetterL1_def isDigitL1_def split: if_splits)

lemma space_disjoint: "isSpaceL1 c \<Longrightarrow> \<not> identStart c \<and> \<not> isDigitL1 c"
  by (auto simp: isSpaceL1_def identStart_def isLetterL1_def isDigitL1_def Let_def)

lemma digit_disjoint: "isDigitL1 c \<Longrightarrow> \<not> identStart c"
  by (auto simp: identStart_def isLetterL1_def isDigitL1_def Let_def)

lemma char_disjoint: "\<not> identStart CHR ''/''" "\<not> identStart CHR '':''" "\<not> isDigitL1 CHR ''/''" "\<not> isDigitL1 CHR '':''"
  by (simp_all add: identStart_def isLetterL1_def isDigitL1_def)

lemma ident_char:
  assumes "identStart c"
  shows "\<not> isSpaceL1 c \<and> c \<noteq> CHR ''/'' \<and> c \<noteq> CHR '':'' \<and> punct c = None \<and> \<not> isDigitL1 c \<and> isIdentChar c"
  using assms space_disjoint punct_disjoint digit_disjoint char_disjoint
  by (metis identStart_def isIdentChar_def option.exhaust)

lemma digit_char:
  assumes "isDigitL1 c"
  shows "\<not> isSpaceL1 c \<and> c \<noteq> CHR ''/'' \<and> c \<noteq> CHR '':'' \<and> punct c = None"
  using assms space_disjoint punct_disjoint char_disjoint by (metis option.exhaust)

lemma takeWhile_ends:
  assumes "list_all P v" "s = [] \<or> \<not> P (hd s)"
  shows "takeWhile P (v @ s) = v" "dropWhile P (v @ s) = s"
  using assms by (induction v) (cases s; simp)+

lemma colon_char [simp]: "\<not> isSpaceL1 CHR '':''" "punct CHR '':'' = None"
  by (simp_all add: isSpaceL1_def punct_def)

lemma next_tok_spelled:
  assumes "gap g" "wf_tok (k, v)" "ends k s"
  shows "\<exists>ln'. next_tok (g @ v @ s) ln = Inr (\<lparr>tkind = k, tval = v, tline = ln'\<rparr>, s, ln')"
proof -
  have hd: "v \<noteq> [] \<and> \<not> isSpaceL1 (hd v) \<and> hd v \<noteq> CHR ''/''"
    using assms(2) ident_char digit_char punct_char by (cases k) (auto simp: list_all_iff)
  then obtain ln' where sk: "skipWhitespaceAndComments (g @ v @ s) ln = (v @ s, ln')"
    using skip_gap[OF assms(1), of "v @ s" ln] by auto
  obtain c r where v: "v = c # r" using hd by (cases v) auto
  define w where "w = r @ s"
  have vs: "v @ s = c # w" by (simp add: v w_def)
  have step: "next_tok (g @ v @ s) ln =
      (case punct c of
         Some k \<Rightarrow> Inr (\<lparr>tkind = k, tval = [c], tline = ln'\<rparr>, w, ln')
       | None \<Rightarrow>
           if c = CHR '':'' then
             if w \<noteq> [] \<and> hd w = CHR '':'' then Inr (\<lparr>tkind = tokDoubleColon, tval = ''::'', tline = ln'\<rparr>, tl w, ln')
             else next_tok w ln'
           else if isDigitL1 c then Inr (\<lparr>tkind = tokNumber, tval = takeWhile isDigitL1 (v @ s), tline = ln'\<rparr>, dropWhile isDigitL1 (v @ s), ln')
           else if identStart c
             then Inr (\<lparr>tkind = tokIdent, tval = takeWhile isIdentChar (v @ s), tline = ln'\<rparr>, dropWhile isIdentChar (v @ s), ln')
           else next_tok w ln')"
    by (subst next_tok.simps, unfold vs sk[unfolded vs] Let_def split list.case identStart_def) (rule refl)
  show ?thesis
  proof (cases "k = tokIdent \<or> k = tokNumber \<or> k = tokDoubleColon")
    case False
    then have "v = [c] \<and> punct c = Some k" using assms(2) v by (cases k) auto
    then show ?thesis unfolding step by (simp add: v w_def)
  next
    case True
    then consider "k = tokIdent" | "k = tokNumber" | "k = tokDoubleColon" by blast
    then show ?thesis
    proof cases
      case 1
      then have c: "identStart c" "list_all isIdentChar v" using assms(2) by (simp_all add: v)
      have "takeWhile isIdentChar (v @ s) = v" "dropWhile isIdentChar (v @ s) = s"
        by (rule takeWhile_ends[OF c(2)]; use assms(3) 1 in \<open>auto simp: ends_def\<close>)+
      then show ?thesis unfolding step using ident_char[OF c(1)] c(1) 1 by simp
    next
      case 2
      then have c: "isDigitL1 c" "list_all isDigitL1 v" using assms(2) by (simp_all add: v)
      have "takeWhile isDigitL1 (v @ s) = v" "dropWhile isDigitL1 (v @ s) = s"
        by (rule takeWhile_ends[OF c(2)]; use assms(3) 2 in \<open>auto simp: ends_def\<close>)+
      then show ?thesis unfolding step using digit_char[OF c(1)] c(1) 2 by simp
    next
      case 3
      then have "c = CHR '':''" "r = '':''" using assms(2) by (simp_all add: v)
      then show ?thesis unfolding step using 3 by (simp add: v w_def)
    qed
  qed
qed

lemma lex_spelled: "spelled ks s \<Longrightarrow> map strip (fst (lexAll s ln)) = ks"
proof (induction arbitrary: ln rule: spelled.induct)
  case (spelled_end g)
  then obtain ln' where "skipWhitespaceAndComments g ln = ([], ln')"
    using skip_gap[of g "[]" ln] by auto
  then show ?case by (subst lexAll.simps) (simp add: next_tok.simps[of g])
next
  case (spelled_tok g k v ks s)
  from next_tok_spelled[OF spelled_tok(1,2,4)] obtain ln'
    where "next_tok (g @ v @ s) ln = Inr (\<lparr>tkind = k, tval = v, tline = ln'\<rparr>, s, ln')" by blast
  then show ?case
    using spelled_tok(5)[of ln'] by (subst lexAll.simps) (simp add: strip_def[of "\<lparr>tkind = k, tval = v, tline = ln'\<rparr>"] case_prod_beta)
qed

section \<open>The parser reads the grammar\<close>

text \<open>
  The grammar of the declarations, as token lists; the token that a bound is made of is arbitrary.
  The first segment of a type reference is none of the type keywords, and \<^verbatim>\<open>long\<close> is no name, because a
  field of this name would be read as part of its type.
\<close>

abbreviation idt :: "string \<Rightarrow> tok" where "idt v \<equiv> (tokIdent, v)"
abbreviation semi :: tok where "semi \<equiv> (tokSemi, '';'')"
abbreviation lbrace :: tok where "lbrace \<equiv> (tokLBrace, ''{'')"
abbreviation rbrace :: tok where "rbrace \<equiv> (tokRBrace, ''}'')"
abbreviation langle :: tok where "langle \<equiv> (tokLAngle, ''<'')"
abbreviation rangle :: tok where "rangle \<equiv> (tokRAngle, ''>'')"
abbreviation comma :: tok where "comma \<equiv> (tokComma, '','')"

definition typeWords :: "string list" where
  "typeWords = [''boolean'', ''octet'', ''float'', ''double'', ''string'', ''short'', ''long'', ''unsigned'', ''sequence'']"

definition qualToks :: "string list \<Rightarrow> tok list" where
  "qualToks ns = concat (map (\<lambda>n. [(tokDoubleColon, ''::''), idt n]) ns)"

definition joinQual :: "string \<Rightarrow> string list \<Rightarrow> string" where
  "joinQual n ns = n @ concat (map (\<lambda>m. ''::'' @ m) ns)"

inductive type_form :: "TypeSpec \<Rightarrow> tok list \<Rightarrow> bool" where
  "type_form KindBoolean [idt ''boolean'']"
| "type_form KindOctet [idt ''octet'']"
| "type_form KindFloat [idt ''float'']"
| "type_form KindDouble [idt ''double'']"
| "type_form KindString [idt ''string'']"
| "type_form KindString [idt ''string'', langle, b, rangle]"
| "type_form KindShort [idt ''short'']"
| "type_form KindLong [idt ''long'']"
| "type_form KindLongLong [idt ''long'', idt ''long'']"
| "type_form KindUShort [idt ''unsigned'', idt ''short'']"
| "type_form KindULong [idt ''unsigned'', idt ''long'']"
| "type_form KindULongLong [idt ''unsigned'', idt ''long'', idt ''long'']"
| "type_form t ks \<Longrightarrow> type_form (KindSequence t) (idt ''sequence'' # langle # ks @ [rangle])"
| "type_form t ks \<Longrightarrow> type_form (KindSequence t) (idt ''sequence'' # langle # ks @ [comma, b, rangle])"
| "n \<notin> set typeWords \<Longrightarrow> type_form (KindStruct (joinQual n ns)) (idt n # qualToks ns)"

definition annotToks :: "string list \<Rightarrow> tok list" where
  "annotToks as = concat (map (\<lambda>a. [(tokAt, ''@''), idt a]) as)"

inductive field_form :: "Field \<Rightarrow> tok list \<Rightarrow> bool" where
  plain_field: "type_form t ks \<Longrightarrow> n \<noteq> ''long'' \<Longrightarrow>
    field_form \<lparr>fName = n, fType = t, fKey = (''key'' \<in> set as)\<rparr> (annotToks as @ ks @ [idt n, semi])"
| array_field: "type_form t ks \<Longrightarrow> n \<noteq> ''long'' \<Longrightarrow> atoi d = Some m \<Longrightarrow>
    field_form \<lparr>fName = n, fType = KindArray t m, fKey = (''key'' \<in> set as)\<rparr>
      (annotToks as @ ks @ [idt n, (tokLBracket, ''[''), (tokNumber, d), (tokRBracket, '']''), semi])"

text \<open>A comma after an enumerator is optional.\<close>

inductive values_form :: "string list \<Rightarrow> tok list \<Rightarrow> bool" where
  "values_form [] []"
| "values_form vs ks \<Longrightarrow> values_form (v # vs) (idt v # ks)"
| "values_form vs ks \<Longrightarrow> values_form (v # vs) (idt v # comma # ks)"

datatype decl = DTypedef Typedef | DEnum Enum | DStruct Struct | DModule string "decl list"

inductive decl_form :: "decl \<Rightarrow> tok list \<Rightarrow> bool" and decls_form :: "decl list \<Rightarrow> tok list \<Rightarrow> bool" where
  typedef_form: "type_form (tdType d) ks \<Longrightarrow> tdName d \<noteq> ''long'' \<Longrightarrow>
    decl_form (DTypedef d) (idt ''typedef'' # ks @ [idt (tdName d), semi])"
| enum_form: "values_form (eValues e) ks \<Longrightarrow> decl_form (DEnum e) (idt ''enum'' # idt (eName e) # lbrace # ks @ [rbrace, semi])"
| struct_form: "list_all2 field_form (sFields s) kss \<Longrightarrow>
    decl_form (DStruct s) (idt ''struct'' # idt (sName s) # lbrace # concat kss @ [rbrace, semi])"
| module_form: "decls_form ds ks \<Longrightarrow> opt = [] \<or> opt = [semi] \<Longrightarrow>
    decl_form (DModule n ds) (idt ''module'' # idt n # lbrace # ks @ rbrace # opt)"
| no_decls: "decls_form [] []"
| more_decls: "decl_form d ks \<Longrightarrow> decls_form ds ls \<Longrightarrow> decls_form (d # ds) (ks @ ls)"

text \<open>The module of a list of declarations: each kind in its own list, in the order of declaration.\<close>

function moduleOf :: "string \<Rightarrow> decl list \<Rightarrow> Module" and subModules :: "decl list \<Rightarrow> Module list" where
  "moduleOf n ds =
     Module n (List.map_filter (\<lambda>d. case d of DTypedef t \<Rightarrow> Some t | _ \<Rightarrow> None) ds)
       (List.map_filter (\<lambda>d. case d of DEnum e \<Rightarrow> Some e | _ \<Rightarrow> None) ds)
       (List.map_filter (\<lambda>d. case d of DStruct s \<Rightarrow> Some s | _ \<Rightarrow> None) ds)
       (subModules ds)"
| "subModules [] = []"
| "subModules (DModule n es # ds) = moduleOf n es # subModules ds"
| "subModules (DTypedef t # ds) = subModules ds"
| "subModules (DEnum e # ds) = subModules ds"
| "subModules (DStruct s # ds) = subModules ds"
  by pat_completeness auto
termination
  by (relation "measure (case_sum (\<lambda>(n, ds). 2 * size_list size ds + 1) (\<lambda>ds. 2 * size_list size ds))") auto

lemma strip_iff [simp]:
  "strip t = (k, v) \<longleftrightarrow> tkind t = k \<and> tval t = v" "(k, v) = strip t \<longleftrightarrow> tkind t = k \<and> tval t = v"
  by (auto simp: strip_def)

lemma strip_fst [simp]: "fst (strip t) = tkind t" "snd (strip t) = tval t"
  by (simp_all add: strip_def)

lemmas toks_conv = map_eq_Cons_conv map_eq_append_conv Cons_eq_map_conv append_eq_map_conv

lemma peek_append [simp]: "ts \<noteq> [] \<Longrightarrow> peek_tok l (ts @ us) = peek_tok l ts"
  by (cases ts) auto

lemma qualName_form:
  "map strip ts = qualToks ns \<Longrightarrow> tkind (peek_tok l rest) \<noteq> tokDoubleColon \<Longrightarrow> qualName l n (ts @ rest) = Inr (joinQual n ns, rest)"
proof (induction ns arbitrary: n ts)
  case Nil
  then show ?case
    by (cases "(l, n, rest)" rule: qualName.cases) (auto simp: qualToks_def joinQual_def)
next
  case (Cons m ns)
  from Cons(2) obtain t u us where ts: "ts = t # u # us" "tkind t = tokDoubleColon" "tkind u = tokIdent" "tval u = m"
      "map strip us = qualToks ns"
    by (auto simp: qualToks_def toks_conv)
  then show ?case using Cons(1)[of us "n @ ''::'' @ m"] Cons(3) by (simp add: joinQual_def)
qed

text \<open>What may follow a type: the name, or the comma or bracket of a sequence.\<close>

definition follows :: "int \<Rightarrow> token list \<Rightarrow> bool" where
  "follows l ts \<longleftrightarrow> tkind (peek_tok l ts) \<in> {tokIdent, tokComma, tokRAngle} \<and> tval (peek_tok l ts) \<noteq> ''long''"

lemma expect_Cons [simp]:
  "expectTok l k d (t # ts) = (if tkind t \<noteq> k then Inl (Expected (tline t) d (tval t)) else Inr (t, ts))"
  "expect l k d (t # ts) = (if tkind t \<noteq> k then Inl (Expected (tline t) d (tval t)) else Inr ts)"
  by (simp_all add: expectTok_def expect_def consume_tok_def)

lemma parseTypeSpec_form:
  "type_form ty ks \<Longrightarrow> map strip ts = ks \<Longrightarrow> follows l rest \<Longrightarrow> parseTypeSpec l (ts @ rest) = Inr (ty, rest)"
proof (induction arbitrary: ts rest rule: type_form.induct)
  case (13 t ks)
  then obtain u v us w where ts: "ts = u # v # us @ [w]" "strip u = idt ''sequence''" "strip v = langle" "map strip us = ks" "strip w = rangle"
    by (auto simp: toks_conv)
  then have "parseTypeSpec l (us @ w # rest) = Inr (t, w # rest)"
    by (intro 13(2)) (auto simp: follows_def)
  then show ?case using ts by (simp add: sequenceEnd_def)
next
  case (14 t ks b)
  then obtain u v us x y w where ts: "ts = u # v # us @ [x, y, w]" "strip u = idt ''sequence''" "strip v = langle" "map strip us = ks"
      "strip x = comma" "strip w = rangle"
    by (auto simp: toks_conv)
  then have "parseTypeSpec l (us @ x # y # w # rest) = Inr (t, x # y # w # rest)"
    by (intro 14(2)) (auto simp: follows_def)
  then show ?case using ts by (simp add: sequenceEnd_def)
next
  case (15 n ns)
  then obtain t us where ts: "ts = t # us" "strip t = idt n" "map strip us = qualToks ns"
    by (auto simp: toks_conv)
  then show ?case using 15 qualName_form[OF ts(3), of l rest n] by (auto simp: typeWords_def follows_def)
qed (auto simp: toks_conv follows_def stringBound_def unsignedType_def consume_tok_def optLong_def)

lemma annots_form:
  "map strip ts = annotToks as \<Longrightarrow> tkind (peek_tok l rest) = tokIdent \<Longrightarrow> annots l k (ts @ rest) = (k \<or> ''key'' \<in> set as, rest)"
proof (induction as arbitrary: k ts)
  case Nil
  then show ?case by (subst annots.simps) (simp add: annotToks_def)
next
  case (Cons a as)
  from Cons(2) obtain t u us where ts: "ts = t # u # us" "tkind t = tokAt" "tval u = a" "map strip us = annotToks as"
    by (auto simp: annotToks_def toks_conv)
  have "tkind (peek_tok l (us @ rest)) \<in> {tokAt, tokIdent}"
    using ts(4) Cons(3) by (cases as; cases us) (auto simp: annotToks_def)
  then have "skipAnnotArgs l (us @ rest) = us @ rest" by (auto simp: skipAnnotArgs_def)
  then show ?case using ts Cons(1)[of us, OF ts(4) Cons(3)] by (subst annots.simps) auto
qed

lemma type_form_ident: "type_form ty ks \<Longrightarrow> ks \<noteq> [] \<and> fst (hd ks) = tokIdent"
  by (induction rule: type_form.induct) auto

lemma parseField_form: "field_form f ks \<Longrightarrow> map strip ts = ks \<Longrightarrow> parseField l (ts @ rest) = Inr (f, rest)"
proof (induction rule: field_form.induct)
  case (plain_field t ks n as)
  from plain_field(3) obtain an ty u v where ts: "ts = an @ ty @ [u, v]" "map strip an = annotToks as" "map strip ty = ks"
      "strip u = idt n" "strip v = semi"
    by (auto simp: toks_conv)
  have ne: "ty \<noteq> [] \<and> tkind (hd ty) = tokIdent"
    using type_form_ident[OF plain_field(1)] ts(3) by (cases ty) auto
  then have "tkind (peek_tok l (ty @ u # v # rest)) = tokIdent" by (cases ty) auto
  then have "annots l False (an @ ty @ u # v # rest) = (''key'' \<in> set as, ty @ u # v # rest)"
    using annots_form[OF ts(2)] by simp
  moreover have "parseTypeSpec l (ty @ u # v # rest) = Inr (t, u # v # rest)"
    using ts plain_field(2) by (intro parseTypeSpec_form[OF plain_field(1)]) (auto simp: follows_def)
  ultimately show ?case using ts by (simp add: parseField_def arraySuffix_def)
next
  case (array_field t ks n d m as)
  from array_field(4) obtain an ty u v w x y where ts: "ts = an @ ty @ [u, v, w, x, y]" "map strip an = annotToks as" "map strip ty = ks"
      "strip u = idt n" "strip v = (tokLBracket, ''['')" "strip w = (tokNumber, d)" "strip x = (tokRBracket, '']'')" "strip y = semi"
    by (auto simp: toks_conv)
  have ne: "ty \<noteq> [] \<and> tkind (hd ty) = tokIdent"
    using type_form_ident[OF array_field(1)] ts(3) by (cases ty) auto
  then have "tkind (peek_tok l (ty @ u # v # w # x # y # rest)) = tokIdent" by (cases ty) auto
  then have "annots l False (an @ ty @ u # v # w # x # y # rest) = (''key'' \<in> set as, ty @ u # v # w # x # y # rest)"
    using annots_form[OF ts(2)] by simp
  moreover have "parseTypeSpec l (ty @ u # v # w # x # y # rest) = Inr (t, u # v # w # x # y # rest)"
    using ts array_field(2) by (intro parseTypeSpec_form[OF array_field(1)]) (auto simp: follows_def)
  ultimately show ?case using ts array_field(3) by (simp add: parseField_def arraySuffix_def consume_tok_def)
qed

lemma field_form_first: "field_form f ks \<Longrightarrow> ks \<noteq> [] \<and> fst (hd ks) \<in> {tokAt, tokIdent}"
proof (induction rule: field_form.induct)
  case (plain_field t ks n as)
  then show ?case using type_form_ident[of t ks] by (cases as) (auto simp: annotToks_def)
next
  case (array_field t ks n d m as)
  then show ?case using type_form_ident[of t ks] by (cases as) (auto simp: annotToks_def)
qed

lemma structFields_form:
  "list_all2 field_form fs kss \<Longrightarrow> map strip ts = concat kss \<Longrightarrow> tkind (peek_tok l rest) = tokRBrace
    \<Longrightarrow> structFields l acc (ts @ rest) = Inr (acc @ fs, rest)"
proof (induction arbitrary: ts acc rule: list_all2_induct)
  case Nil
  then show ?case by (subst structFields.simps) simp
next
  case (Cons f fs ks kss)
  from Cons(4) obtain us vs where ts: "ts = us @ vs" "map strip us = ks" "map strip vs = concat kss"
    by (auto simp: toks_conv)
  have field: "parseField l (us @ vs @ rest) = Inr (f, vs @ rest)" by (rule parseField_form[OF Cons(1) ts(2)])
  have "ks \<noteq> [] \<and> fst (hd ks) \<in> {tokAt, tokIdent}"
    by (rule field_form_first[OF Cons(1)])
  then have "tkind (peek_tok l (us @ vs @ rest)) \<in> {tokAt, tokIdent}"
    using ts(2) by (cases us) auto
  then show ?case using field Cons(3)[OF ts(3) Cons(5), of "acc @ [f]"] ts(1) by (subst structFields.simps) auto
qed

lemma enumValues_form:
  "values_form vs ks \<Longrightarrow> map strip ts = ks \<Longrightarrow> tkind (peek_tok l rest) = tokRBrace \<Longrightarrow> enumValues l acc (ts @ rest) = (acc @ vs, rest)"
proof (induction arbitrary: ts acc rule: values_form.induct)
  case 1
  then show ?case by (subst enumValues.simps) simp
next
  case (2 vs ks v)
  from 2(3) obtain t us where ts: "ts = t # us" "strip t = idt v" "map strip us = ks" by (auto simp: toks_conv)
  have "tkind (peek_tok l (us @ rest)) \<noteq> tokComma"
    using 2(1) ts(3) 2(4) by (cases rule: values_form.cases) auto
  then show ?case using ts 2(2)[OF ts(3) 2(4), of "acc @ [v]"] by (subst enumValues.simps) simp
next
  case (3 vs ks v)
  from 3(3) obtain t u us where ts: "ts = t # u # us" "strip t = idt v" "strip u = comma" "map strip us = ks"
    by (auto simp: toks_conv)
  then show ?case using 3(2)[OF ts(4) 3(4), of "acc @ [v]"] by (subst enumValues.simps) simp
qed

lemma parseTypedef_form:
  assumes "type_form (tdType d) ks" "tdName d \<noteq> ''long''" "map strip ts = ks @ [idt (tdName d), semi]"
  shows "parseTypedef l (ts @ rest) = Inr (d, rest)"
proof -
  obtain us u v where ts: "ts = us @ [u, v]" "map strip us = ks" "strip u = idt (tdName d)" "strip v = semi"
    using assms(3) by (auto simp: toks_conv)
  then have "parseTypeSpec l (us @ u # v # rest) = Inr (tdType d, u # v # rest)"
    using assms(2) by (intro parseTypeSpec_form[OF assms(1)]) (auto simp: follows_def)
  then show ?thesis using ts by (simp add: parseTypedef_def)
qed

lemma parseEnum_form:
  assumes "values_form (eValues e) ks" "map strip ts = idt (eName e) # lbrace # ks @ [rbrace, semi]"
  shows "parseEnum l (ts @ rest) = Inr (e, rest)"
proof -
  obtain n b us u v where ts: "ts = n # b # us @ [u, v]" "strip n = idt (eName e)" "strip b = lbrace" "map strip us = ks"
      "strip u = rbrace" "strip v = semi"
    using assms(2) by (auto simp: toks_conv)
  then have "enumValues l [] (us @ u # v # rest) = (eValues e, u # v # rest)"
    using enumValues_form[OF assms(1), of us l "u # v # rest" "[]"] by simp
  then show ?thesis using ts by (simp add: parseEnum_def)
qed

lemma parseStruct_form:
  assumes "list_all2 field_form (sFields s) kss" "map strip ts = idt (sName s) # lbrace # concat kss @ [rbrace, semi]"
  shows "parseStruct l (ts @ rest) = Inr (s, rest)"
proof -
  obtain n b us u v where ts: "ts = n # b # us @ [u, v]" "strip n = idt (sName s)" "strip b = lbrace" "map strip us = concat kss"
      "strip u = rbrace" "strip v = semi"
    using assms(2) by (auto simp: toks_conv)
  then have "structFields l [] (us @ u # v # rest) = Inr (sFields s, u # v # rest)"
    using structFields_form[OF assms(1), of us l "u # v # rest" "[]"] by simp
  then show ?thesis using ts by (simp add: parseStruct_def)
qed

text \<open>Adding declarations one by one gives the module of the list.\<close>

fun addDecl :: "decl \<Rightarrow> Module \<Rightarrow> Module" where
  "addDecl (DTypedef t) = addTypedef t"
| "addDecl (DEnum e) = addEnum e"
| "addDecl (DStruct s) = addStruct s"
| "addDecl (DModule n ds) = addModule (moduleOf n ds)"

lemmas add_defs = addTypedef_def addEnum_def addStruct_def addModule_def

lemma fold_addDecl:
  "fold addDecl ds m = Module (mName m)
     (mTypedefs m @ mTypedefs (moduleOf [] ds)) (mEnums m @ mEnums (moduleOf [] ds))
     (mStructs m @ mStructs (moduleOf [] ds)) (mModules m @ mModules (moduleOf [] ds))"
proof (induction ds arbitrary: m)
  case Nil
  then show ?case by simp
next
  case (Cons d ds)
  show ?case by (cases d) (simp_all add: Cons add_defs)
qed

lemma decls_parse:
  "decl_form d ks \<Longrightarrow> map strip ts = ks \<Longrightarrow> tkind (peek_tok l rest) \<noteq> tokSemi \<Longrightarrow>
     parseModule l m (ts @ rest) = parseModule l (addDecl d m) rest"
  "decls_form ds ks \<Longrightarrow> map strip ts = ks \<Longrightarrow> tkind (peek_tok l rest) \<in> {tokEOF, tokRBrace} \<Longrightarrow>
     parseModule l m (ts @ rest) = Inr (fold addDecl ds m, rest)"
proof (induction arbitrary: ts m rest and ts m rest rule: decl_form_decls_form.inducts)
  case (typedef_form d ks)
  then obtain t us where ts: "ts = t # us" "strip t = idt ''typedef''" "map strip us = ks @ [idt (tdName d), semi]"
    by (auto simp: map_eq_Cons_conv)
  then show ?case using parseTypedef_form[OF typedef_form(1,2) ts(3), of l rest] by simp
next
  case (enum_form e ks)
  then obtain t us where ts: "ts = t # us" "strip t = idt ''enum''" "map strip us = idt (eName e) # lbrace # ks @ [rbrace, semi]"
    by (auto simp: map_eq_Cons_conv)
  then show ?case using parseEnum_form[OF enum_form(1) ts(3), of l rest] by simp
next
  case (struct_form s kss)
  then obtain t us where ts: "ts = t # us" "strip t = idt ''struct''" "map strip us = idt (sName s) # lbrace # concat kss @ [rbrace, semi]"
    by (auto simp: map_eq_Cons_conv)
  then show ?case using parseStruct_form[OF struct_form(1) ts(3), of l rest] by simp
next
  case (module_form ds ks opt n)
  then obtain t nm b us u os where ts: "ts = t # nm # b # us @ u # os" "strip t = idt ''module''" "strip nm = idt n" "strip b = lbrace"
      "map strip us = ks" "strip u = rbrace" "map strip os = opt"
    by (auto simp: toks_conv)
  have "parseModule l emptyModule (us @ u # os @ rest) = Inr (fold addDecl ds emptyModule, u # os @ rest)"
    using ts by (intro module_form(3)) auto
  moreover have "setName n (fold addDecl ds emptyModule) = moduleOf n ds"
    by (simp add: fold_addDecl setName_def emptyModule_def)
  moreover have "(if tkind (peek_tok l (os @ rest)) = tokSemi then tl (os @ rest) else os @ rest) = rest"
    using module_form(2,5) ts(7) by (cases os) auto
  ultimately have "parseNamedModule l (nm # b # us @ u # os @ rest) = Inr (moduleOf n ds, rest)"
    using ts by simp
  then show ?case using ts by simp
next
  case no_decls
  then show ?case by (cases rest) auto
next
  case (more_decls d ks ds ls)
  then obtain us vs where ts: "ts = us @ vs" "map strip us = ks" "map strip vs = ls" by (auto simp: toks_conv)
  have "tkind (peek_tok l (vs @ rest)) \<noteq> tokSemi"
    using more_decls(2,6) ts(3) by (cases rule: decls_form.cases; cases vs) (auto elim!: decl_form.cases)
  then show ?case using more_decls(3)[OF ts(2)] more_decls(4)[OF ts(3) more_decls(6)] ts(1) by simp
qed

text \<open>
  C19: the parser recovers the declarations of every source text: whatever white space and comments
  stand between the tokens, whatever annotations, bounds and optional separators are used and
  however modules nest, parsing a text of declarations of the grammar gives the module that holds
  them, each kind in its order of declaration.
\<close>

theorem idl_recovers:
  assumes "decls_form ds ks" and "spelled ks src"
  shows "ParseString src = Inr (moduleOf [] ds)"
proof -
  obtain ts l where lex: "lexAll src 1 = (ts, l)" by fastforce
  then have "map strip ts = ks" using lex_spelled[OF assms(2), of 1] by simp
  then have "parseModule l emptyModule ts = Inr (fold addDecl ds emptyModule, [])"
    using decls_parse(2)[OF assms(1), of ts l "[]" emptyModule] by (simp add: endTok_def)
  then show ?thesis by (simp add: ParseString_def lex fold_addDecl emptyModule_def)
qed

text \<open>The spelling with a space before every token.\<close>

definition spaced :: "tok list \<Rightarrow> string" where
  "spaced ks = concat (map (\<lambda>(k, v). CHR '' '' # v) ks)"

lemma space_char: "isSpaceL1 CHR '' ''" "\<not> isIdentChar CHR '' ''" "\<not> isDigitL1 CHR '' ''"
  by (simp_all add: isSpaceL1_def isIdentChar_def isLetterL1_def isDigitL1_def)

lemma spelled_spaced: "list_all wf_tok ks \<Longrightarrow> spelled ks (spaced ks)"
proof (induction ks)
  case Nil
  then show ?case using spelled_end[OF gap_empty] by (simp add: spaced_def)
next
  case (Cons a ks)
  obtain k v where a: "a = (k, v)" by fastforce
  have "gap '' ''" by (rule gap_space[OF space_char(1) gap_empty])
  moreover have "ends k (spaced ks)"
    using space_char by (cases ks) (auto simp: ends_def spaced_def)
  ultimately show ?case
    using Cons spelled_tok[of "'' ''" k v ks "spaced ks"] by (simp add: a spaced_def)
qed

theorem idl_recovers_witness:
  "ParseString '' module m { struct s { @ key sequence < a :: b > x [ 3 ] ; } ; }''
    = Inr (Module [] [] [] [] [Module ''m'' [] []
        [\<lparr>sName = ''s'', sFields = [\<lparr>fName = ''x'', fType = KindArray (KindSequence (KindStruct ''a::b'')) 3, fKey = True\<rparr>]\<rparr>] []])"
proof -
  define ty where "ty = [idt ''sequence'', langle, idt ''a'', (tokDoubleColon, ''::''), idt ''b'', rangle]"
  define fl where "fl = [(tokAt, ''@''), idt ''key''] @ ty @ [idt ''x'', (tokLBracket, ''[''), (tokNumber, ''3''), (tokRBracket, '']''), semi]"
  define st where "st = [idt ''struct'', idt ''s'', lbrace] @ fl @ [rbrace, semi]"
  define ks where "ks = [idt ''module'', idt ''m'', lbrace] @ st @ [rbrace]"
  note defs = ty_def fl_def st_def ks_def
  have "type_form (KindSequence (KindStruct ''a::b'')) ty"
    using type_form.intros(13)[OF type_form.intros(15)[of "''a''" "[''b'']"]]
    by (simp add: typeWords_def joinQual_def qualToks_def ty_def)
  then have f: "field_form \<lparr>fName = ''x'', fType = KindArray (KindSequence (KindStruct ''a::b'')) 3, fKey = True\<rparr> fl" (is "field_form ?f fl")
    using array_field[of "KindSequence (KindStruct ''a::b'')" ty "''x''" "''3''" 3 "[''key'']"]
    by (simp add: atoi_def decVal_def annotToks_def fl_def)
  have "decl_form (DStruct \<lparr>sName = ''s'', sFields = [?f]\<rparr>) st"
    using struct_form[of "\<lparr>sName = ''s'', sFields = [?f]\<rparr>" "[fl]"] f by (simp add: st_def)
  then have "decls_form [DStruct \<lparr>sName = ''s'', sFields = [?f]\<rparr>] st"
    using more_decls[OF _ no_decls] by fastforce
  then have "decl_form (DModule ''m'' [DStruct \<lparr>sName = ''s'', sFields = [?f]\<rparr>]) ks"
    using module_form[of _ st "[]" "''m''"] by (simp add: ks_def)
  then have d: "decls_form [DModule ''m'' [DStruct \<lparr>sName = ''s'', sFields = [?f]\<rparr>]] ks"
    using more_decls[OF _ no_decls] by fastforce
  have "list_all wf_tok ks"
    by (simp add: defs identStart_def isIdentChar_def isLetterL1_def isDigitL1_def punct_def)
  then show ?thesis
    using idl_recovers[OF d spelled_spaced] by (simp add: defs spaced_def)
qed

text \<open>
  Arguments of an annotation are written in parentheses, which the lexer skips; the parser then takes
  them for a type. A closing brace too many ends the parse without an error.
\<close>

lemma annotation_arguments: "ParseString ''struct s { @id(1) long x; };'' = Inl (Expected 1 ''type name'' ''1'')"
  by code_simp

lemma stray_brace: "ParseString ''} struct s { long x; };'' = Inr emptyModule"
  by code_simp

end
