(* ===== verification/Spec2Isabelle.thy ===== *)
theory Spec2Isabelle
  imports Rtps_Invariants Rtps_Errors Rtps_Startup Rtps_Loan Cfilter Safety_E2e Sample_Pool Security_Plugins
    Shmem_Invariants Idl_Parser
begin

text \<open>
  A verification of go-DDS, a publish/subscribe middleware in Go: a DDS API (\<^verbatim>\<open>src/dds.go\<close>) over an
  RTPS 2.3 wire protocol (\<^verbatim>\<open>src/rtps\<close>), with filtering, safety, pooling and security packages
  around it.

  \<^bold>\<open>The program.\<close> A participant (\<^verbatim>\<open>rtps/participant.go\<close>) owns writers and readers. A write counts the
  sample, seals it, wraps it into a DATA submessage or fragments (\<^verbatim>\<open>message.go\<close>, \<^verbatim>\<open>fragment.go\<close>), keeps
  it in the retransmission history (\<^verbatim>\<open>reliable.go\<close>), hands it to the local readers and sends it to the
  locators of the matched remote readers. Received packets are taken apart by the submessage
  iterator; DATA reaches the readers that accept its source, after partition, ownership, separation
  and content filters (\<^verbatim>\<open>qos_enforce.go\<close>, \<^verbatim>\<open>cfilter\<close>); HEARTBEAT and DATA make reliable readers ask for
  gaps by ACKNACK, which writers answer by retransmission and GAP. Whom a writer sends to and whom a
  reader accepts is decided by discovery: participants announce themselves (\<^verbatim>\<open>spdp.go\<close>), then their
  endpoints (\<^verbatim>\<open>sedp.go\<close>), as parameter lists (\<^verbatim>\<open>cdr.go\<close>) of identifiers, locators and QoS.

  \<^bold>\<open>The theories.\<close>
  \<^item> \<open>Dds_Prelude\<close>: bytes, words, little-endian codecs, Go slices, association lists for Go maps that
    are ranged over; the generic lemmas and the collections of rewrite rules.
  \<^item> \<open>Rtps_Guid\<close> (\<^verbatim>\<open>guid.go\<close>), \<open>Rtps_Locator\<close> (\<^verbatim>\<open>locator.go\<close>), \<open>Topic_Match\<close> (\<^verbatim>\<open>wildcard.go\<close>), \<open>Rtps_Message\<close>
    (\<^verbatim>\<open>message.go\<close>), \<open>Rtps_Cdr\<close> (\<^verbatim>\<open>cdr.go\<close>), \<open>Rtps_Fragment\<close> (\<^verbatim>\<open>fragment.go\<close>), \<open>Rtps_Reliable\<close> (\<^verbatim>\<open>reliable.go\<close>),
    \<open>Qos_Enforce\<close> (\<^verbatim>\<open>qos_enforce.go\<close>): one theory per file, with one definition per function. Integers keep
    their width. The lemmas give round trips of all codecs, exact specifications of the history, the
    receive tracker and the reassembler, and the policies.
  \<^item> \<open>Dds_Core\<close> (\<^verbatim>\<open>dds.go\<close>): errors, QoS, samples, subscriber options, channels as bounded queues, the
    wait set and the typed wrappers.
  \<^item> \<open>Rtps_State\<close>: the participant's state as a record, with the writers, readers and discovery tables,
    and the choice of the transport for a message. \<open>Rtps_Sedp\<close> and \<open>Rtps_Spdp\<close>: discovery. \<open>Rtps_Reader\<close> and
    \<open>Rtps_Writer\<close>: the two sides of data traffic (with \<^verbatim>\<open>persist.go\<close>). \<open>Rtps_Participant\<close>: packet routing,
    creating and closing endpoints, draining, metrics; the end-to-end statements.
  \<^item> \<open>Rtps_Run\<close>: a step relation with a rule for every call, packet and tick; \<open>Rtps_Invariants\<close>: what holds
    in every reachable state. \<open>Rtps_Errors\<close>: what failed writes leave behind.
  \<^item> \<open>Participant_Config\<close> (\<^verbatim>\<open>config/config.go\<close>) and \<open>Rtps_Startup\<close>: options, sockets and creation of a
    participant. \<open>Rtps_Loan\<close>: loaned samples and introspection (\<^verbatim>\<open>loan.go\<close>, \<^verbatim>\<open>discovery.go\<close>).
  \<^item> \<open>Cfilter\<close> (\<^verbatim>\<open>cfilter/cfilter.go\<close>): the filter language with its grammar and semantics. \<open>Safety_E2e\<close>
    (\<^verbatim>\<open>safety/e2e.go\<close>, \<^verbatim>\<open>metrics.go\<close>, \<^verbatim>\<open>queue.go\<close>): protected frames. \<open>Sample_Pool\<close> (\<^verbatim>\<open>pool/pool.go\<close>).
    \<open>Security_Plugins\<close> (\<^verbatim>\<open>security/\<close>): payload and discovery plug-ins, access policy, replay guard.
  \<^item> \<open>Shmem\<close> (\<^verbatim>\<open>shmem/shmem.go\<close>, \<^verbatim>\<open>shmem/loan.go\<close>): the shared-memory transport of the processes of one host,
    with a step relation over calls, goroutines and buffers; \<open>Shmem_Invariants\<close>: delivery, counters and
    channels in every reachable state, the file between processes, and what interleaving does to it.
  \<^item> \<open>Idl_Parser\<close> (\<^verbatim>\<open>tools/idl/parser.go\<close>, \<^verbatim>\<open>ast.go\<close>): lexer and parser of the IDL compiler, with the grammar of
    its declarations and the proof that every spelling of it is parsed to what it declares.

  \<^bold>\<open>State and steps.\<close> Every method that runs under a lock is one step on the state record. Goroutines
  are represented by the steps they take: the tick of a timer, one received packet. What a step sends
  is a list of output events. A panic, a loop that never ends and a send that blocks forever are
  the result \<open>None\<close>. Decisions of the operating system and of the runtime (the clock, the random
  source, which transport accepts a packet, which buffer a pool hands out) are arguments. Code that
  is not in the sources is an argument too: cryptographic primitives, JSON decoding, float parsing.
  In the participant the compiler of content filters is an argument; \<open>Cfilter\<close> verifies the one the
  program uses.

  \<^bold>\<open>Interfaces.\<close> Locales state what components rely on: \<open>bounded_fifo\<close> (channels, the deterministic queue
  and the sample buffer), \<open>submsg_frame\<close> and \<open>submsg_codec\<close> (every submessage under the iterator),
  \<open>param_codec\<close> (every value of a parameter list), \<open>retained_history\<close> (the send history) and
  \<open>reader_turns\<close> (an operation that serves the readers one after the other). Each is interpreted on the
  definitions of the model.

  \<^bold>\<open>Bounds and fuel.\<close> The recursions are structural or have a termination proof by a measure; the filter
  parser recurses with fuel, and it is shown that a number of steps linear in the number of tokens
  is enough. The loop computing missing sequence numbers may run forever in the code; its result
  is then \<open>None\<close>, and exactly when this happens is a theorem. Sequence numbers are 64-bit words; where
  a statement needs them not to wrap around it says so.

  \<^bold>\<open>Not modelled.\<close> Reading and writing on sockets, TLS, QUIC and WebSocket sessions, STUN, the bridges,
  the Cyclone binding, the code generator of the IDL compiler, and the command-line, observability
  and Kubernetes programs are input and output around the modelled core. The mock transport is a test double. The
  interleaving of two methods that the code protects by different locks is not modelled: each method
  is atomic.
\<close>

end
